(* ===== verification/Js_Prelude.thy ===== *)
theory Js_Prelude
  imports Main "HOL-Library.Word" "HOL-Library.AList"
begin

text \<open>
  The part of the JavaScript language and of the Node.js standard library that the
  modelled components use, and the lemmas about it that their proofs share.

  \<^item> A \<open>Buffer\<close> is a list of bytes, a byte an \<open>8 word\<close>.  \<open>slice\<close> and \<open>subarray\<close> are
    \<open>subarray\<close>, the readers are \<open>readUInt8\<close>, \<open>readUInt16BE\<close>, \<open>readUInt32BE\<close> (they
    raise \<open>RangeError\<close> out of range), the writers are \<open>enc16\<close>, \<open>enc32\<close> placed with
    \<open>put\<close>, which overwrites a run of bytes as \<open>copy\<close> and \<open>write...BE\<close> do.
    \<open>be16\<close> and \<open>be32\<close> are the values behind the readers; a definition uses them
    directly where the source has checked the bounds before.
  \<^item> An exception is a value of a sum type, \<open>Inl\<close> the error; \<open>bindE\<close> sequences
    computations that may raise.
  \<^item> Strings are lists of characters; \<open>dec\<close> is \<open>String(n)\<close> for a non-negative
    integer, \<open>parseInt10\<close> is \<open>parseInt(s, 10)\<close> (\<open>None\<close> for NaN), \<open>split_on\<close> and
    \<open>join\<close> are \<open>split\<close> and \<open>join\<close>, \<open>hex\<close> is \<open>toString('hex')\<close>.
  \<^item> A \<open>Map\<close> is an association list in insertion order: \<open>map_of\<close> is \<open>get\<close>,
    \<open>AList.update\<close> is \<open>set\<close> (an existing key keeps its place, a new one goes last)
    and \<open>AList.delete\<close> is \<open>delete\<close>.
\<close>

unbundle bit_operations_syntax

named_theorems buf_simps \<open>rewrite rules for reading and writing buffers\<close>
named_theorems text_simps \<open>rewrite rules for printing and parsing text\<close>

type_synonym byte = "8 word"
type_synonym buffer = "byte list"

section \<open>Exceptions\<close>

datatype js_error = RangeError | TypeError | JsError

definition bindE :: "'e + 'a \<Rightarrow> ('a \<Rightarrow> 'e + 'b) \<Rightarrow> 'e + 'b" where
  "bindE r f = (case r of Inl e \<Rightarrow> Inl e | Inr x \<Rightarrow> f x)"

lemma bindE_simps [simp]: "bindE (Inl e) f = Inl e" "bindE (Inr x) f = f x"
  by (simp_all add: bindE_def)

lemma bindE_Inr_iff: "bindE r f = Inr y \<longleftrightarrow> (\<exists>x. r = Inr x \<and> f x = Inr y)"
  by (cases r) simp_all

section \<open>Buffers\<close>

definition subarray :: "'a list \<Rightarrow> nat \<Rightarrow> nat \<Rightarrow> 'a list" where
  "subarray b s e = take (e - s) (drop s b)"

definition be16 :: "buffer \<Rightarrow> nat \<Rightarrow> nat" where
  "be16 b i = unat (b ! i) * 256 + unat (b ! (i + 1))"

definition be32 :: "buffer \<Rightarrow> nat \<Rightarrow> nat" where
  "be32 b i = be16 b i * 65536 + be16 b (i + 2)"

definition readUInt8 :: "buffer \<Rightarrow> nat \<Rightarrow> js_error + nat" where
  "readUInt8 b i = (if i + 1 \<le> length b then Inr (unat (b ! i)) else Inl RangeError)"

definition readUInt16BE :: "buffer \<Rightarrow> nat \<Rightarrow> js_error + nat" where
  "readUInt16BE b i = (if i + 2 \<le> length b then Inr (be16 b i) else Inl RangeError)"

definition readUInt32BE :: "buffer \<Rightarrow> nat \<Rightarrow> js_error + nat" where
  "readUInt32BE b i = (if i + 4 \<le> length b then Inr (be32 b i) else Inl RangeError)"

definition alloc :: "nat \<Rightarrow> buffer" where
  "alloc n = replicate n 0"

definition put :: "buffer \<Rightarrow> nat \<Rightarrow> buffer \<Rightarrow> buffer" where
  "put b off bs = take (length b) (take off b @ bs @ drop (off + length bs) b)"

definition enc8 :: "nat \<Rightarrow> buffer" where
  "enc8 n = [word_of_nat n]"

definition enc16 :: "nat \<Rightarrow> buffer" where
  "enc16 n = [word_of_nat (n div 256), word_of_nat n]"

definition enc32 :: "nat \<Rightarrow> buffer" where
  "enc32 n = enc16 (n div 65536) @ enc16 n"

text \<open>\<open>writeUInt16BE\<close> and \<open>writeUInt32BE\<close> of a number: out of range they raise, a value
  that is not a number is written as zero.\<close>

definition writeUInt16BE :: "int option \<Rightarrow> js_error + buffer" where
  "writeUInt16BE v = (case v of None \<Rightarrow> Inr (enc16 0)
     | Some n \<Rightarrow> if 0 \<le> n \<and> n \<le> 0xffff then Inr (enc16 (nat n)) else Inl RangeError)"

definition writeUInt32BE :: "int option \<Rightarrow> js_error + buffer" where
  "writeUInt32BE v = (case v of None \<Rightarrow> Inr (enc32 0)
     | Some n \<Rightarrow> if 0 \<le> n \<and> n \<le> 0xffffffff then Inr (enc32 (nat n)) else Inl RangeError)"

text \<open>A \<open>map\<close> whose callback may raise.\<close>

fun mapE :: "('a \<Rightarrow> 'e + 'b) \<Rightarrow> 'a list \<Rightarrow> 'e + 'b list" where
  "mapE f [] = Inr []"
| "mapE f (x # xs) = bindE (f x) (\<lambda>y. bindE (mapE f xs) (\<lambda>ys. Inr (y # ys)))"

lemma mapE_Inr: "mapE f xs = Inr ys \<longleftrightarrow> list_all2 (\<lambda>x y. f x = Inr y) xs ys"
  by (induction xs arbitrary: ys) (auto simp: bindE_Inr_iff list_all2_Cons1)

lemma subarray_0 [buf_simps]: "subarray b 0 e = take e b"
  by (simp add: subarray_def)

lemma length_subarray [buf_simps]: "length (subarray b s e) = min e (length b) - s"
  by (auto simp: subarray_def)

lemma subarray_append1 [buf_simps]: "e \<le> length a \<Longrightarrow> subarray (a @ x) s e = subarray a s e"
  by (simp add: subarray_def)

lemma subarray_append2 [buf_simps]:
  "length a \<le> s \<Longrightarrow> subarray (a @ x) s e = subarray x (s - length a) (e - length a)"
  by (simp add: subarray_def)

lemma subarray_split: "s \<le> m \<Longrightarrow> m \<le> e \<Longrightarrow> subarray b s m @ subarray b m e = subarray b s e"
  using take_add [of "m - s" "e - m" "drop s b"] by (simp add: subarray_def)

lemma unat_byte_less [simp]: "unat (w :: byte) < 256"
  using unsigned_less [of w] by simp

lemma unat_byte_le [simp]: "unat (w :: byte) \<le> 255"
  using unat_byte_less [of w] by linarith

lemma unat_of_nat_byte [simp]: "unat (word_of_nat n :: byte) = n mod 256"
  by (simp add: unat_of_nat)

lemma word_of_nat_unat_byte [simp]: "(word_of_nat (unat w) :: byte) = w"
  by simp

lemma word_of_nat_byte_cong: "m mod 256 = n mod 256 \<Longrightarrow> (word_of_nat m :: byte) = word_of_nat n"
  by (simp add: word_unat_eq_iff)

lemma word_of_nat_mult_256 [simp]: "(word_of_nat (m * 256 + n) :: byte) = word_of_nat n"
  by (rule word_of_nat_byte_cong) simp

lemma be16_less [simp]: "be16 b i < 65536"
proof -
  have "unat (b ! i) \<le> 255" "unat (b ! (i + 1)) \<le> 255" by (rule unat_byte_le)+
  then show ?thesis unfolding be16_def by linarith
qed

lemma be32_less [simp]: "be32 b i < 4294967296"
proof -
  have "be16 b i < 65536" "be16 b (i + 2) < 65536" by (rule be16_less)+
  then show ?thesis unfolding be32_def by linarith
qed

lemma length_enc [simp]:
  "length (enc8 n) = 1" "length (enc16 n) = 2" "length (enc32 n) = 4"
  by (simp_all add: enc8_def enc16_def enc32_def)

lemma writeUInt_Inr:
  "writeUInt16BE v = Inr b \<Longrightarrow> length b = 2" "writeUInt32BE v = Inr b \<Longrightarrow> length b = 4"
  by (auto simp: writeUInt16BE_def writeUInt32BE_def split: option.splits if_splits)

lemma enc_not_Nil [simp]: "enc8 n \<noteq> []" "enc16 n \<noteq> []" "enc32 n \<noteq> []"
  by (simp_all add: enc8_def enc16_def enc32_def)

lemma be16_append1 [buf_simps]: "i + 2 \<le> length a \<Longrightarrow> be16 (a @ x) i = be16 a i"
  by (simp add: be16_def nth_append)

lemma be16_append2 [buf_simps]: "length a \<le> i \<Longrightarrow> be16 (a @ x) i = be16 x (i - length a)"
  by (simp add: be16_def nth_append Suc_diff_le)

lemma be32_append1 [buf_simps]: "i + 4 \<le> length a \<Longrightarrow> be32 (a @ x) i = be32 a i"
  by (simp add: be32_def buf_simps)

lemma be32_append2 [buf_simps]: "length a \<le> i \<Longrightarrow> be32 (a @ x) i = be32 x (i - length a)"
  by (simp add: be32_def buf_simps Suc_diff_le)

lemma be16_enc16 [buf_simps]: "be16 (enc16 n @ x) 0 = n mod 65536"
proof -
  have "n div 256 mod 256 * 256 + n mod 256 = n mod (256 * 256)"
    by (metis add.commute mod_mult2_eq mult.commute)
  then show ?thesis by (simp add: be16_def enc16_def)
qed

lemma be16_enc16_Nil [buf_simps]: "be16 (enc16 n) 0 = n mod 65536"
  using be16_enc16 [of n "[]"] by simp

lemma be32_enc32 [buf_simps]: "be32 (enc32 n @ x) 0 = n mod 4294967296"
proof -
  have "n div 65536 mod 65536 * 65536 + n mod 65536 = n mod (65536 * 65536)"
    by (metis add.commute mod_mult2_eq mult.commute)
  then show ?thesis by (simp add: be32_def enc32_def buf_simps)
qed

lemma be32_enc32_Nil [buf_simps]: "be32 (enc32 n) 0 = n mod 4294967296"
  using be32_enc32 [of n "[]"] by simp

lemma enc16_be16: "i + 2 \<le> length b \<Longrightarrow> enc16 (be16 b i) = subarray b i (i + 2)"
proof -
  assume "i + 2 \<le> length b"
  then have "take 2 (drop i b) = [b ! i, b ! (i + 1)]"
    by (simp add: numeral_2_eq_2 Cons_nth_drop_Suc [symmetric])
  moreover have "(unat (b ! i) * 256 + unat (b ! (i + 1))) div 256 = unat (b ! i)" by simp
  ultimately show ?thesis
    by (simp add: enc16_def be16_def subarray_def del: of_nat_add of_nat_mult)
qed

lemma enc32_be32: "i + 4 \<le> length b \<Longrightarrow> enc32 (be32 b i) = subarray b i (i + 4)"
proof -
  assume i: "i + 4 \<le> length b"
  have low: "enc16 (be16 b i * 65536 + be16 b (i + 2)) = enc16 (be16 b (i + 2))"
  proof -
    have "(be16 b i * 65536 + be16 b (i + 2)) mod 65536 = be16 b (i + 2)" by simp
    moreover have "enc16 (n mod 65536) = enc16 n" for n
    proof -
      have "n mod 65536 div 256 mod 256 = n div 256 mod 256"
        using mod_mult2_eq [of n 256 256] by (simp add: div_mult2_eq)
      moreover have "n mod 65536 mod 256 = n mod 256"
        by (simp add: mod_mod_cancel)
      ultimately show ?thesis by (simp add: enc16_def word_unat_eq_iff)
    qed
    ultimately show ?thesis by metis
  qed
  have "enc32 (be32 b i) = subarray b i (i + 2) @ subarray b (i + 2) (i + 4)"
  proof -
    have four: "i + 2 + 2 = i + 4" by simp
    have "enc16 (be16 b (i + 2)) = subarray b (i + 2) (i + 4)"
      using i by (rule enc16_be16 [of "i + 2" b, unfolded four])
    moreover have "enc16 (be16 b i) = subarray b i (i + 2)"
      using i by (simp add: enc16_be16)
    moreover have "(be16 b i * 65536 + be16 b (i + 2)) div 65536 = be16 b i" by simp
    ultimately show ?thesis
      unfolding enc32_def be32_def using low by simp
  qed
  also have "\<dots> = subarray b i (i + 4)"
    by (rule subarray_split) simp_all
  finally show ?thesis .
qed

lemma length_put [simp]: "off + length bs \<le> length b \<Longrightarrow> length (put b off bs) = length b"
  by (simp add: put_def)

lemma put_append [buf_simps]:
  "off = length a \<Longrightarrow> length bs \<le> length r \<Longrightarrow> put (a @ r) off bs = a @ bs @ drop (length bs) r"
  by (simp add: put_def)

lemma length_alloc [simp]: "length (alloc n) = n"
  by (simp add: alloc_def)

lemma alloc_0 [simp]: "alloc 0 = []"
  by (simp add: alloc_def)

lemma drop_alloc [buf_simps]: "drop k (alloc n) = alloc (n - k)"
  by (simp add: alloc_def)

lemma take_alloc [buf_simps]: "take k (alloc n) = alloc (min k n)"
  by (simp add: alloc_def)

lemma subarray_alloc [buf_simps]: "subarray (alloc n) i j = alloc (min (j - i) (n - i))"
  by (simp add: subarray_def buf_simps)

lemma be_alloc [buf_simps]:
  "i + 2 \<le> n \<Longrightarrow> be16 (alloc n) i = 0" "i + 4 \<le> n \<Longrightarrow> be32 (alloc n) i = 0"
  by (simp_all add: be32_def be16_def alloc_def)

lemma put_alloc [buf_simps]: "length bs \<le> n \<Longrightarrow> put (alloc n) 0 bs = bs @ alloc (n - length bs)"
  using put_append [of 0 "[]" bs "alloc n"] by (simp add: buf_simps)

section \<open>Decimal text\<close>

definition digit :: "nat \<Rightarrow> char" where
  "digit n = char_of (48 + n)"

definition is_digit :: "char \<Rightarrow> bool" where
  "is_digit c = (48 \<le> (of_char c :: nat) \<and> (of_char c :: nat) \<le> 57)"

definition digit_val :: "char \<Rightarrow> nat" where
  "digit_val c = of_char c - 48"

fun dec :: "nat \<Rightarrow> string" where
  "dec n = (if n < 10 then [digit n] else dec (n div 10) @ [digit (n mod 10)])"

declare dec.simps [simp del]

definition dec_val :: "string \<Rightarrow> nat" where
  "dec_val s = foldl (\<lambda>a c. a * 10 + digit_val c) 0 s"

lemma of_char_digit: "n < 10 \<Longrightarrow> (of_char (digit n) :: nat) = 48 + n"
  by (simp add: digit_def)

lemma is_digit_digit [simp]: "n < 10 \<Longrightarrow> is_digit (digit n)"
  by (simp add: is_digit_def of_char_digit)

lemma digit_val_digit [simp]: "n < 10 \<Longrightarrow> digit_val (digit n) = n"
  by (simp add: digit_val_def of_char_digit)

lemma dec_not_Nil [simp]: "dec n \<noteq> []"
  by (subst dec.simps) simp

lemma dec_digits: "c \<in> set (dec n) \<Longrightarrow> is_digit c"
proof (induction n rule: dec.induct)
  case (1 n)
  then show ?case
    by (cases "n < 10") (auto simp: dec.simps [of n])
qed

lemma dec_val_dec [text_simps]: "dec_val (dec n) = n"
proof (induction n rule: dec.induct)
  case (1 n)
  show ?case
  proof (cases "n < 10")
    case True
    then show ?thesis by (simp add: dec.simps [of n] dec_val_def)
  next
    case False
    with "1" have "dec_val (dec (n div 10)) = n div 10" by simp
    with False show ?thesis by (simp add: dec.simps [of n] dec_val_def)
  qed
qed

lemma dec_inj [simp]: "dec m = dec n \<longleftrightarrow> m = n"
  by (metis dec_val_dec)

lemma dec_hd: "0 < n \<Longrightarrow> hd (dec n) \<noteq> CHR ''0''"
proof (induction n rule: dec.induct)
  case (1 n)
  show ?case
  proof (cases "n < 10")
    case True
    have "(of_char (digit n) :: nat) \<noteq> of_char (CHR ''0'')"
      using True "1.prems" by (simp add: of_char_digit)
    with True show ?thesis by (auto simp: dec.simps [of n])
  next
    case False
    with "1.IH" have "hd (dec (n div 10)) \<noteq> CHR ''0''" by simp
    with False show ?thesis by (simp add: dec.simps [of n] hd_append)
  qed
qed

lemma not_digit_char [simp]:
  "\<not> is_digit CHR ''.''" "\<not> is_digit CHR '':''" "\<not> is_digit CHR ''-''"
  "\<not> is_digit CHR ''+''" "\<not> is_digit CHR ''|''" "\<not> is_digit CHR '' ''"
  by (simp_all add: is_digit_def)

lemma dec_no_sep [simp]: "\<not> is_digit c \<Longrightarrow> c \<notin> set (dec n)"
  using dec_digits by blast

definition js_space :: "char \<Rightarrow> bool" where
  "js_space c = ((of_char c :: nat) \<in> {9, 10, 11, 12, 13, 32})"

definition trim :: "string \<Rightarrow> string" where
  "trim s = rev (dropWhile js_space (rev (dropWhile js_space s)))"

definition parseInt10 :: "string \<Rightarrow> int option" where
  "parseInt10 s =
     (let t = dropWhile js_space s;
          neg = (case t of c # _ \<Rightarrow> c = CHR ''-'' | [] \<Rightarrow> False);
          u = (case t of c # r \<Rightarrow> if c = CHR ''-'' \<or> c = CHR ''+'' then r else t | [] \<Rightarrow> t);
          ds = takeWhile is_digit u
      in if ds = [] then None
         else Some (if neg then - int (dec_val ds) else int (dec_val ds)))"

lemma is_digit_not_space: "is_digit c \<Longrightarrow> \<not> js_space c"
  by (auto simp: is_digit_def js_space_def)

lemma takeWhile_all: "(\<And>c. c \<in> set s \<Longrightarrow> P c) \<Longrightarrow> takeWhile P s = s"
  by (induction s) auto

lemma parseInt10_digits:
  assumes "s \<noteq> []" and "\<And>c. c \<in> set s \<Longrightarrow> is_digit c"
  shows "parseInt10 s = Some (int (dec_val s))"
proof -
  obtain c r where s: "s = c # r" using assms(1) by (cases s) auto
  have c: "is_digit c" using assms(2) s by simp
  then have "c \<noteq> CHR ''-''" "c \<noteq> CHR ''+''" by auto
  moreover have "takeWhile is_digit s = s" using assms(2) by (intro takeWhile_all) auto
  moreover have "dropWhile js_space s = s" using is_digit_not_space [OF c] s by simp
  ultimately show ?thesis using assms(1) s by (simp add: parseInt10_def Let_def)
qed

lemma parseInt10_dec [text_simps]: "parseInt10 (dec n) = Some (int n)"
  using parseInt10_digits [of "dec n"] dec_digits by (auto simp: dec_val_dec)

text \<open>\<open>Number(text)\<close> on plain decimal integers: surrounding white space is dropped,
  the empty text is 0, and \<open>None\<close> is \<open>NaN\<close>.  Signs, fractions, exponents and the
  radix prefixes are outside of this function.\<close>

definition js_Number :: "string \<Rightarrow> nat option" where
  "js_Number s =
     (let t = rev (dropWhile js_space (rev (dropWhile js_space s)))
      in if t = [] then Some 0
         else if list_all is_digit t then Some (dec_val t) else None)"

lemma dropWhile_none: "(\<And>c. c \<in> set s \<Longrightarrow> \<not> P c) \<Longrightarrow> dropWhile P s = s"
  by (cases s) auto

lemma js_Number_dec [text_simps]: "js_Number (dec n) = Some n"
proof -
  have "\<not> js_space c" if "c \<in> set (dec n)" for c
    using that dec_digits is_digit_not_space by blast
  then have "dropWhile js_space (dec n) = dec n" "dropWhile js_space (rev (dec n)) = rev (dec n)"
    by (auto intro!: dropWhile_none)
  then show ?thesis
    by (auto simp: js_Number_def Let_def list_all_iff dec_val_dec dest: dec_digits)
qed

section \<open>Splitting and joining\<close>

fun join :: "string \<Rightarrow> string list \<Rightarrow> string" where
  "join sep [] = []"
| "join sep [x] = x"
| "join sep (x # y # ys) = x @ sep @ join sep (y # ys)"

fun split_on :: "char \<Rightarrow> string \<Rightarrow> string list" where
  "split_on c [] = [[]]"
| "split_on c (x # xs) =
     (if x = c then [] # split_on c xs
      else (case split_on c xs of [] \<Rightarrow> [[x]] | y # ys \<Rightarrow> (x # y) # ys))"

lemma split_on_not_Nil [simp]: "split_on c s \<noteq> []"
  by (induction s) (auto split: list.splits)

lemma split_on_none: "c \<notin> set s \<Longrightarrow> split_on c s = [s]"
  by (induction s) auto

lemma split_on_append: "c \<notin> set s \<Longrightarrow> split_on c (s @ c # t) = s # split_on c t"
  by (induction s) auto

lemma split_on_join [text_simps]:
  "xs \<noteq> [] \<Longrightarrow> (\<And>x. x \<in> set xs \<Longrightarrow> c \<notin> set x) \<Longrightarrow> split_on c (join [c] xs) = xs"
proof (induction "[c]" xs rule: join.induct)
  case (3 x y ys)
  then show ?case by (simp add: split_on_append)
qed (simp_all add: split_on_none)

section \<open>Hexadecimal text\<close>

definition hex_digit :: "nat \<Rightarrow> char" where
  "hex_digit n = (if n < 10 then char_of (48 + n) else char_of (87 + n))"

definition hex_val :: "char \<Rightarrow> nat option" where
  "hex_val c = (let n = of_char c in
     if 48 \<le> n \<and> n \<le> 57 then Some (n - 48)
     else if 97 \<le> n \<and> n \<le> 102 then Some (n - 87)
     else if 65 \<le> n \<and> n \<le> 70 then Some (n - 55)
     else None)"

definition hex :: "buffer \<Rightarrow> string" where
  "hex b = concat (map (\<lambda>w. [hex_digit (unat w div 16), hex_digit (unat w mod 16)]) b)"

text \<open>\<open>Buffer.from(s, 'hex')\<close> decodes pairs of digits and stops at the first pair that
  is not hexadecimal.\<close>

fun unhex :: "string \<Rightarrow> buffer" where
  "unhex (a # b # s) =
     (case (hex_val a, hex_val b) of
        (Some x, Some y) \<Rightarrow> word_of_nat (x * 16 + y) # unhex s
      | _ \<Rightarrow> [])"
| "unhex _ = []"

lemma hex_val_digit [simp]: "n < 16 \<Longrightarrow> hex_val (hex_digit n) = Some n"
  by (auto simp: hex_val_def hex_digit_def Let_def)

lemma unhex_hex [text_simps]: "unhex (hex b) = b"
proof (induction b)
  case Nil
  then show ?case by (simp add: hex_def)
next
  case (Cons w b)
  have d: "unat w div 16 < 16" using unat_byte_less [of w] by linarith
  have "(word_of_nat (unat w div 16 * 16 + unat w mod 16) :: byte) = w"
    by (simp only: div_mult_mod_eq word_of_nat_unat_byte)
  with d Cons show ?case by (simp add: hex_def)
qed

lemma length_unhex: "length (unhex s) \<le> length s div 2"
  by (induction s rule: unhex.induct) (auto split: option.splits)

lemma hex_inj [simp]: "hex a = hex b \<longleftrightarrow> a = b"
  by (metis unhex_hex)

lemma length_hex [simp]: "length (hex b) = 2 * length b"
  by (induction b) (simp_all add: hex_def)

lemma hex_Nil_iff [simp]: "hex b = [] \<longleftrightarrow> b = []"
  by (cases b) (simp_all add: hex_def)

section \<open>Bytes of text\<close>

definition ascii_bytes :: "string \<Rightarrow> buffer" where
  "ascii_bytes s = map of_char s"

text \<open>\<open>toString('ascii')\<close> clears the top bit of every byte.\<close>

definition ascii_text :: "buffer \<Rightarrow> string" where
  "ascii_text b = map (\<lambda>w. char_of (unat w mod 128)) b"

lemma length_ascii [simp]: "length (ascii_bytes s) = length s" "length (ascii_text b) = length b"
  by (simp_all add: ascii_bytes_def ascii_text_def)

lemma ascii_text_append [simp]: "ascii_text (a @ b) = ascii_text a @ ascii_text b"
  by (simp add: ascii_text_def)

lemma unat_of_char_byte [simp]: "unat (of_char c :: byte) = of_char c"
proof -
  have "(of_char c :: byte) = word_of_nat (of_char c)" by (simp add: of_nat_of_char)
  moreover have "(of_char c :: nat) < 256" by (rule nat_of_char_less_256)
  ultimately show ?thesis by simp
qed

lemma ascii_text_bytes: "(\<And>c. c \<in> set s \<Longrightarrow> (of_char c :: nat) < 128) \<Longrightarrow> ascii_text (ascii_bytes s) = s"
  by (induction s) (auto simp: ascii_text_def ascii_bytes_def)

section \<open>Insertion-ordered maps\<close>

lemma map_of_delete [simp]: "map_of (AList.delete k m) = (map_of m)(k := None)"
  by (simp add: delete_conv')

lemma map_of_update [simp]: "map_of (AList.update k v m) = (map_of m)(k \<mapsto> v)"
  by (simp add: update_conv')

end
