(* ===== verification/Posix_Path.thy ===== *)
theory Posix_Path
  imports Js_Prelude
begin

text \<open>
  The functions of the Node.js module \<open>path\<close> that the file servers use, for POSIX paths: \<open>resolve\<close>, \<open>relative\<close>,
  \<open>isAbsolute\<close>, \<open>join\<close> and \<open>dirname\<close>.  An absolute path is the list of its segments.  The lemmas say how a
  sequence of segments is walked: names go down, double dots go up and stop at the root.
\<close>

section \<open>Resolving\<close>

text \<open>\<open>path.resolve\<close> of a relative path below an absolute directory: empty and dot segments
  are dropped, a double dot goes up and stays at the root.\<close>

fun walk :: "string list \<Rightarrow> string list \<Rightarrow> string list" where
  "walk dir [] = dir"
| "walk dir (p # ps) =
     (if p = [] \<or> p = ''.'' then walk dir ps
      else if p = ''..'' then walk (butlast dir) ps
      else walk (dir @ [p]) ps)"

definition path_resolve :: "string list \<Rightarrow> string \<Rightarrow> string list" where
  "path_resolve dir relp = walk dir (split_on CHR ''/'' relp)"

text \<open>\<open>path.relative\<close> of two absolute paths.\<close>

fun path_relative :: "string list \<Rightarrow> string list \<Rightarrow> string list" where
  "path_relative (x # xs) (y # ys) =
     (if x = y then path_relative xs ys else replicate (length (x # xs)) ''..'' @ (y # ys))"
| "path_relative xs ys = replicate (length xs) ''..'' @ ys"

definition starts_with_dots :: "string \<Rightarrow> bool" where
  "starts_with_dots s = (take 2 s = ''..'')"

definition isAbsolute :: "string \<Rightarrow> bool" where
  "isAbsolute s = (take 1 s = ''/'')"

section \<open>Joining\<close>

text \<open>\<open>path.join\<close> of an absolute directory with further parts: the segments of the result, and whether
  it ends in a slash.\<close>

type_synonym posix_path = "string list \<times> bool"

definition trailing_slash :: "string list \<Rightarrow> bool" where
  "trailing_slash parts = (case rev (filter (\<lambda>p. p \<noteq> []) parts) of [] \<Rightarrow> False | p # _ \<Rightarrow> last p = CHR ''/'')"

definition path_join :: "string list \<Rightarrow> string list \<Rightarrow> posix_path" where
  "path_join root parts = (walk root (concat (map (split_on CHR ''/'') parts)), trailing_slash parts)"

definition path_dirname :: "posix_path \<Rightarrow> posix_path" where
  "path_dirname p = (butlast (fst p), False)"

text \<open>The text of an absolute path.\<close>

definition path_text :: "string list \<Rightarrow> string" where
  "path_text segs = ''/'' @ join ''/'' segs"

section \<open>Lemmas\<close>

definition good_seg :: "string \<Rightarrow> bool" where
  "good_seg p \<longleftrightarrow> p \<noteq> [] \<and> p \<noteq> ''.'' \<and> p \<noteq> ''..'' \<and> CHR ''/'' \<notin> set p"

lemma split_on_no_sep: "p \<in> set (split_on c s) \<Longrightarrow> c \<notin> set p"
proof (induction s arbitrary: p)
  case (Cons x xs)
  then show ?case by (cases "split_on c xs") (auto split: if_splits)
qed simp

lemma walk_good:
  "\<forall>p\<in>set dir. good_seg p \<Longrightarrow> \<forall>p\<in>set ps. CHR ''/'' \<notin> set p \<Longrightarrow> \<forall>p\<in>set (walk dir ps). good_seg p"
proof (induction dir ps rule: walk.induct)
  case (2 dir p ps)
  have up: "\<forall>q\<in>set (butlast dir). good_seg q" using "2.prems"(1) by (auto dest: in_set_butlastD)
  have ps: "\<forall>q\<in>set ps. CHR ''/'' \<notin> set q" and p: "CHR ''/'' \<notin> set p" using "2.prems"(2) by simp_all
  consider (skip) "p = [] \<or> p = ''.''" | (dots) "p = ''..''" | (name) "p \<noteq> []" "p \<noteq> ''.''" "p \<noteq> ''..''"
    by blast
  then show ?case
  proof cases
    case skip
    then show ?thesis using "2.IH"(1) [OF _ "2.prems"(1) ps] by auto
  next
    case dots
    then show ?thesis using "2.IH"(2) [OF _ _ up ps] by simp
  next
    case name
    then have good: "\<forall>q\<in>set (dir @ [p]). good_seg q" using "2.prems"(1) p by (simp add: good_seg_def)
    have "\<not> (p = [] \<or> p = ''.'')" using name by blast
    then have "\<forall>q\<in>set (walk (dir @ [p]) ps). good_seg q" by (rule "2.IH"(3) [OF _ name(3) good ps])
    moreover have "walk dir (p # ps) = walk (dir @ [p]) ps" using name by simp
    ultimately show ?thesis by (simp only:)
  qed
qed simp

lemma path_relative_split:
  "\<exists>n zs. path_relative xs ys = replicate n ''..'' @ zs \<and> (n = 0 \<longrightarrow> ys = xs @ zs)"
proof (induction xs arbitrary: ys)
  case Nil
  show ?case by (intro exI [of _ 0] exI [of _ ys]) simp
next
  case (Cons x xs)
  show ?case
  proof (cases ys)
    case Nil
    then show ?thesis by (intro exI [of _ "length (x # xs)"] exI [of _ "[]"]) simp
  next
    case (Cons y zs)
    show ?thesis
    proof (cases "x = y")
      case True
      with Cons.IH [of zs] Cons show ?thesis by auto
    next
      case False
      with Cons show ?thesis by (intro exI [of _ "length (x # xs)"] exI [of _ "y # zs"]) simp
    qed
  qed
qed

lemma walk_append: "walk dir (ps @ qs) = walk (walk dir ps) qs"
  by (induction dir ps rule: walk.induct) auto

lemma walk_names: "\<forall>p\<in>set ps. good_seg p \<Longrightarrow> walk dir ps = dir @ ps"
  by (induction ps arbitrary: dir) (auto simp: good_seg_def)

lemma walk_up: "walk dir (replicate n ''..'') = take (length dir - n) dir"
proof (induction n arbitrary: dir)
  case (Suc n)
  then show ?case by (simp add: butlast_conv_take min_def)
qed simp

lemma walk_skip: "walk dir ([] # ps) = walk dir ps"
  by simp

lemma split_path_text: "segs \<noteq> [] \<Longrightarrow> \<forall>p\<in>set segs. good_seg p \<Longrightarrow> split_on CHR ''/'' (path_text segs) = [] # segs"
  using split_on_join [of segs "CHR ''/''"] by (simp add: path_text_def good_seg_def)

lemma walk_path_text: "\<forall>p\<in>set segs. good_seg p \<Longrightarrow> walk dir (split_on CHR ''/'' (path_text segs)) = dir @ segs"
  by (cases "segs = []") (simp_all add: split_path_text walk_names, simp add: path_text_def)

end
