(* ===== verification/Ftp_Session.thy ===== *)
theory Ftp_Session
  imports Posix_Path "HOL-Library.Sublist"
begin

text \<open>
  One FTP control connection: \<^verbatim>\<open>electron/worker/transfer/ftpSession.js\<close>.  The session object is the
  record \<open>ftp_session\<close>; the text of an incomplete line stands beside it.  Every method returns the changed session, its
  effects (\<open>ftp_out\<close>) and the exception it ended with, if any.  A call of the file system is an effect that
  carries what its callback needs (\<open>fs_request\<close>); the callback is \<open>fs_complete\<close>.  The data connection works in
  the same way (\<open>data_use\<close>).  The user configuration belongs to the worker and is an argument; it is missing after
  the server was stopped.

  Text is ASCII text, where decoding does not depend on the way the stream is cut.  Paths are POSIX paths.  Log calls are left out.
\<close>

section \<open>State and effects\<close>

record ftp_user =
  u_username :: string
  u_password :: string
  u_rootDir :: "string list"

datatype transfer_mode = Ascii | Binary

text \<open>\<open>controlSocket\<close>: no socket, or a socket that is writable or not.  A data socket is known by a number.\<close>

record ftp_session =
  controlSocket :: "bool option"
  localIp :: string
  authenticated :: bool
  username :: "string option"
  currentDir :: string
  dataHost :: "string option"
  dataPort :: "int option"
  passiveMode :: bool
  passiveServer :: bool
  dataSocket :: "nat option"
  transferType :: transfer_mode

definition new_FtpSession :: ftp_session where
  "new_FtpSession = \<lparr>controlSocket = None, localIp = [], authenticated = False, username = None, currentDir = ''/'',
     dataHost = None, dataPort = None, passiveMode = False, passiveServer = False, dataSocket = None, transferType = Ascii\<rparr>"

datatype fs_request =
    ListAccess string posix_path
  | ListReaddir nat posix_path
  | ListStat nat posix_path string "string list" "string list"
  | CwdAccess string posix_path
  | CwdStat string posix_path
  | RetrAccess string posix_path
  | RetrStat string posix_path
  | StorAccess string posix_path
  | DeleAccess posix_path
  | DeleUnlink posix_path
  | RmdAccess posix_path
  | RmdRmdir posix_path
  | MkdMkdir string posix_path

datatype fs_result = FsError | FsDone | FsStat bool bool nat string | FsFiles "string list"

datatype data_use = UseList posix_path | UseRetr string posix_path nat | UseStor posix_path

datatype ftp_out =
    Reply string
  | Authentication bool "string option"
  | ClientRemoved "string option \<times> bool"
  | ControlDestroyed
  | DirectoryListing string
  | TransferStart string nat
  | TransferError string
  | TransferComplete string nat
  | FsCall fs_request
  | WaitData data_use
  | HaveData nat data_use
  | ConnectData "string option" "int option" data_use
  | CreateReadStream nat posix_path
  | CreateWriteStream nat posix_path
  | EndData nat string
  | ListenPassive
  | ClosePassive

type_synonym ftp_did = "ftp_session \<times> ftp_out list \<times> js_error option"

definition ftp_then :: "ftp_did \<Rightarrow> (ftp_session \<Rightarrow> ftp_did) \<Rightarrow> ftp_did" where
  "ftp_then r f = (case r of (s, o1, Some e) \<Rightarrow> (s, o1, Some e)
     | (s, o1, None) \<Rightarrow> (case f s of (s2, o2, e2) \<Rightarrow> (s2, o1 @ o2, e2)))"

text \<open>The file system rejects a path with a NUL at once, with an exception.\<close>

definition path_ok :: "posix_path \<Rightarrow> bool" where
  "path_ok path = list_all (\<lambda>seg. char_of (0::nat) \<notin> set seg) (fst path)"

text \<open>The path that a request names.  \<open>STOR\<close> first checks the directory of its file.\<close>

fun request_path :: "fs_request \<Rightarrow> posix_path" where
  "request_path (ListAccess dir path) = path"
| "request_path (ListReaddir sock path) = path"
| "request_path (ListStat sock path f fs acc) = path_join (fst path) [f]"
| "request_path (CwdAccess newDir path) = path"
| "request_path (CwdStat newDir path) = path"
| "request_path (RetrAccess file path) = path"
| "request_path (RetrStat file path) = path"
| "request_path (StorAccess file path) = path_dirname path"
| "request_path (DeleAccess path) = path"
| "request_path (DeleUnlink path) = path"
| "request_path (RmdAccess path) = path"
| "request_path (RmdRmdir path) = path"
| "request_path (MkdMkdir dir path) = path"

definition fsCall :: "fs_request \<Rightarrow> ftp_session \<Rightarrow> ftp_did" where
  "fsCall q s = (if path_ok (request_path q) then (s, [FsCall q], None) else (s, [], Some TypeError))"

section \<open>Replies and connections\<close>

definition sendMsg :: "string \<Rightarrow> ftp_session \<Rightarrow> ftp_did" where
  "sendMsg msg s = (s, if controlSocket s = Some True then [Reply msg] else [], None)"

definition closeDataConnection :: "ftp_session \<Rightarrow> ftp_did" where
  "closeDataConnection s =
     (let o1 = (case dataSocket s of None \<Rightarrow> [] | Some k \<Rightarrow> [EndData k []]);
          s1 = s\<lparr>dataSocket := None\<rparr> in
      if passiveServer s \<and> passiveMode s
      then (s1\<lparr>passiveServer := False, passiveMode := False\<rparr>, o1 @ [ClosePassive], None)
      else (s1, o1, None))"

text \<open>The name and the login state of \<open>getClientInfo\<close>; an empty name is shown as anonymous.\<close>

definition getClientInfo :: "ftp_session \<Rightarrow> string option \<times> bool" where
  "getClientInfo s = (if username s = Some [] then None else username s, authenticated s)"

definition ftp_closeSession :: "ftp_session \<Rightarrow> ftp_did" where
  "ftp_closeSession s = ftp_then (closeDataConnection s) (\<lambda>s1.
     (s1\<lparr>controlSocket := None\<rparr>,
      (if controlSocket s1 = None then [] else [ControlDestroyed]) @ [ClientRemoved (getClientInfo s1)], None))"

text \<open>The promise of \<open>createDataConnection\<close>: it waits for the client, is settled at once, or connects to the client.  Without
  a passive server the executor throws, which rejects the promise.\<close>

definition data_failed :: "data_use \<Rightarrow> ftp_session \<Rightarrow> ftp_did" where
  "data_failed use s = ftp_then (sendMsg ''425 Cannot open data connection'' s) (\<lambda>s1.
     (s1, (case use of UseRetr file path n \<Rightarrow> [TransferError file] | _ \<Rightarrow> []), None))"

definition createDataConnection :: "data_use \<Rightarrow> ftp_session \<Rightarrow> ftp_did" where
  "createDataConnection use s =
     (if passiveMode s
      then (case dataSocket s of
              None \<Rightarrow> if passiveServer s then (s, [WaitData use], None) else data_failed use s
            | Some k \<Rightarrow> (s, [HaveData k use], None))
      else (s, [ConnectData (dataHost s) (dataPort s) use], None))"

section \<open>Commands\<close>

type_synonym user_config = "ftp_user option"

definition with_config :: "user_config \<Rightarrow> ftp_session \<Rightarrow> (ftp_user \<Rightarrow> ftp_did) \<Rightarrow> ftp_did" where
  "with_config cfg s f = (case cfg of None \<Rightarrow> (s, [], Some TypeError) | Some u \<Rightarrow> f u)"

definition handleUser :: "user_config \<Rightarrow> string \<Rightarrow> ftp_session \<Rightarrow> ftp_did" where
  "handleUser cfg name s = with_config cfg s (\<lambda>u.
     if u_username u = name then sendMsg ''331 Username OK, password required'' (s\<lparr>username := Some name\<rparr>)
     else sendMsg ''530 Authentication failed'' s)"

definition handlePass :: "user_config \<Rightarrow> string \<Rightarrow> ftp_session \<Rightarrow> ftp_did" where
  "handlePass cfg password s = with_config cfg s (\<lambda>u.
     if Some (u_username u) = username s \<and> u_password u = password
     then ftp_then (sendMsg ''230 User logged in, proceed'' (s\<lparr>authenticated := True, currentDir := ''/''\<rparr>))
            (\<lambda>s1. (s1, [Authentication True (username s1)], None))
     else ftp_then (sendMsg ''530 Authentication failed'' s) (\<lambda>s1. (s1, [Authentication False (username s1)], None)))"

definition handleSyst :: "ftp_session \<Rightarrow> ftp_did" where
  "handleSyst s = sendMsg ''215 UNIX Type: L8'' s"

definition handlePwd :: "ftp_session \<Rightarrow> ftp_did" where
  "handlePwd s = sendMsg (''257 \"'' @ currentDir s @ ''\" is the current directory'') s"

definition handleType :: "string \<Rightarrow> ftp_session \<Rightarrow> ftp_did" where
  "handleType type s =
     (if type = ''A'' then sendMsg ''200 Type set to ASCII'' (s\<lparr>transferType := Ascii\<rparr>)
      else if type = ''I'' then sendMsg ''200 Type set to binary'' (s\<lparr>transferType := Binary\<rparr>)
      else sendMsg ''504 Type not implemented'' s)"

definition handlePasv :: "ftp_session \<Rightarrow> ftp_did" where
  "handlePasv s = (s\<lparr>passiveServer := True\<rparr>, (if passiveServer s then [ClosePassive] else []) @ [ListenPassive], None)"

definition handlePort :: "string \<Rightarrow> ftp_session \<Rightarrow> ftp_did" where
  "handlePort args s =
     (let parts = split_on CHR '','' args in
      if length parts \<noteq> 6 then sendMsg ''501 Invalid PORT command'' s
      else sendMsg ''200 PORT command successful''
        (s\<lparr>dataHost := Some (join ''.'' (take 4 parts)),
           dataPort := (case (parseInt10 (parts ! 4), parseInt10 (parts ! 5)) of
             (Some a, Some b) \<Rightarrow> Some (a * 256 + b) | _ \<Rightarrow> None),
           passiveMode := False\<rparr>))"

definition handleList :: "user_config \<Rightarrow> string \<Rightarrow> ftp_session \<Rightarrow> ftp_did" where
  "handleList cfg args s =
     (let targetDir = (if args = [] then currentDir s
            else path_text (if isAbsolute args then path_resolve [] args
                            else path_resolve (path_resolve [] (currentDir s)) args)) in
      with_config cfg s (\<lambda>u. fsCall (ListAccess targetDir (path_join (u_rootDir u) [targetDir])) s))"

fun clean_segments :: "string list \<Rightarrow> string list \<Rightarrow> string list" where
  "clean_segments res [] = res"
| "clean_segments res (seg # segs) = clean_segments (if seg = ''..'' then butlast res else res @ [seg]) segs"

definition cwd_target :: "string \<Rightarrow> string \<Rightarrow> string" where
  "cwd_target cur dir =
     (if isAbsolute dir then dir
      else let newDir = (if cur = ''/'' then ''/'' @ dir else cur @ ''/'' @ dir) in
        path_text (clean_segments [] (filter (\<lambda>seg. seg \<noteq> [] \<and> seg \<noteq> ''.'') (split_on CHR ''/'' newDir))))"

definition handleCwd :: "user_config \<Rightarrow> string \<Rightarrow> ftp_session \<Rightarrow> ftp_did" where
  "handleCwd cfg dir s =
     (let newDir = cwd_target (currentDir s) dir in
      with_config cfg s (\<lambda>u. fsCall (CwdAccess newDir (path_join (u_rootDir u) [newDir])) s))"

definition handleCdup :: "user_config \<Rightarrow> ftp_session \<Rightarrow> ftp_did" where
  "handleCdup cfg s = handleCwd cfg ''..'' s"

text \<open>The path that the file commands work on.\<close>

definition file_path :: "ftp_user \<Rightarrow> ftp_session \<Rightarrow> string \<Rightarrow> posix_path" where
  "file_path u s file = path_join (u_rootDir u) [currentDir s, file]"

definition handleRetr :: "user_config \<Rightarrow> string \<Rightarrow> ftp_session \<Rightarrow> ftp_did" where
  "handleRetr cfg file s = with_config cfg s (\<lambda>u. fsCall (RetrAccess file (file_path u s file)) s)"

definition handleStor :: "user_config \<Rightarrow> string \<Rightarrow> ftp_session \<Rightarrow> ftp_did" where
  "handleStor cfg file s = with_config cfg s (\<lambda>u. fsCall (StorAccess file (file_path u s file)) s)"

definition handleDele :: "user_config \<Rightarrow> string \<Rightarrow> ftp_session \<Rightarrow> ftp_did" where
  "handleDele cfg file s = with_config cfg s (\<lambda>u. fsCall (DeleAccess (file_path u s file)) s)"

definition handleRmd :: "user_config \<Rightarrow> string \<Rightarrow> ftp_session \<Rightarrow> ftp_did" where
  "handleRmd cfg dir s = with_config cfg s (\<lambda>u. fsCall (RmdAccess (file_path u s dir)) s)"

definition handleMkd :: "user_config \<Rightarrow> string \<Rightarrow> ftp_session \<Rightarrow> ftp_did" where
  "handleMkd cfg dir s = with_config cfg s (\<lambda>u. fsCall (MkdMkdir dir (file_path u s dir)) s)"

definition handleFeat :: "ftp_session \<Rightarrow> ftp_did" where
  "handleFeat s = ftp_then (sendMsg ''211-Features:'' s) (\<lambda>s1. ftp_then (sendMsg '' UTF8'' s1) (\<lambda>s2.
     ftp_then (sendMsg '' SIZE'' s2) (\<lambda>s3. ftp_then (sendMsg '' PASV'' s3) (\<lambda>s4.
     ftp_then (sendMsg '' TYPE A;I'' s4) (sendMsg ''211 End'')))))"

definition upper_char :: "char \<Rightarrow> char" where
  "upper_char c = (let n = (of_char c :: nat) in if 97 \<le> n \<and> n \<le> 122 then char_of (n - 32) else c)"

definition toUpperCase :: "string \<Rightarrow> string" where
  "toUpperCase s = map upper_char s"

definition handleOpts :: "string \<Rightarrow> ftp_session \<Rightarrow> ftp_did" where
  "handleOpts args s =
     (if toUpperCase (hd (split_on CHR '' '' args)) = ''UTF8'' then sendMsg ''200 UTF8 set to ON'' s
      else sendMsg ''501 Option not supported'' s)"

definition handleNoop :: "ftp_session \<Rightarrow> ftp_did" where
  "handleNoop s = sendMsg ''200 NOOP command successful'' s"

definition handleQuit :: "ftp_session \<Rightarrow> ftp_did" where
  "handleQuit s = ftp_then (sendMsg ''221 Goodbye'' s) ftp_closeSession"

section \<open>Dispatch\<close>

datatype ftp_command = Cmd_USER | Cmd_PASS | Cmd_SYST | Cmd_PWD | Cmd_TYPE | Cmd_PASV | Cmd_PORT | Cmd_LIST | Cmd_CWD | Cmd_CDUP | Cmd_RETR | Cmd_STOR | Cmd_QUIT | Cmd_FEAT | Cmd_OPTS
  | Cmd_NOOP | Cmd_DELE | Cmd_RMD | Cmd_MKD

definition handlers :: "(string \<times> ftp_command) list" where
  "handlers = [(''USER'', Cmd_USER), (''PASS'', Cmd_PASS), (''SYST'', Cmd_SYST), (''PWD'', Cmd_PWD), (''TYPE'', Cmd_TYPE), (''PASV'', Cmd_PASV),
     (''PORT'', Cmd_PORT), (''LIST'', Cmd_LIST), (''CWD'', Cmd_CWD), (''CDUP'', Cmd_CDUP), (''RETR'', Cmd_RETR), (''STOR'', Cmd_STOR), (''QUIT'', Cmd_QUIT),
     (''FEAT'', Cmd_FEAT), (''OPTS'', Cmd_OPTS), (''NOOP'', Cmd_NOOP), (''DELE'', Cmd_DELE), (''RMD'', Cmd_RMD), (''MKD'', Cmd_MKD)]"

definition noAuthRequired :: "ftp_command list" where
  "noAuthRequired = [Cmd_USER, Cmd_PASS, Cmd_SYST, Cmd_FEAT, Cmd_QUIT, Cmd_NOOP, Cmd_OPTS]"

fun run_command :: "user_config \<Rightarrow> ftp_command \<Rightarrow> string \<Rightarrow> ftp_session \<Rightarrow> ftp_did" where
  "run_command cfg Cmd_USER args s = handleUser cfg args s"
| "run_command cfg Cmd_PASS args s = handlePass cfg args s"
| "run_command cfg Cmd_SYST args s = handleSyst s"
| "run_command cfg Cmd_PWD args s = handlePwd s"
| "run_command cfg Cmd_TYPE args s = handleType args s"
| "run_command cfg Cmd_PASV args s = handlePasv s"
| "run_command cfg Cmd_PORT args s = handlePort args s"
| "run_command cfg Cmd_LIST args s = handleList cfg args s"
| "run_command cfg Cmd_CWD args s = handleCwd cfg args s"
| "run_command cfg Cmd_CDUP args s = handleCdup cfg s"
| "run_command cfg Cmd_RETR args s = handleRetr cfg args s"
| "run_command cfg Cmd_STOR args s = handleStor cfg args s"
| "run_command cfg Cmd_QUIT args s = handleQuit s"
| "run_command cfg Cmd_FEAT args s = handleFeat s"
| "run_command cfg Cmd_OPTS args s = handleOpts args s"
| "run_command cfg Cmd_NOOP args s = handleNoop s"
| "run_command cfg Cmd_DELE args s = handleDele cfg args s"
| "run_command cfg Cmd_RMD args s = handleRmd cfg args s"
| "run_command cfg Cmd_MKD args s = handleMkd cfg args s"

definition handleCommand :: "user_config \<Rightarrow> string \<Rightarrow> string \<Rightarrow> ftp_session \<Rightarrow> ftp_did" where
  "handleCommand cfg cmd args s = (case map_of handlers cmd of
      None \<Rightarrow> sendMsg (''502 Command '' @ [char_of (39::nat)] @ cmd @ [char_of (39::nat)] @ '' not implemented'') s
    | Some c \<Rightarrow>
        if \<not> authenticated s \<and> c \<notin> set noAuthRequired then sendMsg ''530 Not logged in'' s
        else run_command cfg c args s)"

definition parse_command :: "string \<Rightarrow> string \<times> string" where
  "parse_command message =
     (let parts = split_on CHR '' '' (trim message) in (toUpperCase (hd parts), join '' '' (tl parts)))"

definition ftp_processMessage :: "user_config \<Rightarrow> string \<Rightarrow> ftp_session \<Rightarrow> ftp_session \<times> ftp_out list" where
  "ftp_processMessage cfg message s =
     (case handleCommand cfg (fst (parse_command message)) (snd (parse_command message)) s of
        (s1, o1, None) \<Rightarrow> (s1, o1)
      | (s1, o1, Some e) \<Rightarrow> (case sendMsg ''500 Error processing command'' s1 of (s2, o2, _) \<Rightarrow> (s2, o1 @ o2)))"

section \<open>Received data\<close>

text \<open>\<open>split\<close> at CR LF.\<close>

fun cons_line :: "char \<Rightarrow> string list \<Rightarrow> string list" where
  "cons_line c [] = [[c]]"
| "cons_line c (x # xs) = (c # x) # xs"

fun split_crlf :: "string \<Rightarrow> string list" where
  "split_crlf [] = [[]]"
| "split_crlf [c] = [[c]]"
| "split_crlf (c # d # s) =
     (if c = char_of (13::nat) \<and> d = char_of (10::nat) then [] # split_crlf s else cons_line c (split_crlf (d # s)))"

fun process_lines :: "user_config \<Rightarrow> string list \<Rightarrow> ftp_session \<Rightarrow> ftp_session \<times> ftp_out list" where
  "process_lines cfg [] s = (s, [])"
| "process_lines cfg (m # ms) s =
     (let (s1, o1) = (if m = [] then (s, []) else ftp_processMessage cfg m s);
          (s2, o2) = process_lines cfg ms s1 in (s2, o1 @ o2))"

definition ftp_recvMsg :: "user_config \<Rightarrow> string \<Rightarrow> string \<Rightarrow> ftp_session \<Rightarrow> string \<times> ftp_session \<times> ftp_out list" where
  "ftp_recvMsg cfg messageBuffer data s =
     (let messages = split_crlf (messageBuffer @ data) in
      if length messages > 1 then (last messages, process_lines cfg (butlast messages) s)
      else (messageBuffer @ data, s, []))"

section \<open>Callbacks\<close>

definition crlf :: string where "crlf = [char_of (13::nat), char_of (10::nat)]"

definition list_line :: "bool \<Rightarrow> nat \<Rightarrow> string \<Rightarrow> string \<Rightarrow> string" where
  "list_line isDir bytes date file =
     (if isDir then ''drwxr-xr-x'' else ''-rw-r--r--'') @ '' 1 owner group '' @ dec bytes @ '' '' @ date @ '' '' @ file"

definition getFileInfo :: "nat \<Rightarrow> posix_path \<Rightarrow> string list \<Rightarrow> string list \<Rightarrow> ftp_session \<Rightarrow> ftp_did" where
  "getFileInfo sock path files fileList s = (case files of
      [] \<Rightarrow> ftp_then (s, [EndData sock (join crlf fileList @ crlf)], None) (\<lambda>s1.
              ftp_then (sendMsg ''226 Transfer complete'' s1) closeDataConnection)
    | f # fs \<Rightarrow> (s, [FsCall (ListStat sock path f fs fileList)], None))"

definition mode_text :: "transfer_mode \<Rightarrow> string" where
  "mode_text m = (case m of Ascii \<Rightarrow> ''ascii'' | Binary \<Rightarrow> ''binary'')"

fun fs_complete :: "fs_request \<Rightarrow> fs_result \<Rightarrow> ftp_session \<Rightarrow> ftp_did" where
  "fs_complete (ListAccess dir path) r s =
     (if r = FsError then sendMsg ''550 Directory not accessible'' s
      else ftp_then (sendMsg ''150 Opening ASCII mode data connection for file list'' s) (\<lambda>s1.
           ftp_then (s1, [DirectoryListing dir], None) (createDataConnection (UseList path))))"
| "fs_complete (ListReaddir sock path) r s =
     (case r of FsFiles files \<Rightarrow> getFileInfo sock path files [] s
      | _ \<Rightarrow> ftp_then (s, [EndData sock []], None) (sendMsg ''550 Failed to list directory''))"
| "fs_complete (ListStat sock path f fs fileList) r s =
     getFileInfo sock path fs
       (case r of FsStat isDir isFile n date \<Rightarrow> fileList @ [list_line isDir n date f] | _ \<Rightarrow> fileList) s"
| "fs_complete (CwdAccess newDir path) r s =
     (if r = FsError then sendMsg ''550 Directory not accessible'' s else (s, [FsCall (CwdStat newDir path)], None))"
| "fs_complete (CwdStat newDir path) r s =
     (case r of FsStat True isFile n date \<Rightarrow> sendMsg (''250 Directory changed to '' @ newDir) (s\<lparr>currentDir := newDir\<rparr>)
      | _ \<Rightarrow> sendMsg ''550 Not a directory'' s)"
| "fs_complete (RetrAccess file path) r s =
     (if r = FsError then sendMsg ''550 File not accessible'' s else (s, [FsCall (RetrStat file path)], None))"
| "fs_complete (RetrStat file path) r s =
     (case r of FsStat isDir True n date \<Rightarrow>
          ftp_then (sendMsg (''150 Opening '' @ mode_text (transferType s) @ '' mode data connection for '' @ file @
              '' ('' @ dec n @ '' bytes)'') s) (\<lambda>s1.
          ftp_then (s1, [TransferStart file n], None) (createDataConnection (UseRetr file path n)))
      | _ \<Rightarrow> sendMsg ''550 Not a regular file'' s)"
| "fs_complete (StorAccess file path) r s =
     (if r = FsError then sendMsg ''550 Directory not writable'' s
      else ftp_then (sendMsg (''150 Opening '' @ mode_text (transferType s) @ '' mode data connection for '' @ file) s)
             (createDataConnection (UseStor path)))"
| "fs_complete (DeleAccess path) r s =
     (if r = FsError then sendMsg ''550 File not accessible'' s else (s, [FsCall (DeleUnlink path)], None))"
| "fs_complete (DeleUnlink path) r s =
     (if r = FsError then sendMsg ''550 Failed to delete file'' s else sendMsg ''250 File deleted'' s)"
| "fs_complete (RmdAccess path) r s =
     (if r = FsError then sendMsg ''550 Directory not accessible'' s else (s, [FsCall (RmdRmdir path)], None))"
| "fs_complete (RmdRmdir path) r s =
     (if r = FsError then sendMsg ''550 Failed to remove directory'' s else sendMsg ''250 Directory removed'' s)"
| "fs_complete (MkdMkdir dir path) r s =
     (if r = FsError then sendMsg ''550 Failed to create directory'' s else sendMsg (''257 \"'' @ dir @ ''\" created'') s)"

text \<open>The data connection: settled with a socket, failed, an error of the file stream, closed.\<close>

definition data_ready :: "nat \<Rightarrow> data_use \<Rightarrow> ftp_session \<Rightarrow> ftp_did" where
  "data_ready sock use s = (case use of
      UseList path \<Rightarrow> (s, [FsCall (ListReaddir sock path)], None)
    | UseRetr file path n \<Rightarrow> (s, [CreateReadStream sock path], None)
    | UseStor path \<Rightarrow> if path_ok path then (s, [CreateWriteStream sock path], None) else data_failed use s)"

definition stream_error :: "nat \<Rightarrow> data_use \<Rightarrow> ftp_session \<Rightarrow> ftp_did" where
  "stream_error sock use s = (case use of
      UseList path \<Rightarrow> (s, [], None)
    | UseRetr file path n \<Rightarrow> ftp_then (s, [EndData sock []], None) (\<lambda>s1.
        ftp_then (sendMsg ''550 Failed to read file'' s1) (\<lambda>s2. (s2, [TransferError file], None)))
    | UseStor path \<Rightarrow> ftp_then (s, [EndData sock []], None) (sendMsg ''550 Failed to write file''))"

definition data_closed :: "data_use \<Rightarrow> ftp_session \<Rightarrow> ftp_did" where
  "data_closed use s = (case use of
      UseList path \<Rightarrow> (s, [], None)
    | UseRetr file path n \<Rightarrow> ftp_then (sendMsg ''226 Transfer complete'' s) (\<lambda>s1.
        ftp_then (closeDataConnection s1) (\<lambda>s2. (s2, [TransferComplete file n], None)))
    | UseStor path \<Rightarrow> ftp_then (sendMsg ''226 Transfer complete'' s) closeDataConnection)"

definition number_text :: "string \<Rightarrow> string" where
  "number_text t = (case js_Number t of None \<Rightarrow> ''NaN'' | Some n \<Rightarrow> dec n)"

definition passive_listening :: "nat \<Rightarrow> ftp_session \<Rightarrow> ftp_did" where
  "passive_listening port s =
     (if \<not> passiveServer s then (s, [], Some TypeError)
      else let host = (if CHR '':'' \<in> set (localIp s) then ''127,0,0,1''
                       else join '','' (map number_text (split_on CHR ''.'' (localIp s)))) in
        ftp_then (sendMsg (''227 Entering Passive Mode ('' @ host @ '','' @ dec (port div 256) @ '','' @ dec (port mod 256) @ '')'') s)
          (\<lambda>s1. (s1\<lparr>passiveMode := True\<rparr>, [], None)))"

definition passive_error :: "ftp_session \<Rightarrow> ftp_did" where
  "passive_error s = sendMsg ''425 Cannot open passive connection'' s"

section \<open>A connection over time\<close>

text \<open>What can happen: a line, the answer of the file system, and the life of the data connection.\<close>

datatype ftp_event =
    Line string
  | FsAnswer fs_request fs_result
  | PassiveListening nat
  | PassiveError
  | PassiveConnection nat
  | DataOpened nat data_use
  | DataSettled nat data_use
  | DataFailed data_use
  | StreamError nat data_use
  | DataClosed data_use
  | ControlUnwritable

fun ftp_event_step :: "user_config \<Rightarrow> ftp_event \<Rightarrow> ftp_session \<Rightarrow> ftp_did" where
  "ftp_event_step cfg (Line m) s = (case ftp_processMessage cfg m s of (s1, o1) \<Rightarrow> (s1, o1, None))"
| "ftp_event_step cfg (FsAnswer q r) s = fs_complete q r s"
| "ftp_event_step cfg (PassiveListening port) s = passive_listening port s"
| "ftp_event_step cfg PassiveError s = passive_error s"
| "ftp_event_step cfg (PassiveConnection sock) s = (s\<lparr>dataSocket := Some sock\<rparr>, [], None)"
| "ftp_event_step cfg (DataOpened sock use) s = data_ready sock use (s\<lparr>dataSocket := Some sock\<rparr>)"
| "ftp_event_step cfg (DataSettled sock use) s = data_ready sock use s"
| "ftp_event_step cfg (DataFailed use) s = data_failed use s"
| "ftp_event_step cfg (StreamError sock use) s = stream_error sock use s"
| "ftp_event_step cfg (DataClosed use) s = data_closed use s"
| "ftp_event_step cfg ControlUnwritable s = (s\<lparr>controlSocket := map_option (\<lambda>_. False) (controlSocket s)\<rparr>, [], None)"

text \<open>An answer comes after its request, and a data connection belongs to the command that asked for it.  An exception outside
  \<open>processMessage\<close> is not caught and ends the worker.\<close>

definition data_asked :: "data_use \<Rightarrow> ftp_out list \<Rightarrow> bool" where
  "data_asked use outs = list_ex (\<lambda>x. case x of WaitData v \<Rightarrow> v = use | HaveData k v \<Rightarrow> v = use | ConnectData h p v \<Rightarrow> v = use | _ \<Rightarrow> False) outs"

fun event_enabled :: "ftp_event \<Rightarrow> ftp_out list \<Rightarrow> bool" where
  "event_enabled (FsAnswer q r) outs = (FsCall q \<in> set outs)"
| "event_enabled (PassiveListening port) outs = (ListenPassive \<in> set outs)"
| "event_enabled PassiveError outs = (ListenPassive \<in> set outs)"
| "event_enabled (PassiveConnection sock) outs = (ListenPassive \<in> set outs)"
| "event_enabled (DataOpened sock use) outs = data_asked use outs"
| "event_enabled (DataSettled sock use) outs = data_asked use outs"
| "event_enabled (DataFailed use) outs = data_asked use outs"
| "event_enabled (StreamError sock use) outs = data_asked use outs"
| "event_enabled (DataClosed use) outs = data_asked use outs"
| "event_enabled _ outs = True"

inductive ftp_reach :: "user_config \<Rightarrow> ftp_session \<Rightarrow> ftp_event list \<Rightarrow> ftp_session \<Rightarrow> ftp_out list \<Rightarrow> bool"
  for cfg s0 where
  start: "ftp_reach cfg s0 [] s0 []"
| event: "ftp_reach cfg s0 evs s outs \<Longrightarrow> event_enabled ev outs \<Longrightarrow> ftp_event_step cfg ev s = (s', o', None) \<Longrightarrow>
    ftp_reach cfg s0 (evs @ [ev]) s' (outs @ o')"

section \<open>Receiving\<close>

lemma split_crlf_ne [simp]: "split_crlf t \<noteq> []"
  by (induction t rule: split_crlf.induct) (auto elim: cons_line.elims)

lemma cons_line_app: "xs \<noteq> [] \<Longrightarrow> cons_line c (xs @ ys) = cons_line c xs @ ys"
  by (cases xs) simp_all

lemma split_crlf_single: "split_crlf t = [x] \<Longrightarrow> x = t"
proof (induction t arbitrary: x rule: split_crlf.induct)
  case (3 c d s)
  then have no: "\<not> (c = char_of (13::nat) \<and> d = char_of (10::nat))" by (auto split: if_splits)
  then have "cons_line c (split_crlf (d # s)) = [x]" using "3.prems" by auto
  then obtain y where "split_crlf (d # s) = [y]" "x = c # y"
    by (cases "split_crlf (d # s)") auto
  then show ?case using "3.IH"(2) [OF no] by simp
qed auto

text \<open>Cutting a text and splitting the unfinished line again gives the lines of the whole text.\<close>

lemma split_crlf_append: "split_crlf (t1 @ t2) = butlast (split_crlf t1) @ split_crlf (last (split_crlf t1) @ t2)"
proof (induction t1 rule: split_crlf.induct)
  case (3 c d s)
  show ?case
  proof (cases "c = char_of (13::nat) \<and> d = char_of (10::nat)")
    case True
    then show ?thesis using "3.IH"(1) by simp
  next
    case False
    obtain x xs where sp: "split_crlf (d # s) = x # xs" by (cases "split_crlf (d # s)") simp_all
    have IH: "split_crlf (d # s @ t2) = butlast (x # xs) @ split_crlf (last (x # xs) @ t2)" using "3.IH"(2) [OF False] sp by simp
    have step: "split_crlf (c # d # s) = (c # x) # xs" "split_crlf (c # d # s @ t2) = cons_line c (split_crlf (d # s @ t2))"
      using False sp by auto
    show ?thesis
    proof (cases xs)
      case (Cons y ys)
      then show ?thesis using step IH by simp
    next
      case Nil
      then have "x = d # s" using split_crlf_single [of "d # s" x] sp by simp
      then show ?thesis using step Nil by simp
    qed
  qed
qed simp_all

text \<open>A sequence of data events.\<close>

fun recv_chunks :: "user_config \<Rightarrow> string list \<Rightarrow> string \<Rightarrow> ftp_session \<Rightarrow> string \<times> ftp_session \<times> ftp_out list" where
  "recv_chunks cfg [] buf s = (buf, s, [])"
| "recv_chunks cfg (d # ds) buf s =
     (case ftp_recvMsg cfg buf d s of (buf1, s1, o1) \<Rightarrow>
        (case recv_chunks cfg ds buf1 s1 of (buf2, s2, o2) \<Rightarrow> (buf2, s2, o1 @ o2)))"

lemma process_lines_append:
  "process_lines cfg (xs @ ys) s =
     (let (s1, o1) = process_lines cfg xs s; (s2, o2) = process_lines cfg ys s1 in (s2, o1 @ o2))"
proof (induction xs arbitrary: s)
  case (Cons x xs)
  obtain s1 o1 where a: "(if x = [] then (s, []) else ftp_processMessage cfg x s) = (s1, o1)" by fastforce
  obtain s2 o2 where b: "process_lines cfg xs s1 = (s2, o2)" by fastforce
  obtain s3 o3 where c: "process_lines cfg ys s2 = (s3, o3)" by fastforce
  have "process_lines cfg (xs @ ys) s1 = (s3, o2 @ o3)" using Cons.IH [of s1] b c by simp
  then show ?case using a b c by (simp del: if_split)
qed (simp split: prod.split)

text \<open>The session after all pieces, whatever the pieces are.\<close>

lemma ftp_recvMsg_lines:
  "ftp_recvMsg cfg buf d s = (last (split_crlf (buf @ d)), process_lines cfg (butlast (split_crlf (buf @ d))) s)"
proof (cases "length (split_crlf (buf @ d)) > 1")
  case False
  then obtain x where "split_crlf (buf @ d) = [x]"
    by (metis split_crlf_ne One_nat_def length_0_conv less_one linorder_neqE_nat length_Suc_conv)
  then show ?thesis using split_crlf_single [of "buf @ d" x] by (simp add: ftp_recvMsg_def)
qed (simp add: ftp_recvMsg_def Let_def)

lemma recv_chunks_lines:
  "split_crlf buf = [buf] \<Longrightarrow> recv_chunks cfg ds buf s =
     (last (split_crlf (buf @ concat ds)), process_lines cfg (butlast (split_crlf (buf @ concat ds))) s)"
proof (induction ds arbitrary: buf s)
  case (Cons d ds)
  define l where "l = split_crlf (buf @ d)"
  have ln: "l \<noteq> []" by (simp add: l_def)
  obtain s1 o1 where a: "process_lines cfg (butlast l) s = (s1, o1)" by fastforce
  have r: "ftp_recvMsg cfg buf d s = (last l, s1, o1)" using a by (simp add: ftp_recvMsg_lines l_def)
  have sl: "split_crlf (last l) = [last l]" using split_crlf_append [of "buf @ d" "[]"] ln
    by (simp add: l_def) (metis append_butlast_last_id same_append_eq split_crlf_ne)
  have whole: "split_crlf (buf @ concat (d # ds)) = butlast l @ split_crlf (last l @ concat ds)"
    using split_crlf_append [of "buf @ d" "concat ds"] by (simp add: l_def)
  show ?case using Cons.IH [OF sl, of s1] r a whole
    by (simp add: butlast_append process_lines_append split: prod.split)
qed simp


section \<open>Runs\<close>

text \<open>The run of a list of events, if each can happen.\<close>

fun ftp_run :: "user_config \<Rightarrow> ftp_event list \<Rightarrow> ftp_session \<Rightarrow> ftp_out list \<Rightarrow> (ftp_session \<times> ftp_out list) option" where
  "ftp_run cfg [] s outs = Some (s, outs)"
| "ftp_run cfg (ev # evs) s outs =
     (if event_enabled ev outs
      then (case ftp_event_step cfg ev s of (s1, o1, None) \<Rightarrow> ftp_run cfg evs s1 (outs @ o1) | _ \<Rightarrow> None)
      else None)"

lemma run_reach_gen:
  "ftp_reach cfg s0 evs0 s outs \<Longrightarrow> ftp_run cfg evs s outs = Some (s', outs') \<Longrightarrow> ftp_reach cfg s0 (evs0 @ evs) s' outs'"
proof (induction evs arbitrary: evs0 s outs)
  case (Cons ev evs)
  then obtain s1 o1 where st: "event_enabled ev outs" "ftp_event_step cfg ev s = (s1, o1, None)"
    "ftp_run cfg evs s1 (outs @ o1) = Some (s', outs')" by (auto split: if_splits prod.splits option.splits)
  have "ftp_reach cfg s0 (evs0 @ [ev]) s1 (outs @ o1)" using Cons.prems(1) st(1,2) by (rule ftp_reach.event)
  then show ?case using Cons.IH st(3) by fastforce
qed simp

lemma run_reach: "ftp_run cfg evs s [] = Some (s', outs) \<Longrightarrow> ftp_reach cfg s evs s' outs"
  using run_reach_gen [OF ftp_reach.start, of cfg evs s s' outs] by simp

definition ex_user :: ftp_user where
  "ex_user = \<lparr>u_username = ''bob'', u_password = ''pw'', u_rootDir = [''srv'', ''ftp'']\<rparr>"

definition ex_session :: ftp_session where
  "ex_session = new_FtpSession\<lparr>controlSocket := Some True\<rparr>"

lemma ex_lines:
  "parse_command ''USER bob'' = (''USER'', ''bob'')" "parse_command ''PASS pw'' = (''PASS'', ''pw'')"
  "parse_command ''list'' = (''LIST'', [])"
  by code_simp+

section \<open>Login\<close>

text \<open>What only a logged in user may cause: a use of the file system, of a data connection or of a passive server.\<close>

fun privileged :: "ftp_out \<Rightarrow> bool" where
  "privileged (Reply m) = False"
| "privileged (Authentication ok name) = False"
| "privileged (ClientRemoved info) = False"
| "privileged ControlDestroyed = False"
| "privileged ClosePassive = False"
| "privileged (EndData k m) = (m \<noteq> [])"
| "privileged _ = True"

lemmas ftp_defs = sendMsg_def closeDataConnection_def ftp_closeSession_def createDataConnection_def data_failed_def data_ready_def
  stream_error_def data_closed_def passive_listening_def passive_error_def getFileInfo_def ftp_then_def fsCall_def
  with_config_def Let_def

lemmas ftp_splits = if_splits option.splits prod.splits list.splits data_use.splits fs_result.splits bool.splits

text \<open>Only \<open>USER\<close> and \<open>PASS\<close> change who the client is, and callbacks never do.\<close>

definition same_login :: "ftp_session \<Rightarrow> ftp_session \<Rightarrow> bool" where
  "same_login s s' \<longleftrightarrow> authenticated s' = authenticated s \<and> username s' = username s"

lemma complete_login: "fs_complete q r s = (s', o', e) \<Longrightarrow> same_login s s'"
  by (cases q) (auto simp: ftp_defs same_login_def split: ftp_splits)

lemma event_login: "ftp_event_step cfg ev s = (s', o', e) \<Longrightarrow> (\<And>m. ev \<noteq> Line m) \<Longrightarrow> same_login s s'"
proof (cases ev)
  case (FsAnswer q r)
  then show "ftp_event_step cfg ev s = (s', o', e) \<Longrightarrow> same_login s s'" by (auto dest: complete_login)
qed (auto simp: ftp_defs same_login_def split: ftp_splits)

lemma sendMsg_login: "sendMsg m s = (s', o', e) \<Longrightarrow> same_login s s' \<and> (\<forall>x\<in>set o'. \<not> privileged x) \<and> e = None"
  by (auto simp: sendMsg_def same_login_def)

lemma command_login:
  "run_command cfg c args s = (s', o', e) \<Longrightarrow> c \<notin> {Cmd_USER, Cmd_PASS} \<Longrightarrow> same_login s s'"
  by (cases c) (auto simp: handleSyst_def handlePwd_def handleType_def handlePasv_def handlePort_def handleList_def
    handleCwd_def handleCdup_def handleRetr_def handleStor_def handleQuit_def handleFeat_def handleOpts_def handleNoop_def
    handleDele_def handleRmd_def handleMkd_def ftp_defs same_login_def split: ftp_splits)

lemma unprivileged_command:
  "run_command cfg c args s = (s', o', e) \<Longrightarrow> c \<in> set noAuthRequired \<Longrightarrow> \<forall>x\<in>set o'. \<not> privileged x"
  by (auto simp: noAuthRequired_def handleUser_def handlePass_def handleSyst_def handleFeat_def handleQuit_def handleNoop_def
    handleOpts_def ftp_defs split: ftp_splits)

lemma handleUser_login:
  "handleUser cfg a s = (s', o', e) \<Longrightarrow> same_login s s' \<or>
     (\<exists>u. cfg = Some u \<and> u_username u = a \<and> username s' = Some a \<and> authenticated s' = authenticated s)"
  by (auto simp: handleUser_def ftp_defs same_login_def split: ftp_splits)

lemma handlePass_login:
  "handlePass cfg a s = (s', o', e) \<Longrightarrow> same_login s s' \<or>
     (\<exists>u. cfg = Some u \<and> u_password u = a \<and> username s = Some (u_username u) \<and> username s' = username s)"
  by (auto simp: handlePass_def ftp_defs same_login_def split: ftp_splits)

definition user_line :: "user_config \<Rightarrow> string \<Rightarrow> bool" where
  "user_line cfg m = (case cfg of None \<Rightarrow> False | Some u \<Rightarrow> parse_command m = (''USER'', u_username u))"

definition pass_line :: "user_config \<Rightarrow> string \<Rightarrow> bool" where
  "pass_line cfg m = (case cfg of None \<Rightarrow> False | Some u \<Rightarrow> parse_command m = (''PASS'', u_password u))"

lemma handlers_user: "map_of handlers cmd = Some Cmd_USER \<Longrightarrow> cmd = ''USER''"
  and handlers_pass: "map_of handlers cmd = Some Cmd_PASS \<Longrightarrow> cmd = ''PASS''"
  by (auto simp: handlers_def split: if_splits)

text \<open>One line: what it takes to gain a name, a login and the privileges.\<close>

lemma handleCommand_login:
  assumes r: "handleCommand cfg (fst (parse_command m)) (snd (parse_command m)) s = (s', o', e)"
  shows "(authenticated s' \<longrightarrow> authenticated s \<or> pass_line cfg m \<and> username s \<noteq> None) \<and>
    (username s' \<noteq> None \<longrightarrow> username s \<noteq> None \<or> user_line cfg m) \<and> (list_ex privileged o' \<longrightarrow> authenticated s)"
proof (cases "map_of handlers (fst (parse_command m))")
  case None
  then show ?thesis using r sendMsg_login by (fastforce simp: handleCommand_def same_login_def list_ex_iff)
next
  case (Some c)
  show ?thesis
  proof (cases "\<not> authenticated s \<and> c \<notin> set noAuthRequired")
    case True
    then show ?thesis using r Some sendMsg_login by (fastforce simp: handleCommand_def same_login_def list_ex_iff)
  next
    case False
    then have run: "run_command cfg c (snd (parse_command m)) s = (s', o', e)" using r Some by (auto simp: handleCommand_def)
    have priv: "list_ex privileged o' \<longrightarrow> authenticated s"
      using unprivileged_command [OF run] False by (auto simp: list_ex_iff)
    consider "c = Cmd_USER" | "c = Cmd_PASS" | "c \<notin> {Cmd_USER, Cmd_PASS}" by blast
    then show ?thesis
    proof cases
      case 1
      then have nm: "fst (parse_command m) = ''USER''" using handlers_user Some by blast
      have h: "handleUser cfg (snd (parse_command m)) s = (s', o', e)" using run 1 by simp
      show ?thesis using handleUser_login [OF h]
      proof (elim disjE exE conjE)
        fix u assume "cfg = Some u" "u_username u = snd (parse_command m)" "authenticated s' = authenticated s"
        then have "user_line cfg m \<and> authenticated s' = authenticated s"
          using nm by (simp add: user_line_def prod_eq_iff)
        then show ?thesis using priv by blast
      qed (simp add: same_login_def priv)
    next
      case 2
      then have nm: "fst (parse_command m) = ''PASS''" using handlers_pass Some by blast
      have h: "handlePass cfg (snd (parse_command m)) s = (s', o', e)" using run 2 by simp
      show ?thesis using handlePass_login [OF h]
      proof (elim disjE exE conjE)
        fix u assume u: "cfg = Some u" "u_password u = snd (parse_command m)" "username s = Some (u_username u)"
          "username s' = username s"
        have "pass_line cfg m" using u(1,2) nm by (simp add: pass_line_def prod_eq_iff)
        then show ?thesis using priv u by simp
      qed (simp add: same_login_def priv)
    next
      case 3
      then show ?thesis using command_login [OF run] priv by (simp add: same_login_def)
    qed
  qed
qed

lemma line_login:
  assumes "ftp_processMessage cfg m s = (s', o')"
  shows "(authenticated s' \<longrightarrow> authenticated s \<or> pass_line cfg m \<and> username s \<noteq> None) \<and>
    (username s' \<noteq> None \<longrightarrow> username s \<noteq> None \<or> user_line cfg m) \<and> (list_ex privileged o' \<longrightarrow> authenticated s)"
proof -
  obtain s1 o1 e where h: "handleCommand cfg (fst (parse_command m)) (snd (parse_command m)) s = (s1, o1, e)"
    by (metis prod_cases3)
  have "s' = s1 \<and> (\<exists>o2. o' = o1 @ o2 \<and> \<not> list_ex privileged o2)"
    using assms h by (cases e) (auto simp: ftp_processMessage_def sendMsg_def)
  then show ?thesis using handleCommand_login [OF h] by auto
qed

text \<open>Events that are not lines follow a privileged effect.\<close>

lemma member_privileged: "FsCall q \<in> set outs \<Longrightarrow> list_ex privileged outs" "ListenPassive \<in> set outs \<Longrightarrow> list_ex privileged outs"
  by (force simp: list_ex_iff)+

lemma data_asked_privileged: "data_asked use outs \<Longrightarrow> list_ex privileged outs"
proof -
  assume "data_asked use outs"
  then obtain x where x: "x \<in> set outs" "case x of WaitData v \<Rightarrow> v = use | HaveData k v \<Rightarrow> v = use | ConnectData h p v \<Rightarrow> v = use | _ \<Rightarrow> False"
    by (auto simp: data_asked_def list_ex_iff)
  have "privileged x" using x(2) by (cases x) simp_all
  then show ?thesis using x(1) by (auto simp: list_ex_iff)
qed

lemma enabled_privileged: "event_enabled ev outs \<Longrightarrow> list_ex privileged outs \<or> (\<exists>m. ev = Line m) \<or> ev = ControlUnwritable"
  by (cases ev) (auto dest: data_asked_privileged member_privileged)

definition logged_in :: "user_config \<Rightarrow> ftp_event list \<Rightarrow> bool" where
  "logged_in cfg evs \<longleftrightarrow> (\<exists>l1 m1 l2 m2 l3. evs = l1 @ [Line m1] @ l2 @ [Line m2] @ l3 \<and> user_line cfg m1 \<and> pass_line cfg m2)"

lemma logged_in_snoc: "logged_in cfg evs \<Longrightarrow> logged_in cfg (evs @ [ev])"
  unfolding logged_in_def by (metis append.assoc)

lemma logged_in_pass: "Line m1 \<in> set evs \<Longrightarrow> user_line cfg m1 \<Longrightarrow> pass_line cfg m2 \<Longrightarrow> logged_in cfg (evs @ [Line m2])"
  unfolding logged_in_def by (metis append.assoc append_Cons append_Nil append_Nil2 split_list)

lemma reach_login:
  assumes "ftp_reach cfg s0 evs s outs" "\<not> authenticated s0" "username s0 = None"
  shows "(username s \<noteq> None \<longrightarrow> (\<exists>m. Line m \<in> set evs \<and> user_line cfg m)) \<and>
    (authenticated s \<or> list_ex privileged outs \<longrightarrow> logged_in cfg evs)"
  using assms
proof (induction rule: ftp_reach.induct)
  case (event evs s outs ev s' o')
  show ?case
  proof (cases "\<exists>m. ev = Line m")
    case True
    then obtain m where ev: "ev = Line m" by blast
    then have "ftp_processMessage cfg m s = (s', o')" using event.hyps(3) by (auto split: prod.splits)
    note l = line_login [OF this]
    show ?thesis using l event.IH [OF event.prems] ev
      by (auto intro: logged_in_snoc logged_in_pass)
  next
    case False
    then have same: "same_login s s'" using event_login [OF event.hyps(3)] by blast
    consider "ev = ControlUnwritable" | "list_ex privileged outs" using enabled_privileged [OF event.hyps(2)] False by blast
    then show ?thesis
    proof cases
      case 1
      then have "o' = []" using event.hyps(3) by simp
      then show ?thesis using event.IH [OF event.prems] same by (auto simp: same_login_def intro: logged_in_snoc)
    next
      case 2
      then show ?thesis using event.IH [OF event.prems] same by (auto simp: same_login_def intro: logged_in_snoc)
    qed
  qed
qed simp

text \<open>C10. FTP authentication: on a connection that starts logged out, whatever lines, file system answers and data connections follow, a
  session is only logged in, and the file system, a data connection or a passive server is only used, after a line
  \<open>USER\<close> with the configured name and a later line \<open>PASS\<close> with the configured password.\<close>

theorem ftp_auth_required:
  assumes "ftp_reach cfg s0 evs s outs" "\<not> authenticated s0" "username s0 = None"
    and "authenticated s \<or> list_ex privileged outs"
  shows "\<exists>u l1 m1 l2 m2 l3. cfg = Some u \<and> evs = l1 @ [Line m1] @ l2 @ [Line m2] @ l3 \<and>
    parse_command m1 = (''USER'', u_username u) \<and> parse_command m2 = (''PASS'', u_password u)"
proof -
  have "logged_in cfg evs" using reach_login [OF assms(1-3)] assms(4) by blast
  then obtain l1 m1 l2 m2 l3 where l: "evs = l1 @ [Line m1] @ l2 @ [Line m2] @ l3" "user_line cfg m1" "pass_line cfg m2"
    unfolding logged_in_def by blast
  obtain u where u: "cfg = Some u" using l(2) by (cases cfg) (simp_all add: user_line_def)
  have "parse_command m1 = (''USER'', u_username u)" "parse_command m2 = (''PASS'', u_password u)"
    using l(2,3) by (simp_all add: u user_line_def pass_line_def)
  then show ?thesis using u l(1) by blast
qed

theorem ftp_auth_required_witness:
  "\<exists>s outs. ftp_run (Some ex_user) [Line ''USER bob'', Line ''PASS pw'', Line ''list''] ex_session [] = Some (s, outs) \<and>
     list_ex privileged outs \<and> (\<exists>u l1 m1 l2 m2 l3. Some ex_user = Some u \<and>
       [Line ''USER bob'', Line ''PASS pw'', Line ''list''] = l1 @ [Line m1] @ l2 @ [Line m2] @ l3 \<and>
       parse_command m1 = (''USER'', u_username u) \<and> parse_command m2 = (''PASS'', u_password u))"
proof -
  have "case ftp_run (Some ex_user) [Line ''USER bob'', Line ''PASS pw'', Line ''list''] ex_session [] of
      None \<Rightarrow> False | Some (s, outs) \<Rightarrow> list_ex privileged outs" by code_simp
  then obtain s outs where r: "ftp_run (Some ex_user) [Line ''USER bob'', Line ''PASS pw'', Line ''list''] ex_session [] = Some (s, outs)"
    and p: "list_ex privileged outs" by (auto simp del: ftp_run.simps split: option.splits)
  have i: "\<not> authenticated ex_session" "username ex_session = None" by (simp_all add: ex_session_def new_FtpSession_def)
  show ?thesis using r p ftp_auth_required [OF run_reach [OF r] i disjI2 [OF p]] by blast
qed

section \<open>Paths\<close>

definition up_path :: "nat \<Rightarrow> string list \<Rightarrow> string" where
  "up_path n target = join ''/'' (replicate n ''..'' @ target)"

lemma last_join: "xs \<noteq> [] \<Longrightarrow> last xs \<noteq> [] \<Longrightarrow> join sep xs \<noteq> [] \<and> last (join sep xs) = last (last xs)"
  by (induction sep xs rule: join.induct) auto

lemma split_up_path:
  "target \<noteq> [] \<Longrightarrow> \<forall>p\<in>set target. good_seg p \<Longrightarrow> split_on CHR ''/'' (up_path n target) = replicate n ''..'' @ target"
proof -
  assume t: "target \<noteq> []" and g: "\<forall>p\<in>set target. good_seg p"
  have "CHR ''/'' \<notin> set x" if "x \<in> set (replicate n ''..'' @ target)" for x
  proof (cases "x \<in> set target")
    case True
    then have "good_seg x" using g by blast
    then show ?thesis unfolding good_seg_def by (elim conjE)
  next
    case False
    then have "x = ''..''" using that by (cases "n = 0") simp_all
    then show ?thesis by simp
  qed
  then show ?thesis unfolding up_path_def using t by (intro split_on_join) simp_all
qed

lemma last_up_path:
  assumes "target \<noteq> []" "\<forall>p\<in>set target. good_seg p"
  shows "up_path n target \<noteq> [] \<and> last (up_path n target) \<noteq> CHR ''/''"
proof -
  have l: "last target \<in> set target" using assms(1) by simp
  then have g: "good_seg (last target)" using assms(2) by blast
  then have ne: "last target \<noteq> []" by (simp add: good_seg_def)
  then have "last (last target) \<in> set (last target)" by simp
  then have "last (last target) \<noteq> CHR ''/''" using g unfolding good_seg_def by metis
  with ne show ?thesis using last_join [of "replicate n ''..'' @ target" "''/''"] assms(1) by (simp add: up_path_def)
qed

lemma trailing_slash_last: "p \<noteq> [] \<Longrightarrow> trailing_slash (ps @ [p]) = (last p = CHR ''/'')"
  by (simp add: trailing_slash_def)

lemma join_up_path:
  assumes t: "target \<noteq> []" "\<forall>p\<in>set target. good_seg p" and c: "\<forall>p\<in>set segs. good_seg p"
    and n: "length root + length segs \<le> n"
  shows "path_join root [path_text segs, up_path n target] = (target, False)"
proof -
  have "trailing_slash [path_text segs, up_path n target] = False"
    using trailing_slash_last [of "up_path n target" "[path_text segs]"] last_up_path [OF t, of n] by simp
  moreover have "walk root (split_on CHR ''/'' (path_text segs) @ split_on CHR ''/'' (up_path n target)) = target"
    using n by (simp add: walk_append walk_path_text [OF c] split_up_path [OF t] walk_up walk_names [OF t(2)])
  ultimately show ?thesis by (simp add: path_join_def)
qed

text \<open>C12. The root directory of the FTP server does not confine a logged in client: for every path of the file system
  there are arguments of \<open>RETR\<close>, \<open>STOR\<close>, \<open>DELE\<close>, \<open>RMD\<close> and \<open>MKD\<close> (enough double dots and then
  the path) and an absolute argument of \<open>CWD\<close> with which exactly this path is accessed.\<close>

theorem ftp_path_escape:
  assumes auth: "authenticated s" and cur: "currentDir s = path_text segs" and c: "\<forall>p\<in>set segs. good_seg p"
    and t: "target \<noteq> []" "\<forall>p\<in>set target. good_seg p \<and> char_of (0::nat) \<notin> set p"
    and n: "length (u_rootDir u) + length segs \<le> n"
  shows "handleCommand (Some u) ''RETR'' (up_path n target) s = (s, [FsCall (RetrAccess (up_path n target) (target, False))], None) \<and>
    handleCommand (Some u) ''STOR'' (up_path n target) s = (s, [FsCall (StorAccess (up_path n target) (target, False))], None) \<and>
    handleCommand (Some u) ''DELE'' (up_path n target) s = (s, [FsCall (DeleAccess (target, False))], None) \<and>
    handleCommand (Some u) ''RMD'' (up_path n target) s = (s, [FsCall (RmdAccess (target, False))], None) \<and>
    handleCommand (Some u) ''MKD'' (up_path n target) s = (s, [FsCall (MkdMkdir (up_path n target) (target, False))], None) \<and>
    handleCommand (Some u) ''CWD'' (''/'' @ up_path n target) s =
      (s, [FsCall (CwdAccess (''/'' @ up_path n target) (target, False))], None)"
proof -
  have g: "\<forall>p\<in>set target. good_seg p" using t by blast
  have path: "file_path u s (up_path n target) = (target, False)"
    using join_up_path [OF t(1) g c n] by (simp add: file_path_def cur)
  have ok: "path_ok (target, False)" "path_ok (path_dirname (target, False))"
    using t(2) by (auto simp: path_ok_def path_dirname_def list_all_iff dest: in_set_butlastD)
  have "trailing_slash [''/'' @ up_path n target] = False"
    using trailing_slash_last [of "''/'' @ up_path n target" "[]"] last_up_path [OF t(1) g, of n] by simp
  moreover have "walk (u_rootDir u) (split_on CHR ''/'' (''/'' @ up_path n target)) = target"
    using n by (simp add: split_up_path [OF t(1) g] walk_append walk_up walk_names [OF g])
  ultimately have cwd: "path_join (u_rootDir u) [''/'' @ up_path n target] = (target, False)" by (simp add: path_join_def)
  have abs: "cwd_target (currentDir s) (''/'' @ up_path n target) = ''/'' @ up_path n target"
    by (simp add: cwd_target_def isAbsolute_def)
  note d = handleCommand_def handlers_def auth path fsCall_def with_config_def ok
  show ?thesis
  proof (intro conjI)
    show "handleCommand (Some u) ''RETR'' (up_path n target) s = (s, [FsCall (RetrAccess (up_path n target) (target, False))], None)"
      by (simp add: d handleRetr_def)
    show "handleCommand (Some u) ''STOR'' (up_path n target) s = (s, [FsCall (StorAccess (up_path n target) (target, False))], None)"
      by (simp add: d handleStor_def)
    show "handleCommand (Some u) ''DELE'' (up_path n target) s = (s, [FsCall (DeleAccess (target, False))], None)"
      by (simp add: d handleDele_def)
    show "handleCommand (Some u) ''RMD'' (up_path n target) s = (s, [FsCall (RmdAccess (target, False))], None)"
      by (simp add: d handleRmd_def)
    show "handleCommand (Some u) ''MKD'' (up_path n target) s = (s, [FsCall (MkdMkdir (up_path n target) (target, False))], None)"
      by (simp add: d handleMkd_def)
    show "handleCommand (Some u) ''CWD'' (''/'' @ up_path n target) s =
      (s, [FsCall (CwdAccess (''/'' @ up_path n target) (target, False))], None)"
      using abs cwd by (simp add: d handleCwd_def Let_def)
  qed
qed

theorem ftp_path_escape_witness:
  "handleCommand (Some ex_user) ''RETR'' ''../../etc/passwd'' (ex_session\<lparr>authenticated := True\<rparr>) =
     (ex_session\<lparr>authenticated := True\<rparr>, [FsCall (RetrAccess ''../../etc/passwd'' ([''etc'', ''passwd''], False))], None)"
proof -
  have p: "up_path 2 [''etc'', ''passwd''] = ''../../etc/passwd''" by (simp add: up_path_def numeral_2_eq_2)
  let ?s = "ex_session\<lparr>authenticated := True\<rparr>"
  have h: "authenticated ?s" "currentDir ?s = path_text []" "\<forall>p\<in>set []. good_seg p" "[''etc'', ''passwd''] \<noteq> []"
    "length (u_rootDir ex_user) + length ([] :: string list) \<le> 2"
    by (simp_all add: ex_session_def new_FtpSession_def path_text_def ex_user_def)
  have "\<forall>p\<in>set [''etc'', ''passwd'']. good_seg p \<and> char_of (0::nat) \<notin> set p" by code_simp
  from ftp_path_escape [OF h(1-4) this h(5)] show ?thesis unfolding p by (rule conjunct1)
qed

text \<open>A path without double dots stays below its directory.\<close>

definition no_up :: "string \<Rightarrow> bool" where
  "no_up p \<longleftrightarrow> ''..'' \<notin> set (split_on CHR ''/'' p)"

lemma walk_no_up: "''..'' \<notin> set ps \<Longrightarrow> prefix dir (walk dir ps)"
proof (induction dir ps rule: walk.induct)
  case (2 dir p ps)
  then show ?case by (auto intro: append_prefixD)
qed simp

lemma join_no_up: "\<forall>p\<in>set parts. no_up p \<Longrightarrow> prefix root (fst (path_join root parts))"
  by (auto simp: path_join_def no_up_def intro: walk_no_up)

lemma no_up_path_text: "\<forall>p\<in>set segs. good_seg p \<Longrightarrow> no_up (path_text segs)"
proof (cases "segs = []")
  case False
  assume g: "\<forall>p\<in>set segs. good_seg p"
  then have "''..'' \<notin> set segs" by (auto simp: good_seg_def)
  then show ?thesis by (simp add: no_up_def split_path_text [OF False g])
qed (simp add: no_up_def path_text_def)

lemma clean_segments_good:
  "\<forall>p\<in>set res. good_seg p \<Longrightarrow> \<forall>p\<in>set segs. p \<noteq> [] \<and> p \<noteq> ''.'' \<and> CHR ''/'' \<notin> set p \<Longrightarrow> \<forall>p\<in>set (clean_segments res segs). good_seg p"
proof (induction res segs rule: clean_segments.induct)
  case (2 res seg segs)
  have "\<forall>p\<in>set (butlast res). good_seg p" using "2.prems"(1) by (meson in_set_butlastD)
  moreover have "seg \<noteq> ''..'' \<Longrightarrow> good_seg seg" using "2.prems"(2) by (simp add: good_seg_def)
  ultimately have "\<forall>p\<in>set (if seg = ''..'' then butlast res else res @ [seg]). good_seg p"
    using "2.prems"(1) by (cases "seg = ''..''") simp_all
  from "2.IH" [OF this] "2.prems"(2) show ?case by simp
qed simp

lemma cwd_target_no_up: "(isAbsolute dir \<Longrightarrow> no_up dir) \<Longrightarrow> no_up (cwd_target cur dir)"
proof (cases "isAbsolute dir")
  case False
  have "no_up (path_text (clean_segments [] (filter (\<lambda>seg. seg \<noteq> [] \<and> seg \<noteq> ''.'') (split_on CHR ''/'' p))))" for p
    by (intro no_up_path_text clean_segments_good) (auto dest: split_on_no_sep)
  then show ?thesis using False by (simp add: cwd_target_def Let_def)
qed (simp add: cwd_target_def)

lemma resolve_no_up: "\<forall>p\<in>set dir. good_seg p \<Longrightarrow> \<forall>p\<in>set (path_resolve dir a). good_seg p"
  unfolding path_resolve_def by (rule walk_good) (auto dest: split_on_no_sep)

text \<open>The file or directory of an effect.  \<open>STOR\<close> names its file and lists name their directory.\<close>

fun request_file :: "fs_request \<Rightarrow> posix_path" where
  "request_file (ListStat sock path f fs acc) = path"
| "request_file (StorAccess file path) = path"
| "request_file q = request_path q"

fun use_file :: "data_use \<Rightarrow> posix_path" where
  "use_file (UseList path) = path"
| "use_file (UseRetr file path n) = path"
| "use_file (UseStor path) = path"

fun out_file :: "ftp_out \<Rightarrow> posix_path option" where
  "out_file (FsCall q) = Some (request_file q)"
| "out_file (WaitData use) = Some (use_file use)"
| "out_file (HaveData k use) = Some (use_file use)"
| "out_file (ConnectData h p use) = Some (use_file use)"
| "out_file (CreateReadStream k path) = Some path"
| "out_file (CreateWriteStream k path) = Some path"
| "out_file _ = None"

definition inside :: "string list \<Rightarrow> posix_path \<Rightarrow> bool" where
  "inside root path \<longleftrightarrow> prefix root (fst path)"

fun new_dir_ok :: "ftp_out \<Rightarrow> bool" where
  "new_dir_ok (FsCall (CwdAccess d path)) = no_up d"
| "new_dir_ok (FsCall (CwdStat d path)) = no_up d"
| "new_dir_ok _ = True"

definition outs_inside :: "string list \<Rightarrow> ftp_out list \<Rightarrow> bool" where
  "outs_inside root outs = list_all (\<lambda>x. pred_option (inside root) (out_file x) \<and> new_dir_ok x) outs"

lemma outs_inside_simps [simp]:
  "outs_inside root [] = True"
  "outs_inside root (x # xs) = (pred_option (inside root) (out_file x) \<and> new_dir_ok x \<and> outs_inside root xs)"
  "outs_inside root (xs @ ys) = (outs_inside root xs \<and> outs_inside root ys)"
  by (auto simp: outs_inside_def)

lemma complete_inside:
  assumes "fs_complete q r s = (s', o', e)" "inside root (request_file q)" "new_dir_ok (FsCall q)" "no_up (currentDir s)"
  shows "no_up (currentDir s') \<and> outs_inside root o'"
  using assms by (cases q) (auto simp: ftp_defs split: ftp_splits)

lemma event_inside:
  assumes st: "ftp_event_step cfg ev s = (s', o', e)" and nl: "\<And>m. ev \<noteq> Line m" and en: "event_enabled ev outs"
    and i: "outs_inside root outs" and cur: "no_up (currentDir s)"
  shows "no_up (currentDir s') \<and> outs_inside root o'"
proof -
  have use: "inside root (use_file use)" if asked: "data_asked use outs" for use
  proof -
    obtain x where x: "x \<in> set outs" "case x of WaitData v \<Rightarrow> v = use | HaveData k v \<Rightarrow> v = use | ConnectData h p v \<Rightarrow> v = use | _ \<Rightarrow> False"
      using asked by (auto simp: data_asked_def list_ex_iff)
    have "out_file x = Some (use_file use)" using x(2) by (cases x) simp_all
    moreover have "pred_option (inside root) (out_file x)" using i x(1) by (simp add: outs_inside_def list_all_iff)
    ultimately show ?thesis by simp
  qed
  have fs: "inside root (request_file q) \<and> new_dir_ok (FsCall q)" if "FsCall q \<in> set outs" for q
    using i that by (force simp: outs_inside_def list_all_iff)
  show ?thesis
  proof (cases ev)
    case (FsAnswer q r)
    then show ?thesis using complete_inside [of q r s s' o' e root] fs [of q] st en cur by simp
  next
    case (DataOpened k v)
    then show ?thesis using st en cur use [of v] by (cases v) (auto simp: ftp_defs split: if_splits)
  next
    case (DataSettled k v)
    then show ?thesis using st en cur use [of v] by (cases v) (auto simp: ftp_defs split: if_splits)
  next
    case (Line m)
    then show ?thesis using nl by blast
  qed (use st cur in \<open>auto simp: ftp_defs split: ftp_splits\<close>)
qed

text \<open>Lines that a client without bad intentions sends: no double dots in the name of a file or in an absolute directory.\<close>

definition tame :: "string \<Rightarrow> bool" where
  "tame m = (case parse_command m of (cmd, args) \<Rightarrow>
     (cmd \<in> {''RETR'', ''STOR'', ''DELE'', ''RMD'', ''MKD''} \<or> cmd = ''CWD'' \<and> isAbsolute args) \<longrightarrow> no_up args)"

lemma fsCall_inside: "fsCall q s = (s', o', e) \<Longrightarrow> inside root (request_file q) \<Longrightarrow> new_dir_ok (FsCall q) \<Longrightarrow>
    s' = s \<and> outs_inside root o'"
  by (auto simp: fsCall_def split: if_splits)

lemma file_path_inside: "no_up (currentDir s) \<Longrightarrow> no_up file \<Longrightarrow> inside (u_rootDir u) (file_path u s file)"
  unfolding inside_def file_path_def by (rule join_no_up) simp

lemma handleCwd_inside:
  assumes "handleCwd (Some u) dir s = (s', o', e)" "isAbsolute dir \<Longrightarrow> no_up dir"
  shows "s' = s \<and> outs_inside (u_rootDir u) o'"
proof -
  have n: "no_up (cwd_target (currentDir s) dir)" using assms(2) by (rule cwd_target_no_up)
  then have "inside (u_rootDir u) (path_join (u_rootDir u) [cwd_target (currentDir s) dir])"
    unfolding inside_def by (intro join_no_up) simp
  moreover have "fsCall (CwdAccess (cwd_target (currentDir s) dir) (path_join (u_rootDir u) [cwd_target (currentDir s) dir])) s = (s', o', e)"
    using assms(1) by (simp add: handleCwd_def with_config_def Let_def)
  ultimately show ?thesis using n by (intro fsCall_inside) auto
qed

lemma handleList_inside:
  assumes "handleList (Some u) args s = (s', o', e)" "no_up (currentDir s)"
  shows "s' = s \<and> outs_inside (u_rootDir u) o'"
proof -
  define dir where "dir = (if args = [] then currentDir s
            else path_text (if isAbsolute args then path_resolve [] args
                            else path_resolve (path_resolve [] (currentDir s)) args))"
  have "no_up dir" unfolding dir_def using assms(2) by (auto intro!: no_up_path_text resolve_no_up)
  then have "inside (u_rootDir u) (path_join (u_rootDir u) [dir])" unfolding inside_def by (intro join_no_up) simp
  moreover have "fsCall (ListAccess dir (path_join (u_rootDir u) [dir])) s = (s', o', e)"
    using assms(1) by (simp add: handleList_def with_config_def Let_def dir_def)
  ultimately show ?thesis by (intro fsCall_inside) auto
qed

lemma file_command_inside:
  assumes "run_command (Some u) c args s = (s', o', e)" "no_up (currentDir s)" "no_up args"
    "c \<in> {Cmd_RETR, Cmd_STOR, Cmd_DELE, Cmd_RMD, Cmd_MKD}"
  shows "s' = s \<and> outs_inside (u_rootDir u) o'"
  using assms(4,1) file_path_inside [OF assms(2,3), of u]
  by (auto simp: handleRetr_def handleStor_def handleDele_def handleRmd_def handleMkd_def with_config_def
    fsCall_def split: if_splits)

lemma other_command_inside:
  assumes "run_command cfg c args s = (s', o', e)" "no_up (currentDir s)"
    "c \<notin> {Cmd_RETR, Cmd_STOR, Cmd_DELE, Cmd_RMD, Cmd_MKD, Cmd_CWD, Cmd_CDUP, Cmd_LIST}"
  shows "no_up (currentDir s') \<and> outs_inside root o'"
proof -
  have r: "no_up ''/''" by (simp add: no_up_def)
  show ?thesis using assms r
    by (cases c) (auto simp: handleUser_def handlePass_def handleSyst_def handlePwd_def handleType_def handlePasv_def handlePort_def
      handleQuit_def handleFeat_def handleOpts_def handleNoop_def ftp_defs split: ftp_splits)
qed

lemma run_command_inside:
  assumes r: "run_command (Some u) c args s = (s', o', e)" and cur: "no_up (currentDir s)"
    and tame: "c \<in> {Cmd_RETR, Cmd_STOR, Cmd_DELE, Cmd_RMD, Cmd_MKD} \<or> c = Cmd_CWD \<and> isAbsolute args \<Longrightarrow> no_up args"
  shows "no_up (currentDir s') \<and> outs_inside (u_rootDir u) o'"
proof -
  consider (files) "c \<in> {Cmd_RETR, Cmd_STOR, Cmd_DELE, Cmd_RMD, Cmd_MKD}" | (cwd) "c = Cmd_CWD" | (cdup) "c = Cmd_CDUP" |
    (lst) "c = Cmd_LIST" | (other) "c \<notin> {Cmd_RETR, Cmd_STOR, Cmd_DELE, Cmd_RMD, Cmd_MKD, Cmd_CWD, Cmd_CDUP, Cmd_LIST}" by blast
  then show ?thesis
  proof cases
    case files
    then show ?thesis using file_command_inside [OF r cur tame] cur by blast
  next
    case cwd
    then show ?thesis using handleCwd_inside [of u args s s' o' e] r tame cur by auto
  next
    case cdup
    then show ?thesis using handleCwd_inside [of u "''..''" s s' o' e] r cur by (simp add: handleCdup_def isAbsolute_def)
  next
    case lst
    then show ?thesis using handleList_inside [of u args s s' o' e] r cur by simp
  next
    case other
    then show ?thesis using other_command_inside [OF r cur] by blast
  qed
qed

lemma handlers_names:
  assumes h: "map_of handlers cmd = Some c"
    and c: "c \<in> {Cmd_RETR, Cmd_STOR, Cmd_DELE, Cmd_RMD, Cmd_MKD} \<or> c = Cmd_CWD \<and> A"
  shows "cmd \<in> {''RETR'', ''STOR'', ''DELE'', ''RMD'', ''MKD''} \<or> cmd = ''CWD'' \<and> A"
proof -
  have "(cmd, c) \<in> set handlers" using h by (rule map_of_SomeD)
  then show ?thesis using c unfolding handlers_def by (elim disjE) (simp_all, auto)
qed

lemma line_inside:
  assumes p: "ftp_processMessage (Some u) m s = (s', o')" and cur: "no_up (currentDir s)" and tame: "tame m"
  shows "no_up (currentDir s') \<and> outs_inside (u_rootDir u) o'"
proof -
  obtain cmd args where pc: "parse_command m = (cmd, args)" by fastforce
  obtain s1 o1 e where h: "handleCommand (Some u) cmd args s = (s1, o1, e)" by (metis prod_cases3)
  have "no_up (currentDir s1) \<and> outs_inside (u_rootDir u) o1"
  proof (cases "map_of handlers cmd")
    case None
    then show ?thesis using h cur by (auto simp: handleCommand_def sendMsg_def split: if_splits)
  next
    case (Some c)
    show ?thesis
    proof (cases "\<not> authenticated s \<and> c \<notin> set noAuthRequired")
      case True
      then show ?thesis using h Some cur by (auto simp: handleCommand_def sendMsg_def split: if_splits)
    next
      case False
      then have run: "run_command (Some u) c args s = (s1, o1, e)" using h Some by (auto simp: handleCommand_def)
      show ?thesis
      proof (rule run_command_inside [OF run cur])
        assume "c \<in> {Cmd_RETR, Cmd_STOR, Cmd_DELE, Cmd_RMD, Cmd_MKD} \<or> c = Cmd_CWD \<and> isAbsolute args"
        then have "cmd \<in> {''RETR'', ''STOR'', ''DELE'', ''RMD'', ''MKD''} \<or> cmd = ''CWD'' \<and> isAbsolute args"
          by (rule handlers_names [OF Some])
        then show "no_up args" using tame unfolding tame_def pc prod.case by (rule rev_mp)
      qed
    qed
  qed
  moreover have "s' = s1 \<and> (\<exists>m. o' = o1 \<or> o' = o1 @ [Reply m])"
    using p h pc by (cases e) (auto simp: ftp_processMessage_def sendMsg_def)
  ultimately show ?thesis by auto
qed

lemma reach_inside:
  assumes "ftp_reach (Some u) s0 evs s outs" "no_up (currentDir s0)" "\<And>m. Line m \<in> set evs \<Longrightarrow> tame m"
  shows "no_up (currentDir s) \<and> outs_inside (u_rootDir u) outs"
  using assms
proof (induction rule: ftp_reach.induct)
  case (event evs s outs ev s' o')
  have IH: "no_up (currentDir s)" "outs_inside (u_rootDir u) outs" using event.IH event.prems by auto
  show ?case
  proof (cases "\<exists>m. ev = Line m")
    case True
    then obtain m where m: "ev = Line m" by blast
    then have "ftp_processMessage (Some u) m s = (s', o')" using event.hyps(3) by (auto split: prod.splits)
    then show ?thesis using line_inside [OF _ IH(1)] event.prems(2) [of m] m IH(2) by auto
  next
    case False
    then show ?thesis using event_inside [OF event.hyps(3) _ event.hyps(2) IH(2,1)] IH(2) by auto
  qed
qed simp



section \<open>Exceptions and transfers\<close>

lemma complete_no_exception: "fs_complete q r s = (s', o', e) \<Longrightarrow> e = None"
  by (cases q) (auto simp: ftp_defs split: ftp_splits)

text \<open>C40. Exceptions of an FTP session: no line and no callback of the file system or of a data connection ends in an
  exception that nobody catches; the only one is the callback of a passive server that listens after it was
  closed.  This can happen: a client that is in passive mode sends \<open>PASV\<close> and \<open>QUIT\<close> in one packet.\<close>

theorem ftp_uncaught:
  "((\<exists>s' o' err. ftp_event_step cfg ev s = (s', o', Some err)) \<longleftrightarrow> (\<exists>port. ev = PassiveListening port) \<and> \<not> passiveServer s) \<and>
   (case ftp_run (Some ex_user) [Line ''USER bob'', Line ''PASS pw'', Line ''PASV'', PassiveListening 4000, Line ''PASV'', Line ''QUIT'']
      ex_session [] of
      None \<Rightarrow> False
    | Some (s', outs) \<Rightarrow> event_enabled (PassiveListening 4001) outs \<and>
        snd (snd (ftp_event_step (Some ex_user) (PassiveListening 4001) s')) = Some TypeError)"
proof
  show "(\<exists>s' o' err. ftp_event_step cfg ev s = (s', o', Some err)) \<longleftrightarrow> (\<exists>port. ev = PassiveListening port) \<and> \<not> passiveServer s"
  proof (cases ev)
    case (FsAnswer q r)
    then show ?thesis using complete_no_exception [of q r s] by fastforce
  qed (auto simp: ftp_defs split: ftp_splits)
qed code_simp

text \<open>A transfer whose file cannot be read is reported as failed and, when its connection is closed, as complete.\<close>

theorem ftp_failed_transfer:
  "controlSocket s = Some True \<Longrightarrow> dataSocket s = Some k \<Longrightarrow> \<not> passiveMode s \<Longrightarrow>
   ftp_then (stream_error k (UseRetr file path n) s) (data_closed (UseRetr file path n)) =
     (s\<lparr>dataSocket := None\<rparr>, [EndData k [], Reply ''550 Failed to read file'', TransferError file,
        Reply ''226 Transfer complete'', EndData k [], TransferComplete file n], None)"
  by (simp add: ftp_defs)

end
