(* ===== verification/Ftp_Worker.thy ===== *)
theory Ftp_Worker
  imports Ftp_Session "HOL-Library.AList"
begin

text \<open>
  The FTP server: \<^verbatim>\<open>electron/worker/transfer/ftpWorker.js\<close>.  It keeps one session object per connection under a
  key made of the four address parts, feeds it the data of the connection and closes it with the connection.  Callbacks of the file
  system and of data connections belong to a session object and come even after the object has left the map, so the objects are kept
  in a store of their own and the map holds their numbers.  The IPv4 and the IPv6 server have the same handlers, but the IPv6 handlers
  make the key again at each event, from what the socket then reports: a destroyed socket has no local address.
\<close>

section \<open>State\<close>

type_synonym ftp_obj = "string \<times> ftp_session"

record ftp_worker =
  ftp_server :: bool
  userConfig :: user_config
  ftpSessionMap :: "(string \<times> nat) list"
  ftp_objects :: "(nat \<times> ftp_obj) list"
  ftp_next :: nat

definition new_FtpWorker :: ftp_worker where
  "new_FtpWorker = \<lparr>ftp_server = False, userConfig = None, ftpSessionMap = [], ftp_objects = [], ftp_next = 0\<rparr>"

definition ftp_object :: "ftp_worker \<Rightarrow> nat \<Rightarrow> ftp_obj" where
  "ftp_object w i = (case map_of (ftp_objects w) i of None \<Rightarrow> ([], new_FtpSession) | Some x \<Rightarrow> x)"

datatype ftp_worker_out =
    OfSession nat ftp_out
  | ClientAdded "string option \<times> bool"
  | SocketDestroyed
  | ClientList "(string option \<times> bool) list"
  | FtpStarted bool
  | FtpStopped

definition makeKey :: "string \<Rightarrow> string \<Rightarrow> string \<Rightarrow> string \<Rightarrow> string" where
  "makeKey lip lport rip rport = join ''|'' [lip, lport, rip, rport]"

definition parseKey :: "string \<Rightarrow> string option list" where
  "parseKey key = (let parts = split_on CHR ''|'' key in map (\<lambda>i. if i < length parts then Some (parts ! i) else None) [0, 1, 2, 3])"

text \<open>The text of a property in a template string.\<close>

definition template :: "string option \<Rightarrow> string" where
  "template v = (case v of None \<Rightarrow> ''undefined'' | Some t \<Rightarrow> t)"

text \<open>The key that the handlers of the IPv6 server make: the local address and port are those the socket reports, if any.\<close>

definition key6 :: "(string \<times> string) option \<Rightarrow> string \<Rightarrow> string \<Rightarrow> string" where
  "key6 here rip rport = makeKey (template (map_option fst here)) (template (map_option snd here)) rip rport"

section \<open>Connections\<close>

definition set_object :: "nat \<Rightarrow> ftp_obj \<Rightarrow> ftp_worker \<Rightarrow> ftp_worker" where
  "set_object i x w = w\<lparr>ftp_objects := AList.update i x (ftp_objects w)\<rparr>"

definition close_object :: "nat \<Rightarrow> ftp_worker \<Rightarrow> ftp_worker \<times> ftp_worker_out list" where
  "close_object i w = (case ftp_object w i of (buf, s) \<Rightarrow>
     (case ftp_closeSession s of (s1, o1, _) \<Rightarrow> (set_object i (buf, s1) w, map (OfSession i) o1)))"

text \<open>The connection listener: a session that is still known under the key is closed and used again.\<close>

definition greet :: "string \<Rightarrow> string \<Rightarrow> nat \<Rightarrow> ftp_worker \<Rightarrow> ftp_worker \<times> ftp_worker_out list" where
  "greet welcome lip i w = (case ftp_object w i of (buf, s) \<Rightarrow>
     (case sendMsg welcome (s\<lparr>controlSocket := Some True, localIp := lip\<rparr>) of (s1, o1, _) \<Rightarrow>
        (set_object i (buf, s1) w, map (OfSession i) o1 @ [ClientAdded (getClientInfo s1)])))"

definition on_connection :: "string \<Rightarrow> string \<Rightarrow> string \<Rightarrow> ftp_worker \<Rightarrow> ftp_worker \<times> ftp_worker_out list" where
  "on_connection welcome key lip w = (case map_of (ftpSessionMap w) key of
      Some i \<Rightarrow>
        (let (w1, o1) = close_object i w;
             (w2, o2) = greet welcome lip i (w1\<lparr>ftpSessionMap := AList.delete key (ftpSessionMap w1) @ [(key, i)]\<rparr>)
         in (w2, o1 @ o2))
    | None \<Rightarrow>
        (let i = ftp_next w in
         greet welcome lip i (set_object i ([], new_FtpSession) (w\<lparr>ftpSessionMap := ftpSessionMap w @ [(key, i)], ftp_next := i + 1\<rparr>))))"

definition welcome4 :: string where "welcome4 = ''220  Welcome to the Mini Tools FTP server''"
definition welcome6 :: string where "welcome6 = ''220 Welcome to the Mini Tools FTP server''"

definition on_data :: "string \<Rightarrow> string \<Rightarrow> ftp_worker \<Rightarrow> ftp_worker \<times> ftp_worker_out list" where
  "on_data key data w = (case map_of (ftpSessionMap w) key of
      None \<Rightarrow> (w, [SocketDestroyed])
    | Some i \<Rightarrow> (case ftp_object w i of (buf, s) \<Rightarrow>
        (case ftp_recvMsg (userConfig w) buf data s of (buf1, s1, o1) \<Rightarrow>
           (set_object i (buf1, s1) w, map (OfSession i) o1))))"

text \<open>The handlers of \<open>end\<close>, \<open>close\<close> and \<open>error\<close> are the same.\<close>

definition on_gone :: "string \<Rightarrow> ftp_worker \<Rightarrow> ftp_worker \<times> ftp_worker_out list" where
  "on_gone key w = (case map_of (ftpSessionMap w) key of
      None \<Rightarrow> (w, [SocketDestroyed])
    | Some i \<Rightarrow> (case close_object i w of (w1, o1) \<Rightarrow> (w1\<lparr>ftpSessionMap := AList.delete key (ftpSessionMap w1)\<rparr>, o1)))"

text \<open>A callback of a session object.\<close>

definition on_callback :: "nat \<Rightarrow> ftp_event \<Rightarrow> ftp_worker \<Rightarrow> ftp_worker \<times> ftp_worker_out list" where
  "on_callback i ev w = (if i < ftp_next w then (case ftp_object w i of (buf, s) \<Rightarrow>
     (case ftp_event_step (userConfig w) ev s of (s1, o1, e) \<Rightarrow> (set_object i (buf, s1) w, map (OfSession i) o1))) else (w, []))"

section \<open>Requests\<close>

definition startFtp :: "ftp_user \<Rightarrow> bool \<Rightarrow> ftp_worker \<Rightarrow> ftp_worker \<times> ftp_worker_out list" where
  "startFtp user listens w = (w\<lparr>ftp_server := True, userConfig := Some user\<rparr>, [FtpStarted listens])"

fun close_all :: "nat list \<Rightarrow> ftp_worker \<Rightarrow> ftp_worker \<times> ftp_worker_out list" where
  "close_all [] w = (w, [])"
| "close_all (i # is) w = (let (w1, o1) = close_object i w; (w2, o2) = close_all is w1 in (w2, o1 @ o2))"

definition stopFtp :: "ftp_worker \<Rightarrow> ftp_worker \<times> ftp_worker_out list" where
  "stopFtp w = (let (w1, o1) = close_all (map snd (ftpSessionMap w)) (w\<lparr>ftp_server := False, userConfig := None\<rparr>) in
     (w1\<lparr>ftpSessionMap := []\<rparr>, o1 @ [FtpStopped]))"

definition getClientList :: "ftp_worker \<Rightarrow> ftp_worker \<times> ftp_worker_out list" where
  "getClientList w = (w, [ClientList (map (\<lambda>(k, i). getClientInfo (snd (ftp_object w i))) (ftpSessionMap w))])"

datatype ftp_worker_event =
    Connection4 string string string string
  | Connection6 string string string string
  | Received string string
  | Gone string
  | Callback nat ftp_event
  | StartFtp ftp_user bool
  | StopFtp
  | GetClientList

fun ftp_worker_step :: "ftp_worker_event \<Rightarrow> ftp_worker \<Rightarrow> ftp_worker \<times> ftp_worker_out list" where
  "ftp_worker_step (Connection4 lip lport rip rport) w = on_connection welcome4 (makeKey lip lport rip rport) lip w"
| "ftp_worker_step (Connection6 lip lport rip rport) w = on_connection welcome6 (key6 (Some (lip, lport)) rip rport) lip w"
| "ftp_worker_step (Received key data) w = on_data key data w"
| "ftp_worker_step (Gone key) w = on_gone key w"
| "ftp_worker_step (Callback i ev) w = on_callback i ev w"
| "ftp_worker_step (StartFtp user listens) w = startFtp user listens w"
| "ftp_worker_step StopFtp w = stopFtp w"
| "ftp_worker_step GetClientList w = getClientList w"

fun ftp_worker_run :: "ftp_worker_event list \<Rightarrow> ftp_worker \<Rightarrow> ftp_worker \<times> ftp_worker_out list" where
  "ftp_worker_run [] w = (w, [])"
| "ftp_worker_run (ev # evs) w =
     (let (w1, o1) = ftp_worker_step ev w; (w2, o2) = ftp_worker_run evs w1 in (w2, o1 @ o2))"

section \<open>Sessions and their objects\<close>

lemma ftp_object_set [simp]: "ftp_object (set_object i x w) j = (if j = i then x else ftp_object w j)"
  by (simp add: ftp_object_def set_object_def update_conv')

lemma ftp_object_map [simp]:
  "ftp_object (w\<lparr>ftpSessionMap := m\<rparr>) j = ftp_object w j" "ftp_object (w\<lparr>ftp_next := n\<rparr>) j = ftp_object w j"
  "ftp_object (w\<lparr>userConfig := c\<rparr>) j = ftp_object w j" "ftp_object (w\<lparr>ftp_server := b\<rparr>) j = ftp_object w j"
  by (simp_all add: ftp_object_def)

lemma set_object_fields [simp]:
  "ftpSessionMap (set_object i x w) = ftpSessionMap w" "ftp_next (set_object i x w) = ftp_next w"
  "userConfig (set_object i x w) = userConfig w"
  by (simp_all add: set_object_def)

definition no_socket :: "ftp_worker \<Rightarrow> nat \<Rightarrow> bool" where
  "no_socket w i \<longleftrightarrow> controlSocket (snd (ftp_object w i)) = None"

text \<open>Every key has one object of its own, and only objects under a key have a socket.\<close>

definition ftp_wf :: "ftp_worker \<Rightarrow> bool" where
  "ftp_wf w \<longleftrightarrow> distinct (map fst (ftpSessionMap w)) \<and> distinct (map snd (ftpSessionMap w)) \<and>
     (\<forall>i\<in>snd ` set (ftpSessionMap w). i < ftp_next w) \<and> (\<forall>i. i \<notin> snd ` set (ftpSessionMap w) \<longrightarrow> no_socket w i)"

lemma ftp_closeSession_socket: "ftp_closeSession s = (s', o', e) \<Longrightarrow> controlSocket s' = None"
  by (auto simp: ftp_closeSession_def closeDataConnection_def ftp_then_def Let_def split: if_splits option.splits)

lemma close_object_eq:
  "\<exists>x o1. close_object i w = (set_object i x w, o1) \<and> controlSocket (snd x) = None"
proof -
  obtain buf s where a: "ftp_object w i = (buf, s)" by fastforce
  obtain s1 o1 e where b: "ftp_closeSession s = (s1, o1, e)" by (metis prod_cases3)
  show ?thesis using a b ftp_closeSession_socket [OF b] by (auto simp: close_object_def)
qed

lemma greet_eq: "\<exists>x o1. greet welcome lip i w = (set_object i x w, o1)"
  by (auto simp: greet_def split: prod.split)

text \<open>Callbacks give no new socket to a session.\<close>

lemma command_socket:
  "run_command cfg c args s = (s', o', e) \<Longrightarrow> controlSocket s = None \<Longrightarrow> controlSocket s' = None"
  by (cases c) (auto simp: handleUser_def handlePass_def handleSyst_def handlePwd_def handleType_def handlePasv_def handlePort_def handleList_def
    handleCwd_def handleCdup_def handleRetr_def handleStor_def handleQuit_def handleFeat_def handleOpts_def handleNoop_def
    handleDele_def handleRmd_def handleMkd_def ftp_defs split: ftp_splits)

lemma line_socket:
  assumes "ftp_processMessage cfg m s = (s', o')" "controlSocket s = None"
  shows "controlSocket s' = None"
proof -
  obtain cmd args where pc: "parse_command m = (cmd, args)" by fastforce
  obtain s1 o1 e where h: "handleCommand cfg cmd args s = (s1, o1, e)" by (metis prod_cases3)
  have "controlSocket s1 = None"
    using h assms(2) command_socket [of cfg _ args s s1 o1 e] by (auto simp: handleCommand_def sendMsg_def split: option.splits if_splits)
  moreover have "s' = s1" using assms(1) h pc by (cases e) (auto simp: ftp_processMessage_def sendMsg_def)
  ultimately show ?thesis by simp
qed

lemma event_socket:
  "ftp_event_step cfg ev s = (s', o', e) \<Longrightarrow> controlSocket s = None \<Longrightarrow> controlSocket s' = None"
proof (cases ev)
  case (Line m)
  then show "ftp_event_step cfg ev s = (s', o', e) \<Longrightarrow> controlSocket s = None \<Longrightarrow> controlSocket s' = None"
    using line_socket by (auto split: prod.splits)
next
  case (FsAnswer q r)
  then show "ftp_event_step cfg ev s = (s', o', e) \<Longrightarrow> controlSocket s = None \<Longrightarrow> controlSocket s' = None"
    by (cases q) (auto simp: ftp_defs split: ftp_splits)
qed (auto simp: ftp_defs split: ftp_splits)

lemma wf_set_object:
  assumes "ftp_wf w" "i \<in> snd ` set (ftpSessionMap w) \<or> controlSocket (snd x) = None"
  shows "ftp_wf (set_object i x w)"
  using assms by (auto simp: ftp_wf_def no_socket_def)

lemma map_of_id: "map_of (ftpSessionMap w) key = Some i \<Longrightarrow> i \<in> snd ` set (ftpSessionMap w)"
  by (force dest: map_of_SomeD)

lemma delete_ids:
  assumes "distinct (map fst m)" "distinct (map snd m)" "map_of m key = Some i"
  shows "snd ` set (AList.delete key m) = snd ` set m - {i} \<and> distinct (map snd (AList.delete key m)) \<and>
    distinct (map fst (AList.delete key m)) \<and> key \<notin> fst ` set (AList.delete key m)"
proof -
  have in_m: "(key, i) \<in> set m" using assms(3) by (rule map_of_SomeD)
  have eq: "AList.delete key m = filter (\<lambda>p. key \<noteq> fst p) m" by (simp add: AList.delete_eq case_prod_unfold)
  have inj: "\<And>k j. (k, j) \<in> set m \<Longrightarrow> k = key \<longleftrightarrow> j = i"
    using in_m assms(1,2) by (metis distinct_map inj_onD fst_conv snd_conv)
  show ?thesis unfolding eq using assms(1,2) inj by (force simp: distinct_map_filter)
qed

text \<open>The objects that an event may change.\<close>

fun touched :: "ftp_worker_event \<Rightarrow> ftp_worker \<Rightarrow> nat set" where
  "touched (Connection4 lip lport rip rport) w =
     {case map_of (ftpSessionMap w) (makeKey lip lport rip rport) of None \<Rightarrow> ftp_next w | Some i \<Rightarrow> i}"
| "touched (Connection6 lip lport rip rport) w =
     {case map_of (ftpSessionMap w) (key6 (Some (lip, lport)) rip rport) of None \<Rightarrow> ftp_next w | Some i \<Rightarrow> i}"
| "touched (Received key data) w = set_option (map_of (ftpSessionMap w) key)"
| "touched (Gone key) w = set_option (map_of (ftpSessionMap w) key)"
| "touched (Callback i ev) w = {i}"
| "touched (StartFtp user listens) w = {}"
| "touched StopFtp w = snd ` set (ftpSessionMap w)"
| "touched GetClientList w = {}"

lemma on_connection_sessions:
  assumes wf: "ftp_wf w" and r: "on_connection welcome key lip w = (w', o')"
  shows "ftp_wf w' \<and> (\<forall>i. i \<noteq> (case map_of (ftpSessionMap w) key of None \<Rightarrow> ftp_next w | Some i \<Rightarrow> i) \<longrightarrow> ftp_object w' i = ftp_object w i)"
proof (cases "map_of (ftpSessionMap w) key")
  case None
  define w1 where "w1 = set_object (ftp_next w) ([], new_FtpSession) (w\<lparr>ftpSessionMap := ftpSessionMap w @ [(key, ftp_next w)], ftp_next := ftp_next w + 1\<rparr>)"
  obtain x o1 where g: "greet welcome lip (ftp_next w) w1 = (set_object (ftp_next w) x w1, o1)" using greet_eq by blast
  have w': "w' = set_object (ftp_next w) x w1" using r None g by (simp add: on_connection_def Let_def w1_def)
  have "key \<notin> fst ` set (ftpSessionMap w)" using None by (simp add: map_of_eq_None_iff)
  then have "ftp_wf w1" using wf unfolding w1_def ftp_wf_def no_socket_def by auto
  then have "ftp_wf w'" unfolding w' by (rule wf_set_object) (simp add: w1_def)
  then show ?thesis using None by (simp add: w' w1_def)
next
  case (Some i)
  obtain x o1 where c: "close_object i w = (set_object i x w, o1)" "controlSocket (snd x) = None" using close_object_eq by blast
  define w1 where "w1 = (set_object i x w)\<lparr>ftpSessionMap := AList.delete key (ftpSessionMap w) @ [(key, i)]\<rparr>"
  obtain y o2 where g: "greet welcome lip i w1 = (set_object i y w1, o2)" using greet_eq by blast
  have w': "w' = set_object i y w1" using r Some c g by (simp add: on_connection_def w1_def)
  have i: "i < ftp_next w" using wf map_of_id [OF Some] unfolding ftp_wf_def by blast
  have d: "snd ` set (AList.delete key (ftpSessionMap w)) = snd ` set (ftpSessionMap w) - {i}"
    "distinct (map snd (AList.delete key (ftpSessionMap w)))" "distinct (map fst (AList.delete key (ftpSessionMap w)))"
    "key \<notin> fst ` set (AList.delete key (ftpSessionMap w))"
    using delete_ids [OF _ _ Some] wf by (simp_all add: ftp_wf_def)
  have "ftp_wf w1" using wf d i unfolding w1_def ftp_wf_def no_socket_def by (auto simp: c(2))
  then have "ftp_wf w'" unfolding w' by (rule wf_set_object) (simp add: w1_def)
  then show ?thesis using Some by (simp add: w' w1_def)
qed

lemma on_data_sessions:
  assumes wf: "ftp_wf w" and r: "on_data key data w = (w', o')"
  shows "ftp_wf w' \<and> (\<forall>i. i \<notin> set_option (map_of (ftpSessionMap w) key) \<longrightarrow> ftp_object w' i = ftp_object w i)"
proof (cases "map_of (ftpSessionMap w) key")
  case (Some i)
  then obtain x where "w' = set_object i x w" using r by (auto simp: on_data_def split: prod.splits)
  then show ?thesis using Some wf_set_object [OF wf, of i x] map_of_id [OF Some] by simp
qed (use r wf in \<open>simp add: on_data_def\<close>)

lemma on_gone_sessions:
  assumes wf: "ftp_wf w" and r: "on_gone key w = (w', o')"
  shows "ftp_wf w' \<and> (\<forall>i. i \<notin> set_option (map_of (ftpSessionMap w) key) \<longrightarrow> ftp_object w' i = ftp_object w i)"
proof (cases "map_of (ftpSessionMap w) key")
  case (Some i)
  obtain x o1 where c: "close_object i w = (set_object i x w, o1)" "controlSocket (snd x) = None" using close_object_eq by blast
  have w': "w' = (set_object i x w)\<lparr>ftpSessionMap := AList.delete key (ftpSessionMap w)\<rparr>"
    using r Some c by (simp add: on_gone_def)
  have d: "snd ` set (AList.delete key (ftpSessionMap w)) = snd ` set (ftpSessionMap w) - {i}"
    "distinct (map snd (AList.delete key (ftpSessionMap w)))" "distinct (map fst (AList.delete key (ftpSessionMap w)))"
    using delete_ids [OF _ _ Some] wf by (simp_all add: ftp_wf_def)
  have "ftp_wf w'" using wf d unfolding w' ftp_wf_def no_socket_def by (auto simp: c(2))
  then show ?thesis using Some by (simp add: w')
qed (use r wf in \<open>simp add: on_gone_def\<close>)

lemma on_callback_sessions:
  assumes wf: "ftp_wf w" and r: "on_callback i ev w = (w', o')"
  shows "ftp_wf w' \<and> (\<forall>j. j \<noteq> i \<longrightarrow> ftp_object w' j = ftp_object w j)"
proof (cases "i < ftp_next w")
  case True
  obtain buf s where o: "ftp_object w i = (buf, s)" by fastforce
  obtain s1 o1 e where st: "ftp_event_step (userConfig w) ev s = (s1, o1, e)" by (metis prod_cases3)
  have w': "w' = set_object i (buf, s1) w" using r True o st by (simp add: on_callback_def)
  have "i \<in> snd ` set (ftpSessionMap w) \<or> controlSocket s1 = None"
    using wf event_socket [OF st] o by (auto simp: ftp_wf_def no_socket_def)
  then show ?thesis using wf_set_object [OF wf, of i "(buf, s1)"] by (simp add: w')
qed (use r wf in \<open>simp add: on_callback_def\<close>)

lemma close_all_objects:
  "close_all is w = (w', o') \<Longrightarrow> ftpSessionMap w' = ftpSessionMap w \<and> ftp_next w' = ftp_next w \<and>
    (\<forall>i. i \<in> set is \<longrightarrow> no_socket w' i) \<and> (\<forall>i. i \<notin> set is \<longrightarrow> ftp_object w' i = ftp_object w i)"
proof (induction "is" arbitrary: w w' o')
  case (Cons i "is")
  obtain x o1 where c: "close_object i w = (set_object i x w, o1)" "controlSocket (snd x) = None" using close_object_eq by blast
  obtain w2 o2 where r: "close_all is (set_object i x w) = (w2, o2)" by fastforce
  have w': "w' = w2" using Cons.prems c r by simp
  note IH = Cons.IH [OF r]
  have "no_socket w2 i" using IH c(2) by (cases "i \<in> set is") (simp_all add: no_socket_def)
  then show ?case using IH by (auto simp: w')
qed simp

lemma stopFtp_sessions:
  assumes wf: "ftp_wf w" and r: "stopFtp w = (w', o')"
  shows "ftp_wf w' \<and> (\<forall>i. no_socket w' i) \<and> (\<forall>i. i \<notin> snd ` set (ftpSessionMap w) \<longrightarrow> ftp_object w' i = ftp_object w i)"
proof -
  obtain w1 o1 where c: "close_all (map snd (ftpSessionMap w)) (w\<lparr>ftp_server := False, userConfig := None\<rparr>) = (w1, o1)" by fastforce
  have w': "w' = w1\<lparr>ftpSessionMap := []\<rparr>" using r c by (simp add: stopFtp_def)
  note a = close_all_objects [OF c]
  have "no_socket w' i" for i
    using a wf unfolding w' by (cases "i \<in> snd ` set (ftpSessionMap w)") (simp_all add: ftp_wf_def no_socket_def)
  then show ?thesis using a by (simp add: ftp_wf_def w')
qed

lemma worker_step_sessions:
  assumes wf: "ftp_wf w" and r: "ftp_worker_step ev w = (w', o')"
  shows "ftp_wf w' \<and> (\<forall>i. i \<notin> touched ev w \<longrightarrow> ftp_object w' i = ftp_object w i)"
proof (cases ev)
  case (Connection4 lip lport rip rport)
  then show ?thesis using on_connection_sessions [OF wf] r by simp
next
  case (Connection6 lip lport rip rport)
  then show ?thesis using on_connection_sessions [OF wf] r by simp
next
  case (Received key data)
  then show ?thesis using on_data_sessions [OF wf] r by simp
next
  case (Gone key)
  then show ?thesis using on_gone_sessions [OF wf] r by simp
next
  case (Callback i ev)
  then show ?thesis using on_callback_sessions [OF wf] r by simp
next
  case StopFtp
  then show ?thesis using stopFtp_sessions [OF wf] r by simp
next
  case (StartFtp user listens)
  then have "w' = w\<lparr>ftp_server := True, userConfig := Some user\<rparr>" using r by (simp add: startFtp_def)
  then show ?thesis using wf by (simp add: ftp_wf_def no_socket_def)
next
  case GetClientList
  then show ?thesis using r wf by (simp add: getClientList_def)
qed

lemma new_worker_wf: "ftp_wf new_FtpWorker"
  by (simp add: ftp_wf_def no_socket_def new_FtpWorker_def ftp_object_def new_FtpSession_def)

lemma worker_run_wf: "ftp_wf w \<Longrightarrow> ftp_wf (fst (ftp_worker_run evs w))"
proof (induction evs arbitrary: w)
  case (Cons ev evs)
  obtain w1 o1 where s: "ftp_worker_step ev w = (w1, o1)" by fastforce
  have "ftp_wf w1" using worker_step_sessions [OF Cons.prems s] by blast
  then show ?case using Cons.IH [of w1] s by (auto split: prod.split)
qed simp

text \<open>C20. The sessions of the FTP server: after any sequence of connections, data, callbacks and requests every key has a session
  object of its own, only these objects have a control socket, an event changes no object but that of its own connection, and
  stopping the server leaves no session with a socket.\<close>

theorem ftp_worker_sessions:
  assumes "w = fst (ftp_worker_run evs new_FtpWorker)"
  shows "ftp_wf w \<and> (\<forall>i. i \<notin> touched ev w \<longrightarrow> ftp_object (fst (ftp_worker_step ev w)) i = ftp_object w i) \<and>
    ftpSessionMap (fst (ftp_worker_step StopFtp w)) = [] \<and> (\<forall>i. no_socket (fst (ftp_worker_step StopFtp w)) i)"
proof -
  have wf: "ftp_wf w" unfolding assms by (rule worker_run_wf [OF new_worker_wf])
  obtain w1 o1 where s: "ftp_worker_step ev w = (w1, o1)" by fastforce
  obtain w2 o2 where t: "stopFtp w = (w2, o2)" by fastforce
  have "ftpSessionMap w2 = []" using t by (auto simp: stopFtp_def split: prod.splits)
  then show ?thesis using wf worker_step_sessions [OF wf s] stopFtp_sessions [OF wf t] s t by simp
qed

definition ex_key :: string where "ex_key = key6 (Some (''::1'', ''21'')) ''::1'' ''5000''"

theorem ftp_worker_sessions_witness:
  "ftp_object (fst (ftp_worker_step (Received ex_key ''NOOP'')
      (fst (ftp_worker_run [Connection4 ''a'' ''21'' ''b'' ''1'', Connection6 ''::1'' ''21'' ''::1'' ''5000''] new_FtpWorker)))) 0 =
   ftp_object (fst (ftp_worker_run [Connection4 ''a'' ''21'' ''b'' ''1'', Connection6 ''::1'' ''21'' ''::1'' ''5000''] new_FtpWorker)) 0"
proof -
  let ?evs = "[Connection4 ''a'' ''21'' ''b'' ''1'', Connection6 ''::1'' ''21'' ''::1'' ''5000'']"
  have "map_of (ftpSessionMap (fst (ftp_worker_run ?evs new_FtpWorker))) ex_key = Some 1" by code_simp
  then have "0 \<notin> touched (Received ex_key ''NOOP'') (fst (ftp_worker_run ?evs new_FtpWorker))" by simp
  then show ?thesis
    using ftp_worker_sessions [of _ ?evs "Received ex_key ''NOOP''", OF refl] by blast
qed

text \<open>A key determines its parts.\<close>

lemma parse_make_key:
  "\<forall>p\<in>{lip, lport, rip, rport}. CHR ''|'' \<notin> set p \<Longrightarrow>
     parseKey (makeKey lip lport rip rport) = [Some lip, Some lport, Some rip, Some rport]"
proof -
  assume p: "\<forall>p\<in>{lip, lport, rip, rport}. CHR ''|'' \<notin> set p"
  have "split_on CHR ''|'' (makeKey lip lport rip rport) = [lip, lport, rip, rport]"
    unfolding makeKey_def by (rule split_on_join) (use p in auto)
  then show ?thesis unfolding parseKey_def by (simp add: numeral_2_eq_2 numeral_3_eq_3)
qed


definition ex_reuse :: "ftp_worker_event list" where
  "ex_reuse = [StartFtp ex_user True, Connection6 ''::1'' ''21'' ''::1'' ''5000'',
     Received ex_key (''USER bob'' @ crlf @ ''PASS pw'' @ crlf @ ''QUIT'' @ crlf), Gone (key6 None ''::1'' ''5000'')]"


end
