(* ===== verification/Ntp_Worker.thy ===== *)
theory Ntp_Worker
  imports Js_Prelude
begin

text \<open>
  The NTP server: \<^verbatim>\<open>electron/worker/services/ntpWorker.js\<close>, with the constants of
  \<^verbatim>\<open>electron/const/ntpConst.js\<close>.  Times are milliseconds and integers, and so are
  the settings; a configuration is the one after merging with the defaults.  The divisions of the
  source are then exact enough: a fraction of a second is a multiple of 1/125 after scaling, far from the rounding error of a
  double, and the product on the way back has at most 42 bits.  The clock readings and the outcome of sending are
  arguments.  Texts for the user are values of \<open>ntp_note\<close>.
\<close>

section \<open>Time formats\<close>

definition NTP_EPOCH_OFFSET_MS :: int where "NTP_EPOCH_OFFSET_MS = 2208988800000"
definition NTP_FRACTION_SCALE :: int where "NTP_FRACTION_SCALE = 4294967296"
definition NTP_SHORT_SCALE :: int where "NTP_SHORT_SCALE = 65536"

text \<open>\<open>x >>> 0\<close>.\<close>

definition uint32 :: "int \<Rightarrow> nat" where
  "uint32 x = nat (x mod 4294967296)"

definition writeTimestamp :: "int \<Rightarrow> buffer" where
  "writeTimestamp ms =
     (let ntpMs = ms + NTP_EPOCH_OFFSET_MS;
          seconds = ntpMs div 1000;
          remainderMs = ntpMs - seconds * 1000;
          fraction = remainderMs * NTP_FRACTION_SCALE div 1000
      in enc32 (uint32 seconds) @ enc32 (uint32 fraction))"

text \<open>\<open>Math.round(a / b)\<close> of integers.\<close>

definition round_div :: "int \<Rightarrow> int \<Rightarrow> int" where
  "round_div a b = (2 * a + b) div (2 * b)"

definition readTimestamp :: "buffer \<Rightarrow> nat \<Rightarrow> int option" where
  "readTimestamp b off =
     (if length b < off + 8 then None
      else let seconds = int (be32 b off); fraction = int (be32 b (off + 4)) in
        if seconds = 0 \<and> fraction = 0 then None
        else Some (seconds * 1000 - NTP_EPOCH_OFFSET_MS + round_div (fraction * 1000) NTP_FRACTION_SCALE))"

definition writeShortFormat :: "int \<Rightarrow> buffer" where
  "writeShortFormat ms = enc32 (nat (min 4294967295 (round_div (max 0 ms * NTP_SHORT_SCALE) 1000)))"

text \<open>A time in a record: a dash, or the ISO text of a date.  Dates end 100 million days from the epoch.\<close>

datatype time_text = Dash | Iso int

definition formatTime :: "int option \<Rightarrow> js_error + time_text" where
  "formatTime ms = (case ms of None \<Rightarrow> Inr Dash
     | Some t \<Rightarrow> if \<bar>t\<bar> \<le> 8640000000000000 then Inr (Iso t) else Inl RangeError)"

section \<open>Configuration\<close>

datatype ntp_mode = RESERVED | SYMMETRIC_ACTIVE | SYMMETRIC_PASSIVE | CLIENT | SERVER | BROADCAST | CONTROL | PRIVATE

definition ntp_modes :: "ntp_mode list" where
  "ntp_modes = [RESERVED, SYMMETRIC_ACTIVE, SYMMETRIC_PASSIVE, CLIENT, SERVER, BROADCAST, CONTROL, PRIVATE]"

fun modeName :: "ntp_mode \<Rightarrow> string" where
  "modeName RESERVED = ''Reserved''"
| "modeName SYMMETRIC_ACTIVE = ''Sym Active''"
| "modeName SYMMETRIC_PASSIVE = ''Sym Passive''"
| "modeName CLIENT = ''Client''"
| "modeName SERVER = ''Server''"
| "modeName BROADCAST = ''Broadcast''"
| "modeName CONTROL = ''Control''"
| "modeName PRIVATE = ''Private''"

record ntp_config =
  n_port :: int
  n_stratum :: int
  n_referenceId :: string
  n_timeOffsetMs :: int
  n_rootDelayMs :: int
  n_rootDispersionMs :: int

definition DEFAULT_NTP_CONFIG :: ntp_config where
  "DEFAULT_NTP_CONFIG = \<lparr>n_port = 123, n_stratum = 8, n_referenceId = ''LOCL'', n_timeOffsetMs = 0, n_rootDelayMs = 0, n_rootDispersionMs = 0\<rparr>"

definition maxHistory :: nat where "maxHistory = 200"
definition ntp_precision :: int where "ntp_precision = -20"

datatype ntp_config_error = NtpPort | NtpStratum | NtpRootDelay | NtpRootDispersion | NtpReferenceId

definition printable :: "char \<Rightarrow> bool" where
  "printable c = (32 \<le> (of_char c :: nat) \<and> (of_char c :: nat) \<le> 126)"

definition ntp_validateConfig :: "ntp_config \<Rightarrow> ntp_config_error + unit" where
  "ntp_validateConfig cfg =
     (let referenceId = trim (n_referenceId cfg) in
      if n_port cfg < 1 \<or> n_port cfg > 65535 then Inl NtpPort
      else if n_stratum cfg < 1 \<or> n_stratum cfg > 15 then Inl NtpStratum
      else if n_rootDelayMs cfg < 0 then Inl NtpRootDelay
      else if n_rootDispersionMs cfg < 0 then Inl NtpRootDispersion
      else if \<not> (1 \<le> length referenceId \<and> length referenceId \<le> 4 \<and> list_all printable referenceId) then Inl NtpReferenceId
      else Inr ())"

definition sanitizeReferenceId :: "string \<Rightarrow> buffer" where
  "sanitizeReferenceId referenceId =
     put (alloc 4) 0 (ascii_bytes (take 4 (if referenceId = [] then n_referenceId DEFAULT_NTP_CONFIG else referenceId)))"

section \<open>The worker\<close>

datatype ntp_status = NtpError | NtpIgnored | NtpReplied

datatype ntp_note = TooShort | OnlyClientMode | SendFailed | RepliedOk | ProcessingFailed js_error

record ntp_entry =
  e_timestamp :: time_text
  e_clientAddress :: string
  e_clientPort :: nat
  e_ipv6 :: bool
  e_version :: "nat option"
  e_mode :: "ntp_mode option"
  e_status :: ntp_status
  e_note :: ntp_note
  e_originateTime :: time_text
  e_receiveTime :: time_text
  e_transmitTime :: time_text
  e_clientTransmitTime :: time_text
  e_packetLength :: nat
  e_leapIndicator :: "nat option"

record ntp_worker =
  ntp_server :: bool
  ntp_server6 :: bool
  ntpConfig :: "ntp_config option"
  requestHistory :: "(nat \<times> ntp_entry) list"
  requestCounter :: nat

definition new_NtpWorker :: ntp_worker where
  "new_NtpWorker = \<lparr>ntp_server = False, ntp_server6 = False, ntpConfig = None, requestHistory = [], requestCounter = 0\<rparr>"

text \<open>What the callback of \<open>send\<close> keeps of a request.\<close>

record ntp_request =
  q_receivedAt :: int
  q_address :: string
  q_port :: nat
  q_ipv6 :: bool
  q_version :: nat
  q_mode :: ntp_mode
  q_client :: "int option"
  q_serverClock :: int
  q_transmitAt :: int
  q_length :: nat
  q_leap :: nat

datatype ntp_out =
    NtpSend bool buffer ntp_request
  | RequestReceived "nat \<times> ntp_entry" nat
  | HistoryCleared
  | ServerStatus bool nat
  | NtpList "(nat \<times> ntp_entry) list"

type_synonym ntp_did = "ntp_worker \<times> ntp_out list \<times> js_error option"

definition recordRequest :: "ntp_entry \<Rightarrow> ntp_worker \<Rightarrow> ntp_worker \<times> ntp_out list" where
  "recordRequest entry w =
     (let i = requestCounter w + 1; h = take maxHistory ((i, entry) # requestHistory w) in
      (w\<lparr>requestCounter := i, requestHistory := h\<rparr>, [RequestReceived (i, entry) (length h)]))"

text \<open>An entry without the parts of the packet.\<close>

definition bare_entry :: "time_text \<Rightarrow> string \<Rightarrow> nat \<Rightarrow> bool \<Rightarrow> ntp_note \<Rightarrow> nat \<Rightarrow> ntp_entry" where
  "bare_entry t addr prt v6 note len =
     \<lparr>e_timestamp = t, e_clientAddress = addr, e_clientPort = prt, e_ipv6 = v6, e_version = None, e_mode = None,
      e_status = NtpError, e_note = note, e_originateTime = Dash, e_receiveTime = Dash, e_transmitTime = Dash,
      e_clientTransmitTime = Dash, e_packetLength = len, e_leapIndicator = None\<rparr>"

definition writeUInt8 :: "int \<Rightarrow> js_error + buffer" where
  "writeUInt8 x = (if 0 \<le> x \<and> x \<le> 255 then Inr (enc8 (nat x)) else Inl RangeError)"

definition build_response :: "ntp_config \<Rightarrow> buffer \<Rightarrow> nat \<Rightarrow> int \<Rightarrow> int \<Rightarrow> js_error + buffer" where
  "build_response cfg message responseVersion serverClock transmitAt =
     bindE (writeUInt8 (n_stratum cfg)) (\<lambda>stratum. Inr
       (enc8 (responseVersion * 8 + 4) @ stratum @ [message ! 2] @ enc8 (nat (ntp_precision mod 256)) @
        writeShortFormat (n_rootDelayMs cfg) @ writeShortFormat (n_rootDispersionMs cfg) @
        sanitizeReferenceId (n_referenceId cfg) @ writeTimestamp serverClock @ subarray message 40 48 @
        writeTimestamp serverClock @ writeTimestamp transmitAt))"

text \<open>The two readings of the clock are \<open>now1\<close> and \<open>now2\<close>.  Exceptions are recorded; without a configuration the exception is outside
  of the \<open>try\<close> block.\<close>

definition ntp_client_mode :: "buffer \<Rightarrow> ntp_mode" where
  "ntp_client_mode message = ntp_modes ! (unat (message ! 0) mod 8)"

definition ntp_version :: "buffer \<Rightarrow> nat" where
  "ntp_version message = unat (message ! 0) div 8 mod 8"

definition answer_version :: "nat \<Rightarrow> nat" where
  "answer_version version = (if 1 \<le> version \<and> version \<le> 4 then version else 4)"

definition handleNtpMessage :: "int \<Rightarrow> int \<Rightarrow> buffer \<Rightarrow> string \<Rightarrow> nat \<Rightarrow> bool \<Rightarrow> ntp_worker \<Rightarrow> ntp_did" where
  "handleNtpMessage now1 now2 message addr prt v6 w = (case ntpConfig w of
      None \<Rightarrow> (w, [], Some TypeError)
    | Some cfg \<Rightarrow>
      (let serverClock = now1 + n_timeOffsetMs cfg;
           rec = (\<lambda>e. case recordRequest e w of (w1, o1) \<Rightarrow> (w1, o1, None));
           failed = (\<lambda>err. case formatTime (Some now1) of
               Inl e \<Rightarrow> (w, [], Some e)
             | Inr t \<Rightarrow> rec (bare_entry t addr prt v6 (ProcessingFailed err) (length message)))
       in
       if length message < 48 then
         (case formatTime (Some now1) of Inl e \<Rightarrow> failed e | Inr t \<Rightarrow> rec (bare_entry t addr prt v6 TooShort (length message)))
       else
         (let leap = unat (message ! 0) div 64;
              version = ntp_version message;
              mode = ntp_client_mode message;
              client = readTimestamp message 40
          in if mode \<noteq> CLIENT then
               (case formatTime (Some now1) of Inl e \<Rightarrow> failed e | Inr t \<Rightarrow>
                case formatTime client of Inl e \<Rightarrow> failed e | Inr ct \<Rightarrow>
                  rec ((bare_entry t addr prt v6 OnlyClientMode (length message))
                    \<lparr>e_version := Some version, e_mode := Some mode, e_status := NtpIgnored, e_clientTransmitTime := ct,
                     e_leapIndicator := Some leap\<rparr>))
             else
               (let transmitAt = now2 + n_timeOffsetMs cfg in
                case build_response cfg message (answer_version version) serverClock transmitAt of
                  Inl e \<Rightarrow> failed e
                | Inr response \<Rightarrow>
                    if v6 \<and> ntp_server6 w \<or> ntp_server w then
                      (w, [NtpSend (v6 \<and> ntp_server6 w) response
                        \<lparr>q_receivedAt = now1, q_address = addr, q_port = prt, q_ipv6 = v6, q_version = answer_version version,
                         q_mode = mode, q_client = client, q_serverClock = serverClock, q_transmitAt = transmitAt,
                         q_length = length message, q_leap = leap\<rparr>], None)
                    else failed TypeError))))"

text \<open>The callback of \<open>send\<close>; its exceptions are not caught.\<close>

definition sent_entry :: "bool \<Rightarrow> ntp_request \<Rightarrow> js_error + ntp_entry" where
  "sent_entry ok q =
     bindE (formatTime (Some (q_receivedAt q))) (\<lambda>t. bindE (formatTime (q_client q)) (\<lambda>ct.
     bindE (formatTime (Some (q_serverClock q))) (\<lambda>rt. bindE (formatTime (Some (q_transmitAt q))) (\<lambda>tt. Inr
       \<lparr>e_timestamp = t, e_clientAddress = q_address q, e_clientPort = q_port q, e_ipv6 = q_ipv6 q, e_version = Some (q_version q),
        e_mode = Some (q_mode q), e_status = (if ok then NtpReplied else NtpError), e_note = (if ok then RepliedOk else SendFailed),
        e_originateTime = ct, e_receiveTime = rt, e_transmitTime = tt, e_clientTransmitTime = ct,
        e_packetLength = q_length q, e_leapIndicator = Some (q_leap q)\<rparr>))))"

definition ntp_sent :: "bool \<Rightarrow> ntp_request \<Rightarrow> ntp_worker \<Rightarrow> ntp_did" where
  "ntp_sent ok q w = (case sent_entry ok q of
      Inl e \<Rightarrow> (w, [], Some e)
    | Inr entry \<Rightarrow> (case recordRequest entry w of (w1, o1) \<Rightarrow> (w1, o1, None)))"

section \<open>Requests of the application\<close>

text \<open>\<open>bound4\<close> and \<open>bound6\<close>: the sockets could be bound.  The IPv6 socket is optional.\<close>

definition closeSockets :: "ntp_worker \<Rightarrow> ntp_worker" where
  "closeSockets w = w\<lparr>ntp_server := False, ntp_server6 := False\<rparr>"

datatype ntp_start = NtpStarted | NtpRefused ntp_config_error | NtpBindFailed

definition startNtp :: "bool \<Rightarrow> bool \<Rightarrow> ntp_config \<Rightarrow> ntp_worker \<Rightarrow> ntp_worker \<times> ntp_start \<times> ntp_out list" where
  "startNtp bound4 bound6 cfg w =
     (let w1 = w\<lparr>ntpConfig := Some cfg\<rparr> in
      case ntp_validateConfig cfg of
        Inl e \<Rightarrow> (closeSockets w1, NtpRefused e, [])
      | Inr _ \<Rightarrow>
          (let w2 = w1\<lparr>requestHistory := [], requestCounter := 0\<rparr> in
           if bound4 then (w2\<lparr>ntp_server := True, ntp_server6 := bound6\<rparr>, NtpStarted, [ServerStatus True 0])
           else (closeSockets w2, NtpBindFailed, [])))"

definition getRequestList :: "ntp_worker \<Rightarrow> ntp_worker \<times> ntp_out list" where
  "getRequestList w = (w, [NtpList (requestHistory w)])"

definition clearRequestHistory :: "ntp_worker \<Rightarrow> ntp_worker \<times> ntp_out list" where
  "clearRequestHistory w = (w\<lparr>requestHistory := []\<rparr>, [HistoryCleared])"

definition stopNtp :: "ntp_worker \<Rightarrow> ntp_worker \<times> ntp_out list" where
  "stopNtp w = ((closeSockets w)\<lparr>requestHistory := [], ntpConfig := None\<rparr>, [ServerStatus False 0])"

datatype ntp_event =
    NtpMessage int int buffer string nat bool
  | NtpSent bool ntp_request
  | StartNtp bool bool ntp_config
  | GetRequestList
  | ClearRequestHistory
  | StopNtp

fun ntp_step :: "ntp_event \<Rightarrow> ntp_worker \<Rightarrow> ntp_worker" where
  "ntp_step (NtpMessage now1 now2 message addr prt v6) w = fst (handleNtpMessage now1 now2 message addr prt v6 w)"
| "ntp_step (NtpSent ok q) w = fst (ntp_sent ok q w)"
| "ntp_step (StartNtp b4 b6 cfg) w = fst (startNtp b4 b6 cfg w)"
| "ntp_step GetRequestList w = fst (getRequestList w)"
| "ntp_step ClearRequestHistory w = fst (clearRequestHistory w)"
| "ntp_step StopNtp w = fst (stopNtp w)"

section \<open>Time formats\<close>

lemma uint32_less [simp]: "uint32 x < 4294967296"
  by (simp add: uint32_def nat_less_iff)

lemma length_writeTimestamp [simp]: "length (writeTimestamp ms) = 8"
  by (simp add: writeTimestamp_def Let_def)

lemma fraction_back:
  assumes "0 \<le> r" "r < 1000"
  shows "round_div ((r * 4294967296 div 1000) * 1000) 4294967296 = (r :: int)"
proof -
  define f where "f = r * 4294967296 div 1000"
  have f: "f * 1000 \<le> r * 4294967296" "r * 4294967296 < f * 1000 + 1000" unfolding f_def by linarith+
  show ?thesis unfolding f_def [symmetric] round_div_def
    by (rule int_div_pos_eq [where r = "2 * (f * 1000) + 4294967296 - (2 * 4294967296) * r"]) (use f in linarith)+
qed

lemma fraction_bounds:
  assumes "0 \<le> r" "r < (1000 :: int)"
  shows "0 \<le> r * 4294967296 div 1000" "r * 4294967296 div 1000 < 4294967296" "r * 4294967296 div 1000 = 0 \<longleftrightarrow> r = 0"
  using assms by (linarith | auto)+

text \<open>C23. NTP time stamps: a time that is written and read again is the same up to the period of the 32-bit seconds (about 136 years): within
  1900 and 2036 it is exact to the millisecond, a later time comes back as one in the first period, and the start of a
  period is read as no time.\<close>

theorem ntp_timestamp_roundtrip:
  "readTimestamp (pre @ writeTimestamp ms @ post) (length pre) =
     (let t = (ms + NTP_EPOCH_OFFSET_MS) mod 4294967296000 in if t = 0 then None else Some (t - NTP_EPOCH_OFFSET_MS))"
proof -
  define n where "n = ms + NTP_EPOCH_OFFSET_MS"
  define r where "r = n mod 1000"
  have r: "0 \<le> r" "r < 1000" "n - n div 1000 * 1000 = r" unfolding r_def by (simp_all add: minus_div_mult_eq_mod)
  have w: "writeTimestamp ms = enc32 (uint32 (n div 1000)) @ enc32 (uint32 (r * 4294967296 div 1000))"
    unfolding writeTimestamp_def Let_def n_def [symmetric] r(3) NTP_FRACTION_SCALE_def by (rule refl)
  have fr: "int (uint32 (r * 4294967296 div 1000)) = r * 4294967296 div 1000"
    using fraction_bounds [OF r(1,2)] by (simp add: uint32_def)
  have sec: "int (uint32 (n div 1000)) = n div 1000 mod 4294967296" by (simp add: uint32_def)
  have t: "n mod 4294967296000 = (n div 1000 mod 4294967296) * 1000 + r"
    unfolding r_def using mod_mult2_eq' [of n 1000 4294967296] by (simp add: mult.commute)
  have zero: "n mod 4294967296000 = 0 \<longleftrightarrow> n div 1000 mod 4294967296 = 0 \<and> r = 0"
    unfolding t using r(1) pos_mod_sign [of 4294967296 "n div 1000"] by auto
  have rd: "be32 (pre @ writeTimestamp ms @ post) (length pre) = uint32 (n div 1000)"
    "be32 (pre @ writeTimestamp ms @ post) (length pre + 4) = uint32 (r * 4294967296 div 1000)"
    unfolding w by (simp_all add: be32_append2 be32_enc32)
  show ?thesis unfolding readTimestamp_def rd Let_def n_def [symmetric] zero fr sec
    using fraction_bounds(3) [OF r(1,2)] fraction_back [OF r(1,2)] t by (simp add: NTP_FRACTION_SCALE_def)
qed

section \<open>Replies\<close>

lemma length_writeShortFormat [simp]: "length (writeShortFormat ms) = 4"
  by (simp add: writeShortFormat_def)

lemma length_sanitizeReferenceId [simp]: "length (sanitizeReferenceId r) = 4"
  by (simp add: sanitizeReferenceId_def DEFAULT_NTP_CONFIG_def)

lemma answer_version_bounds: "1 \<le> answer_version v" "answer_version v \<le> 4"
  by (simp_all add: answer_version_def)

lemma build_response_fields:
  assumes "build_response cfg message v serverClock transmitAt = Inr response" "48 \<le> length message" "v \<le> 4"
  shows "length response = 48 \<and> unat (response ! 0) = v * 8 + 4 \<and> int (unat (response ! 1)) = n_stratum cfg \<and>
    response ! 2 = message ! 2 \<and> subarray response 16 24 = writeTimestamp serverClock \<and>
    subarray response 24 32 = subarray message 40 48 \<and> subarray response 32 40 = writeTimestamp serverClock \<and>
    subarray response 40 48 = writeTimestamp transmitAt"
proof -
  have st: "0 \<le> n_stratum cfg" "n_stratum cfg \<le> 255"
    using assms(1) by (auto simp: build_response_def writeUInt8_def split: if_splits)
  have resp: "response = (enc8 (v * 8 + 4) @ enc8 (nat (n_stratum cfg)) @ [message ! 2] @ enc8 (nat (ntp_precision mod 256))) @
      (writeShortFormat (n_rootDelayMs cfg) @ writeShortFormat (n_rootDispersionMs cfg) @ sanitizeReferenceId (n_referenceId cfg)) @
      writeTimestamp serverClock @ subarray message 40 48 @ writeTimestamp serverClock @ writeTimestamp transmitAt"
    using assms(1) st by (simp add: build_response_def writeUInt8_def)
  have l: "length (subarray message 40 48) = 8" using assms(2) by (simp add: length_subarray)
  have head: "unat (response ! 0) = v * 8 + 4" "int (unat (response ! 1)) = n_stratum cfg" "response ! 2 = message ! 2"
  proof -
    have at: "response ! 0 = enc8 (v * 8 + 4) ! 0" "response ! 1 = enc8 (nat (n_stratum cfg)) ! 0" "response ! 2 = message ! 2"
      unfolding resp by (simp_all add: enc8_def)
    have e: "unat (enc8 n ! 0) = n mod 256" for n unfolding enc8_def nth_Cons_0 by (rule unat_of_nat_byte)
    show "unat (response ! 0) = v * 8 + 4" "int (unat (response ! 1)) = n_stratum cfg" "response ! 2 = message ! 2"
      unfolding at e using assms(3) st by simp_all
  qed
  have "length response = 48" unfolding resp using l by simp
  moreover have "subarray response 16 24 = writeTimestamp serverClock" "subarray response 24 32 = subarray message 40 48"
    "subarray response 32 40 = writeTimestamp serverClock" "subarray response 40 48 = writeTimestamp transmitAt"
    unfolding resp using l by (simp_all add: subarray_def enc8_def)
  ultimately show ?thesis using head by blast
qed

text \<open>C22. NTP replies: to a request of at least 48 bytes in client mode the server sends one packet of 48 bytes in server mode, with the
  version of the request (4 if it is not 1 to 4), the configured stratum, the poll interval and the transmit
  time of the request as originate time, and its own shifted clock as receive and transmit time.\<close>

theorem ntp_reply:
  assumes cfg: "ntpConfig w = Some cfg" "ntp_validateConfig cfg = Inr ()" and on: "ntp_server w"
    and msg: "48 \<le> length message" "ntp_client_mode message = CLIENT"
  shows "\<exists>response q. handleNtpMessage now1 now2 message addr prt v6 w = (w, [NtpSend (v6 \<and> ntp_server6 w) response q], None) \<and>
    q_address q = addr \<and> q_port q = prt \<and> length response = 48 \<and>
    ntp_client_mode response = SERVER \<and> ntp_version response = answer_version (ntp_version message) \<and> unat (response ! 0) div 64 = 0 \<and>
    int (unat (response ! 1)) = n_stratum cfg \<and> response ! 2 = message ! 2 \<and> subarray response 24 32 = subarray message 40 48 \<and>
    subarray response 32 40 = writeTimestamp (now1 + n_timeOffsetMs cfg) \<and> subarray response 40 48 = writeTimestamp (now2 + n_timeOffsetMs cfg)"
proof -
  let ?v = "answer_version (ntp_version message)"
  have "\<not> (n_stratum cfg < 1 \<or> n_stratum cfg > 15)" using cfg(2) by (auto simp: ntp_validateConfig_def Let_def split: if_splits)
  then obtain response where b: "build_response cfg message ?v (now1 + n_timeOffsetMs cfg) (now2 + n_timeOffsetMs cfg) = Inr response"
    by (simp add: build_response_def writeUInt8_def)
  note f = build_response_fields [OF b msg(1) answer_version_bounds(2)]
  obtain v where v: "?v = v" "v \<in> {1, 2, 3, 4}" using answer_version_bounds [of "ntp_version message"] by force
  have "ntp_client_mode response = SERVER \<and> ntp_version response = ?v \<and> unat (response ! 0) div 64 = 0"
    using f v by (auto simp: ntp_client_mode_def ntp_version_def ntp_modes_def)
  moreover have "\<exists>q. handleNtpMessage now1 now2 message addr prt v6 w = (w, [NtpSend (v6 \<and> ntp_server6 w) response q], None) \<and>
      q_address q = addr \<and> q_port q = prt"
    using cfg(1) msg on b by (simp add: handleNtpMessage_def Let_def)
  ultimately show ?thesis using f by blast
qed

definition ex_ntp :: ntp_worker where
  "ex_ntp = fst (startNtp True False DEFAULT_NTP_CONFIG new_NtpWorker)"

theorem ntp_reply_witness:
  "\<exists>response q. handleNtpMessage 1700000000000 1700000000001 (word_of_nat 35 # alloc 47) ''10.0.0.1'' 123 False ex_ntp =
      (ex_ntp, [NtpSend False response q], None) \<and> length response = 48 \<and> int (unat (response ! 1)) = 8"
proof -
  have v: "ntp_validateConfig DEFAULT_NTP_CONFIG = Inr ()" by code_simp
  then have c: "ntpConfig ex_ntp = Some DEFAULT_NTP_CONFIG" "ntp_server ex_ntp"
    by (simp_all add: ex_ntp_def startNtp_def)
  have m: "48 \<le> length (word_of_nat 35 # alloc 47 :: buffer)" "ntp_client_mode (word_of_nat 35 # alloc 47) = CLIENT"
    by (simp_all add: ntp_client_mode_def ntp_modes_def)
  show ?thesis using ntp_reply [OF c(1) v c(2) m, of 1700000000000 1700000000001 "''10.0.0.1''" 123 False]
    by (auto simp: DEFAULT_NTP_CONFIG_def)
qed

section \<open>The request log\<close>

definition ntp_history_ok :: "ntp_worker \<Rightarrow> bool" where
  "ntp_history_ok w \<longleftrightarrow> (let n = length (requestHistory w); c = requestCounter w in
     n \<le> maxHistory \<and> n \<le> c \<and> map fst (requestHistory w) = rev [Suc c - n..<Suc c])"

lemma recordRequest_ok: "ntp_history_ok w \<Longrightarrow> ntp_history_ok (fst (recordRequest e w))"
proof -
  assume ok: "ntp_history_ok w"
  let ?n = "length (requestHistory w)" and ?c = "requestCounter w"
  have h: "map fst ((Suc ?c, e) # requestHistory w) = rev [Suc ?c - ?n..<Suc (Suc ?c)]"
    using ok by (simp add: ntp_history_ok_def Let_def)
  have n: "?n \<le> maxHistory" "?n \<le> ?c" using ok by (simp_all add: ntp_history_ok_def Let_def)
  have start: "Suc ?c - ?n + (Suc (Suc ?c) - (Suc ?c - ?n) - maxHistory) = Suc (Suc ?c) - min maxHistory (Suc ?n)"
    using n unfolding min_def by (cases "maxHistory \<le> Suc ?n") arith+
  have "map fst (take maxHistory ((Suc ?c, e) # requestHistory w)) = take maxHistory (rev [Suc ?c - ?n..<Suc (Suc ?c)])"
    by (simp only: take_map [symmetric] h)
  also have "\<dots> = rev [Suc (Suc ?c) - min maxHistory (Suc ?n)..<Suc (Suc ?c)]"
    unfolding take_rev length_upt drop_upt start by (rule refl)
  finally have m: "map fst (take maxHistory ((Suc ?c, e) # requestHistory w)) = rev [Suc (Suc ?c) - min maxHistory (Suc ?n)..<Suc (Suc ?c)]" .
  have l: "length (take maxHistory ((Suc ?c, e) # requestHistory w)) = min maxHistory (Suc ?n)" by (simp add: min.commute)
  have r: "fst (recordRequest e w) = w\<lparr>requestCounter := Suc ?c, requestHistory := take maxHistory ((Suc ?c, e) # requestHistory w)\<rparr>"
    by (simp add: recordRequest_def Let_def)
  have f: "requestHistory (fst (recordRequest e w)) = take maxHistory ((Suc ?c, e) # requestHistory w)"
    "requestCounter (fst (recordRequest e w)) = Suc ?c" unfolding r by simp_all
  show ?thesis unfolding ntp_history_ok_def f Let_def l m using n by auto
qed

lemma handleNtpMessage_ok: "ntp_history_ok w \<Longrightarrow> ntp_history_ok (fst (handleNtpMessage now1 now2 message addr prt v6 w))"
  by (auto simp: handleNtpMessage_def Let_def case_prod_unfold recordRequest_ok split: option.split sum.split)

lemma ntp_step_ok: "ntp_history_ok w \<Longrightarrow> ntp_history_ok (ntp_step ev w)"
proof (cases ev)
  case (NtpMessage now1 now2 message addr prt v6)
  then show "ntp_history_ok w \<Longrightarrow> ntp_history_ok (ntp_step ev w)" by (simp add: handleNtpMessage_ok)
next
  case (NtpSent ok q)
  then show "ntp_history_ok w \<Longrightarrow> ntp_history_ok (ntp_step ev w)"
    by (auto simp: ntp_sent_def case_prod_unfold recordRequest_ok split: sum.split)
qed (auto simp: startNtp_def closeSockets_def getRequestList_def clearRequestHistory_def stopNtp_def ntp_history_ok_def Let_def split: sum.split)

text \<open>C0. The log of the NTP server: after any sequence of packets and requests it holds at most 200 entries, newest first, and their numbers are the
  last ones without a gap, down from the counter.\<close>

theorem ntp_history:
  "length (requestHistory (fold ntp_step evs new_NtpWorker)) \<le> 200 \<and>
   map fst (requestHistory (fold ntp_step evs new_NtpWorker)) =
     rev [Suc (requestCounter (fold ntp_step evs new_NtpWorker)) - length (requestHistory (fold ntp_step evs new_NtpWorker))..<
          Suc (requestCounter (fold ntp_step evs new_NtpWorker))]"
proof -
  have "ntp_history_ok w \<Longrightarrow> ntp_history_ok (fold ntp_step evs w)" for w
    by (induction evs arbitrary: w) (simp_all add: ntp_step_ok)
  moreover have "ntp_history_ok new_NtpWorker" by (simp add: ntp_history_ok_def new_NtpWorker_def)
  ultimately show ?thesis by (auto simp: ntp_history_ok_def Let_def maxHistory_def)
qed

text \<open>A time offset that the configuration check accepts makes the callback of the first reply throw.\<close>

theorem ntp_offset_throws:
  "ntp_validateConfig (DEFAULT_NTP_CONFIG\<lparr>n_timeOffsetMs := 10 ^ 16\<rparr>) = Inr () \<and>
   (\<bar>q_serverClock q\<bar> > 8640000000000000 \<longrightarrow> (\<exists>e. ntp_sent ok q w = (w, [], Some e)))"
proof
  show "ntp_validateConfig (DEFAULT_NTP_CONFIG\<lparr>n_timeOffsetMs := 10 ^ 16\<rparr>) = Inr ()" by code_simp
  show "\<bar>q_serverClock q\<bar> > 8640000000000000 \<longrightarrow> (\<exists>e. ntp_sent ok q w = (w, [], Some e))"
    by (auto simp: ntp_sent_def sent_entry_def formatTime_def bindE_def split: sum.splits option.splits if_splits)
qed

end
