(* ===== verification/Stream_Framing.thy ===== *)
theory Stream_Framing
  imports Js_Prelude
begin

text \<open>
  The receive loops of the stream protocols (NETCONF, RPKI-RTR, BGP) share one shape:
  append the new bytes to a buffer, then repeat a step that waits for more bytes, fails,
  or consumes a run of bytes and perhaps emits a message.  \<open>drive\<close> is that loop; it
  is a partial function, so a loop that never ends is \<open>None\<close>.  The locale
  \<open>deframer\<close> is the contract a step has to meet; from it follow, once for all
  protocols, that the loop ends and that the way the network cuts the stream into
  pieces does not change the messages (\<open>feed_drive\<close>).
\<close>

datatype ('s, 'm, 'e) verdict =
    More
  | Fail 'e
  | Advance "'m option" 's buffer

definition emitted :: "'m option \<Rightarrow> 'm list" where
  "emitted mo = (case mo of None \<Rightarrow> [] | Some m \<Rightarrow> [m])"

definition limit_reached :: "nat option \<Rightarrow> 'm list \<Rightarrow> bool" where
  "limit_reached lim acc = (case lim of None \<Rightarrow> False | Some n \<Rightarrow> n \<le> length acc)"

partial_function (option) drive ::
  "('s \<Rightarrow> buffer \<Rightarrow> ('s, 'm, 'e) verdict) \<Rightarrow> nat option \<Rightarrow> 's \<Rightarrow> buffer \<Rightarrow> 'm list
    \<Rightarrow> ('s \<times> buffer \<times> 'm list \<times> 'e option) option" where
  "drive step lim s b acc =
     (if limit_reached lim acc then Some (s, b, acc, None)
      else (case step s b of
              More \<Rightarrow> Some (s, b, acc, None)
            | Fail e \<Rightarrow> Some (s, b, acc, Some e)
            | Advance mo s' r \<Rightarrow> drive step lim s' r (acc @ emitted mo)))"

text \<open>Feeding a stream that arrives as a list of chunks, one call of the loop per chunk;
  an error ends the connection, so nothing is fed after it.\<close>

fun feed :: "('s \<Rightarrow> buffer \<Rightarrow> ('s, 'm, 'e) verdict) \<Rightarrow> 's \<Rightarrow> buffer \<Rightarrow> buffer list
    \<Rightarrow> ('s \<times> buffer \<times> 'm list \<times> 'e option) option" where
  "feed step s b [] = Some (s, b, [], None)"
| "feed step s b (c # cs) =
     (case drive step None s (b @ c) [] of
        None \<Rightarrow> None
      | Some (s', b', ms, Some e) \<Rightarrow> Some (s', b' @ concat cs, ms, Some e)
      | Some (s', b', ms, None) \<Rightarrow>
          map_option (\<lambda>(t, r, ms', e). (t, r, ms @ ms', e)) (feed step s' b' cs))"

text \<open>The same at the level of an object with a \<open>push\<close> method, which either returns
  messages or throws: the caller pushes one piece after the other and stops at the
  first exception.\<close>

fun push_all :: "('f \<Rightarrow> buffer \<Rightarrow> ('f \<times> ('e + 'm list)) option) \<Rightarrow> 'f \<Rightarrow> buffer list
    \<Rightarrow> ('f \<times> 'm list \<times> 'e option) option" where
  "push_all push f [] = Some (f, [], None)"
| "push_all push f (c # cs) =
     (case push f c of
        None \<Rightarrow> None
      | Some (f', Inl e) \<Rightarrow> Some (f', [], Some e)
      | Some (f', Inr ms) \<Rightarrow>
          map_option (\<lambda>(g, ms', e). (g, ms @ ms', e)) (push_all push f' cs))"

lemma drive_More: "step s b = More \<Longrightarrow> drive step lim s b acc = Some (s, b, acc, None)"
  by (simp add: drive.simps)

lemma drive_Fail:
  "step s b = Fail e \<Longrightarrow> drive step None s b acc = Some (s, b, acc, Some e)"
  by (simp add: drive.simps limit_reached_def)

lemma drive_Advance:
  "step s b = Advance mo s' r \<Longrightarrow>
   drive step None s b acc = drive step None s' r (acc @ emitted mo)"
  by (subst drive.simps) (simp add: limit_reached_def)

lemma emitted_simps [simp]: "emitted None = []" "emitted (Some m) = [m]"
  by (simp_all add: emitted_def)

lemma limit_reached_simps [simp]:
  "\<not> limit_reached None acc" "limit_reached (Some n) acc \<longleftrightarrow> n \<le> length acc"
  by (simp_all add: limit_reached_def)

locale deframer =
  fixes step :: "'s \<Rightarrow> buffer \<Rightarrow> ('s, 'm, 'e) verdict"
    and invar :: "'s \<Rightarrow> bool"
  assumes advance_append:
      "invar s \<Longrightarrow> step s b = Advance mo s' r \<Longrightarrow> step s (b @ x) = Advance mo s' (r @ x)"
    and fail_append: "invar s \<Longrightarrow> step s b = Fail e \<Longrightarrow> step s (b @ x) = Fail e"
    and advance_shrinks: "invar s \<Longrightarrow> step s b = Advance mo s' r \<Longrightarrow> length r < length b"
    and advance_invar: "invar s \<Longrightarrow> step s b = Advance mo s' r \<Longrightarrow> invar s'"
begin

lemma drive_returns:
  "invar s \<Longrightarrow> \<exists>s' b' ms e. drive step lim s b acc = Some (s', b', ms, e) \<and> invar s'"
proof (induction "length b" arbitrary: s b acc rule: less_induct)
  case less
  show ?case
  proof (cases "step s b")
    case (Advance mo s' r)
    then have "\<exists>t b' ms e. drive step lim s' r (acc @ emitted mo) = Some (t, b', ms, e) \<and> invar t"
      using less advance_shrinks advance_invar by blast
    with Advance less.prems show ?thesis
      by (cases "limit_reached lim acc") (auto simp: drive.simps [of step lim s b])
  qed (use less.prems in \<open>auto simp: drive.simps\<close>)
qed

lemma drive_acc:
  "invar s \<Longrightarrow> drive step None s b acc =
     map_option (\<lambda>(s', b', ms, e). (s', b', acc @ ms, e)) (drive step None s b [])"
proof (induction "length b" arbitrary: s b acc rule: less_induct)
  case less
  show ?case
  proof (cases "step s b")
    case (Advance mo s' r)
    note IH = less.hyps [OF advance_shrinks [OF less.prems Advance]
                            advance_invar [OF less.prems Advance]]
    show ?thesis
      unfolding drive_Advance [of step, OF Advance]
      by (subst IH [of "acc @ emitted mo"], subst IH [of "[] @ emitted mo"])
         (simp add: option.map_comp comp_def case_prod_unfold)
  qed (simp_all add: drive_More drive_Fail)
qed

lemma drive_quiescent:
  "invar s \<Longrightarrow> drive step None s b acc = Some (s', b', ms, None) \<Longrightarrow> step s' b' = More"
proof (induction "length b" arbitrary: s b acc rule: less_induct)
  case less
  show ?case
  proof (cases "step s b")
    case (Advance mo t r)
    with less.prems(2) have d: "drive step None t r (acc @ emitted mo) = Some (s', b', ms, None)"
      by (simp add: drive_Advance)
    show ?thesis
      by (rule less.hyps [OF advance_shrinks [OF less.prems(1) Advance]
                             advance_invar [OF less.prems(1) Advance] d])
  qed (use less.prems(2) in \<open>auto simp: drive_More drive_Fail\<close>)
qed

lemma drive_append:
  "invar s \<Longrightarrow> drive step None s (b @ x) acc =
     (case drive step None s b acc of
        None \<Rightarrow> None
      | Some (s', b', ms, Some e) \<Rightarrow> Some (s', b' @ x, ms, Some e)
      | Some (s', b', ms, None) \<Rightarrow> drive step None s' (b' @ x) ms)"
proof (induction "length b" arbitrary: s b acc rule: less_induct)
  case less
  show ?case
  proof (cases "step s b")
    case (Advance mo s' r)
    note IH = less.hyps [OF advance_shrinks [OF less.prems Advance]
                            advance_invar [OF less.prems Advance]]
    show ?thesis
      using IH [of "acc @ emitted mo"] advance_append [OF less.prems Advance, of x] Advance
      by (simp add: drive_Advance)
  next
    case (Fail e)
    then show ?thesis using fail_append [OF less.prems Fail] by (simp add: drive_Fail)
  qed (simp add: drive_More)
qed

lemma drive_rest:
  "invar s \<Longrightarrow> drive step None s b acc = Some (s', b', ms, e) \<Longrightarrow> length b' \<le> length b"
proof (induction "length b" arbitrary: s b acc rule: less_induct)
  case less
  show ?case
  proof (cases "step s b")
    case (Advance mo t r)
    with less.prems(2) have d: "drive step None t r (acc @ emitted mo) = Some (s', b', ms, e)"
      by (simp add: drive_Advance)
    note shrinks = advance_shrinks [OF less.prems(1) Advance]
    from less.hyps [OF shrinks advance_invar [OF less.prems(1) Advance] d] shrinks show ?thesis by simp
  qed (use less.prems(2) in \<open>auto simp: drive_More drive_Fail\<close>)
qed

lemma feed_drive_from:
  "invar s \<Longrightarrow> step s b = More \<Longrightarrow> feed step s b cs = drive step None s (b @ concat cs) []"
proof (induction cs arbitrary: s b)
  case Nil
  then show ?case by (simp add: drive_More)
next
  case (Cons c cs)
  from Cons.prems(1) obtain s' b' ms e where
    d: "drive step None s (b @ c) [] = Some (s', b', ms, e)" and i: "invar s'"
    using drive_returns by blast
  show ?case
  proof (cases e)
    case None
    with d have "step s' b' = More"
      using drive_quiescent [OF Cons.prems(1)] by blast
    with i have "feed step s' b' cs = drive step None s' (b' @ concat cs) []"
      by (rule Cons.IH)
    moreover have "drive step None s (b @ c @ concat cs) [] = drive step None s' (b' @ concat cs) ms"
      using drive_append [OF Cons.prems(1), of "b @ c" "concat cs" "[]"] d None by simp
    ultimately show ?thesis
      using d None drive_acc [OF i, of "b' @ concat cs" ms] by simp
  next
    case (Some a)
    then show ?thesis
      using drive_append [OF Cons.prems(1), of "b @ c" "concat cs" "[]"] d by simp
  qed
qed

lemma drive_sound:
  assumes keep: "\<And>s b mo s' r. P s \<Longrightarrow> step s b = Advance mo s' r \<Longrightarrow>
      P s' \<and> (\<forall>m. mo = Some m \<longrightarrow> Q m)"
  shows "invar s \<Longrightarrow> P s \<Longrightarrow> \<forall>m\<in>set acc. Q m \<Longrightarrow>
    drive step lim s b acc = Some (s', b', ms, e) \<Longrightarrow> P s' \<and> (\<forall>m\<in>set ms. Q m)"
proof (induction "length b" arbitrary: s b acc rule: less_induct)
  case less
  show ?case
  proof (cases "limit_reached lim acc")
    case True
    with less.prems show ?thesis by (simp add: drive.simps)
  next
    case False
    show ?thesis
    proof (cases "step s b")
      case (Advance mo t r)
      with False less.prems(4) have d: "drive step lim t r (acc @ emitted mo) = Some (s', b', ms, e)"
        by (simp add: drive.simps [of step lim s b])
      have "P t" and mo: "\<forall>m. mo = Some m \<longrightarrow> Q m" using keep [OF less.prems(2) Advance] by simp_all
      moreover have "\<forall>m\<in>set (acc @ emitted mo). Q m"
        using less.prems(3) mo by (cases mo) auto
      ultimately show ?thesis
        using less.hyps [OF advance_shrinks [OF less.prems(1) Advance]
            advance_invar [OF less.prems(1) Advance]] d by blast
    qed (use False less.prems in \<open>auto simp: drive.simps\<close>)
  qed
qed

theorem feed_drive:
  "invar s \<Longrightarrow> step s [] = More \<Longrightarrow> feed step s [] cs = drive step None s (concat cs) []"
  using feed_drive_from [of s "[]"] by simp

end

end
