(* ===== verification/Netconf_Framing.thy ===== *)
theory Netconf_Framing
  imports Stream_Framing
begin

text \<open>
  \<^verbatim>\<open>electron/utils/netconf/framing.js\<close>: the two NETCONF message framings of RFC 6242.
  \<open>DelimiterFramer\<close> (base 1.0) ends a message with \<open>]]>]]>\<close>, \<open>ChunkedFramer\<close>
  (base 1.1) sends it in counted chunks.  A framer object is a record; \<open>push\<close> takes
  the object and returns the changed object with either the messages or the error that
  was thrown.  The loop of \<open>push\<close> is \<open>drive\<close> over the step of one iteration.
  JavaScript strings are held in their UTF-8 form, so \<open>Buffer.from(string)\<close> is
  \<open>ascii_bytes\<close>; the decoder \<open>toString(this.encoding)\<close> is the argument
  \<open>decode\<close>.  A numeric option that is absent is \<open>None\<close>, and \<open>maxMessages\<close> is
  \<open>None\<close> for \<open>Infinity\<close>.
\<close>

section \<open>Constants, errors and arguments\<close>

definition NETCONF_10_DELIMITER :: buffer where
  "NETCONF_10_DELIMITER = ascii_bytes '']]>]]>''"

definition DEFAULT_MAX_MESSAGE_SIZE :: nat where
  "DEFAULT_MAX_MESSAGE_SIZE = 64 * 1024 * 1024"

definition DEFAULT_MAX_CHUNK_SIZE :: nat where
  "DEFAULT_MAX_CHUNK_SIZE = 16 * 1024 * 1024"

datatype framing_error =
    NetconfTypeError
  | NETCONF_MESSAGE_TOO_LARGE
  | NETCONF_INVALID_CHUNK_HEADER
  | NETCONF_INVALID_END_MARKER
  | NETCONF_EMPTY_CHUNKED_MESSAGE
  | NETCONF_INVALID_CHUNK_SIZE
  | NETCONF_CHUNK_TOO_LARGE
  | NETCONF_INCOMPLETE_MESSAGE

datatype js_arg = BufferArg buffer | StringArg string | OtherArg

fun toBuffer :: "js_arg \<Rightarrow> framing_error + buffer" where
  "toBuffer (BufferArg b) = Inr b"
| "toBuffer (StringArg s) = Inr (ascii_bytes s)"
| "toBuffer OtherArg = Inl NetconfTypeError"

definition appendBuffer :: "buffer \<Rightarrow> buffer \<Rightarrow> buffer" where
  "appendBuffer current chunk =
     (if current = [] then chunk else if chunk = [] then current else current @ chunk)"

definition or_default :: "nat option \<Rightarrow> nat \<Rightarrow> nat" where
  "or_default opt d = (case opt of None \<Rightarrow> d | Some n \<Rightarrow> if n = 0 then d else n)"

text \<open>\<open>maxMessages\<close> must be a positive integer or \<open>Infinity\<close>.\<close>

definition check_limit :: "int option \<Rightarrow> framing_error + nat option" where
  "check_limit lim =
     (case lim of None \<Rightarrow> Inr None
      | Some n \<Rightarrow> if n \<le> 0 then Inl NetconfTypeError else Inr (Some (nat n)))"

section \<open>Searching a buffer\<close>

fun find_sub :: "'a list \<Rightarrow> 'a list \<Rightarrow> nat option" where
  "find_sub p [] = (if p = [] then Some 0 else None)"
| "find_sub p (x # xs) =
     (if take (length p) (x # xs) = p then Some 0 else map_option Suc (find_sub p xs))"

fun pos_of :: "'a \<Rightarrow> 'a list \<Rightarrow> nat option" where
  "pos_of y [] = None"
| "pos_of y (x # xs) = (if x = y then Some 0 else map_option Suc (pos_of y xs))"

definition indexOf_from :: "'a \<Rightarrow> 'a list \<Rightarrow> nat \<Rightarrow> nat option" where
  "indexOf_from y xs k = map_option (\<lambda>i. i + k) (pos_of y (drop k xs))"

section \<open>The delimiter framing\<close>

record delimiter_framer =
  df_maxMessageSize :: nat
  df_buffer :: buffer

definition new_DelimiterFramer :: "nat option \<Rightarrow> delimiter_framer" where
  "new_DelimiterFramer opt =
     \<lparr>df_maxMessageSize = or_default opt DEFAULT_MAX_MESSAGE_SIZE, df_buffer = []\<rparr>"

definition delimiter_step ::
  "nat \<Rightarrow> unit \<Rightarrow> buffer \<Rightarrow> (unit, buffer, framing_error) verdict" where
  "delimiter_step maxSize _ b =
     (case find_sub NETCONF_10_DELIMITER b of
        None \<Rightarrow> if length b > maxSize + length NETCONF_10_DELIMITER - 1
                then Fail NETCONF_MESSAGE_TOO_LARGE else More
      | Some i \<Rightarrow> if i > maxSize then Fail NETCONF_MESSAGE_TOO_LARGE
                  else Advance (Some (subarray b 0 i)) ()
                         (drop (i + length NETCONF_10_DELIMITER) b))"

definition delimiter_push ::
  "(buffer \<Rightarrow> 'm) \<Rightarrow> delimiter_framer \<Rightarrow> js_arg \<Rightarrow> int option
    \<Rightarrow> (delimiter_framer \<times> (framing_error + 'm list)) option" where
  "delimiter_push decode f chunk maxMessages =
     (case toBuffer chunk of
        Inl e \<Rightarrow> Some (f, Inl e)
      | Inr input \<Rightarrow>
          (case check_limit maxMessages of
             Inl e \<Rightarrow> Some (f, Inl e)
           | Inr lim \<Rightarrow>
               (case drive (delimiter_step (df_maxMessageSize f)) lim ()
                       (appendBuffer (df_buffer f) input) [] of
                  None \<Rightarrow> None
                | Some (_, b, ms, eo) \<Rightarrow>
                    Some (f\<lparr>df_buffer := b\<rparr>,
                          case eo of Some e \<Rightarrow> Inl e | None \<Rightarrow> Inr (map decode ms)))))"

definition delimiter_takeBuffered :: "delimiter_framer \<Rightarrow> delimiter_framer \<times> buffer" where
  "delimiter_takeBuffered f = (f\<lparr>df_buffer := []\<rparr>, df_buffer f)"

definition delimiter_reset :: "delimiter_framer \<Rightarrow> delimiter_framer" where
  "delimiter_reset f = f\<lparr>df_buffer := []\<rparr>"

section \<open>The chunked framing\<close>

record chunk_state =
  messageChunks :: "buffer list"
  messageSize :: nat
  expectedChunkSize :: "nat option"

record chunked_framer =
  cf_maxMessageSize :: nat
  cf_maxChunkSize :: nat
  cf_buffer :: buffer
  cf_state :: chunk_state

definition clean_state :: chunk_state where
  "clean_state = \<lparr>messageChunks = [], messageSize = 0, expectedChunkSize = None\<rparr>"

definition new_ChunkedFramer :: "nat option \<Rightarrow> nat option \<Rightarrow> chunked_framer" where
  "new_ChunkedFramer maxMsg maxChunk =
     (let m = or_default maxMsg DEFAULT_MAX_MESSAGE_SIZE
      in \<lparr>cf_maxMessageSize = m,
          cf_maxChunkSize = or_default maxChunk (min m DEFAULT_MAX_CHUNK_SIZE),
          cf_buffer = [], cf_state = clean_state\<rparr>)"

text \<open>The test \<open>/^[1-9][0-9]*$/\<close> of the chunk size, and \<open>Buffer.concat(list, total)\<close>,
  which cuts or pads the result to the given total.\<close>

definition size_text_ok :: "string \<Rightarrow> bool" where
  "size_text_ok t = (case t of [] \<Rightarrow> False
     | c # r \<Rightarrow> is_digit c \<and> c \<noteq> CHR ''0'' \<and> list_all is_digit r)"

definition concat_total :: "buffer list \<Rightarrow> nat \<Rightarrow> buffer" where
  "concat_total bs n = take n (concat bs @ alloc n)"

definition chunked_step ::
  "nat \<Rightarrow> nat \<Rightarrow> chunk_state \<Rightarrow> buffer \<Rightarrow> (chunk_state, buffer, framing_error) verdict" where
  "chunked_step maxMsg maxChunk s b =
     (case expectedChunkSize s of
        Some n \<Rightarrow>
          if length b < n then More
          else Advance None
                 (s\<lparr>messageChunks := messageChunks s @ [subarray b 0 n],
                    messageSize := messageSize s + length (subarray b 0 n),
                    expectedChunkSize := None\<rparr>)
                 (drop n b)
      | None \<Rightarrow>
          if length b = 0 then More
          else if b ! 0 \<noteq> 0x0a then Fail NETCONF_INVALID_CHUNK_HEADER
          else if length b < 3 then More
          else if b ! 1 \<noteq> 0x23 then Fail NETCONF_INVALID_CHUNK_HEADER
          else if b ! 2 = 0x23 then
            (if length b < 4 then More
             else if b ! 3 \<noteq> 0x0a then Fail NETCONF_INVALID_END_MARKER
             else if messageChunks s = [] then Fail NETCONF_EMPTY_CHUNKED_MESSAGE
             else Advance (Some (concat_total (messageChunks s) (messageSize s)))
                    (s\<lparr>messageChunks := [], messageSize := 0\<rparr>) (drop 4 b))
          else
            (case indexOf_from 0x0a b 2 of
               None \<Rightarrow> if length b > 14 then Fail NETCONF_INVALID_CHUNK_SIZE else More
             | Some lineEnd \<Rightarrow>
                 let sizeText = ascii_text (subarray b 2 lineEnd)
                 in if \<not> size_text_ok sizeText then Fail NETCONF_INVALID_CHUNK_SIZE
                    else let chunkSize = dec_val sizeText
                         in if chunkSize > 0xffffffff then Fail NETCONF_INVALID_CHUNK_SIZE
                            else if chunkSize > maxChunk then Fail NETCONF_CHUNK_TOO_LARGE
                            else if messageSize s + chunkSize > maxMsg
                                 then Fail NETCONF_MESSAGE_TOO_LARGE
                            else Advance None (s\<lparr>expectedChunkSize := Some chunkSize\<rparr>)
                                   (drop (lineEnd + 1) b)))"

definition chunked_push ::
  "(buffer \<Rightarrow> 'm) \<Rightarrow> chunked_framer \<Rightarrow> js_arg \<Rightarrow> int option
    \<Rightarrow> (chunked_framer \<times> (framing_error + 'm list)) option" where
  "chunked_push decode f chunk maxMessages =
     (case toBuffer chunk of
        Inl e \<Rightarrow> Some (f, Inl e)
      | Inr input \<Rightarrow>
          (case check_limit maxMessages of
             Inl e \<Rightarrow> Some (f, Inl e)
           | Inr lim \<Rightarrow>
               (case drive (chunked_step (cf_maxMessageSize f) (cf_maxChunkSize f)) lim
                       (cf_state f) (appendBuffer (cf_buffer f) input) [] of
                  None \<Rightarrow> None
                | Some (s, b, ms, eo) \<Rightarrow>
                    Some (f\<lparr>cf_buffer := b, cf_state := s\<rparr>,
                          case eo of Some e \<Rightarrow> Inl e | None \<Rightarrow> Inr (map decode ms)))))"

definition chunked_takeBuffered ::
  "chunked_framer \<Rightarrow> chunked_framer \<times> (framing_error + buffer)" where
  "chunked_takeBuffered f =
     (if expectedChunkSize (cf_state f) \<noteq> None \<or> 0 < length (messageChunks (cf_state f))
      then (f, Inl NETCONF_INCOMPLETE_MESSAGE)
      else (f\<lparr>cf_buffer := []\<rparr>, Inr (cf_buffer f)))"

definition chunked_reset :: "chunked_framer \<Rightarrow> chunked_framer" where
  "chunked_reset f = f\<lparr>cf_buffer := [], cf_state := clean_state\<rparr>"

section \<open>Encoding\<close>

definition encodeDelimiter :: "js_arg \<Rightarrow> framing_error + buffer" where
  "encodeDelimiter message = bindE (toBuffer message) (\<lambda>body. Inr (body @ NETCONF_10_DELIMITER))"

definition chunk_header :: "nat \<Rightarrow> buffer" where
  "chunk_header n = [0x0a, 0x23] @ ascii_bytes (dec n) @ [0x0a]"

definition end_of_chunks :: buffer where
  "end_of_chunks = [0x0a, 0x23, 0x23, 0x0a]"

function encode_parts :: "nat \<Rightarrow> buffer \<Rightarrow> nat \<Rightarrow> buffer list" where
  "encode_parts csize body offset =
     (if offset < length body \<and> 0 < csize
      then (let chunk = subarray body offset (min (offset + csize) (length body))
            in chunk_header (length chunk) # chunk # encode_parts csize body (offset + csize))
      else [])"
  by pat_completeness auto
termination
  by (relation "measure (\<lambda>(csize, body, offset). length body - offset)") auto

declare encode_parts.simps [simp del]

definition encodeChunked :: "js_arg \<Rightarrow> int option \<Rightarrow> framing_error + buffer" where
  "encodeChunked message chunkSize =
     bindE (toBuffer message) (\<lambda>body.
       if length body = 0 then Inl NETCONF_EMPTY_CHUNKED_MESSAGE
       else let requested = (case chunkSize of None \<Rightarrow> int (length body)
                             | Some n \<Rightarrow> if n = 0 then int (length body) else n)
            in if requested \<le> 0 \<or> requested > 0xffffffff then Inl NetconfTypeError
               else Inr (concat (encode_parts (nat requested) body 0 @ [end_of_chunks])))"

datatype framer = Chunked chunked_framer | Delimited delimiter_framer

definition createFramer ::
  "string \<Rightarrow> nat option \<Rightarrow> nat option \<Rightarrow> framing_error + framer" where
  "createFramer baseVersion maxMsg maxChunk =
     (if baseVersion = ''1.1'' then Inr (Chunked (new_ChunkedFramer maxMsg maxChunk))
      else if baseVersion = ''1.0'' then Inr (Delimited (new_DelimiterFramer maxMsg))
      else Inl NetconfTypeError)"

definition encodeMessage :: "js_arg \<Rightarrow> string \<Rightarrow> int option \<Rightarrow> framing_error + buffer" where
  "encodeMessage message baseVersion chunkSize =
     (if baseVersion = ''1.1'' then encodeChunked message chunkSize
      else if baseVersion = ''1.0'' then encodeDelimiter message
      else Inl NetconfTypeError)"

section \<open>Lemmas on searching\<close>

lemma find_sub_bound: "p \<noteq> [] \<Longrightarrow> find_sub p xs = Some i \<Longrightarrow> i + length p \<le> length xs"
proof (induction xs arbitrary: i)
  case (Cons x xs)
  show ?case
  proof (cases "take (length p) (x # xs) = p")
    case True
    then have "length p \<le> length (x # xs)" by (metis length_take min.cobounded1)
    with True Cons.prems show ?thesis by simp
  next
    case False
    with Cons show ?thesis by auto
  qed
qed simp

lemma find_sub_append:
  "p \<noteq> [] \<Longrightarrow> find_sub p xs = Some i \<Longrightarrow> find_sub p (xs @ ys) = Some i"
proof (induction xs arbitrary: i)
  case (Cons x xs)
  show ?case
  proof (cases "take (length p) (x # xs) = p")
    case True
    then have "length p \<le> length (x # xs)" by (metis length_take min.cobounded1)
    with True have "take (length p) ((x # xs) @ ys) = p" by (simp del: take_Suc_Cons append_Cons)
    with True Cons.prems show ?thesis by simp
  next
    case False
    with Cons.prems obtain j where j: "find_sub p xs = Some j" "i = Suc j" by auto
    have "length p \<le> length (x # xs)"
      using find_sub_bound [OF Cons.prems(1) j(1)] by simp
    with False have "take (length p) ((x # xs) @ ys) \<noteq> p" by (simp del: take_Suc_Cons append_Cons)
    with Cons.IH [OF Cons.prems(1) j(1)] j show ?thesis by simp
  qed
qed simp

lemma find_sub_append_late:
  "p \<noteq> [] \<Longrightarrow> find_sub p xs = None \<Longrightarrow> find_sub p (xs @ ys) = Some i \<Longrightarrow>
   length xs < i + length p"
proof (induction xs arbitrary: i)
  case (Cons x xs)
  then have no: "take (length p) (x # xs) \<noteq> p" and rest: "find_sub p xs = None"
    by (auto split: if_splits)
  show ?case
  proof (cases "take (length p) ((x # xs) @ ys) = p")
    case True
    have "\<not> length p \<le> length (x # xs)"
    proof
      assume "length p \<le> length (x # xs)"
      with True have "take (length p) (x # xs) = p" by (simp del: take_Suc_Cons append_Cons)
      with no show False ..
    qed
    with True Cons.prems show ?thesis by simp
  next
    case False
    with Cons.prems obtain j where "find_sub p (xs @ ys) = Some j" "i = Suc j" by auto
    with Cons.IH [OF Cons.prems(1) rest] show ?thesis by simp
  qed
qed simp

lemma pos_of_bound: "pos_of y xs = Some i \<Longrightarrow> i < length xs"
  by (induction xs arbitrary: i) (auto split: if_splits)

lemma pos_of_append: "pos_of y xs = Some i \<Longrightarrow> pos_of y (xs @ ys) = Some i"
  by (induction xs arbitrary: i) (auto split: if_splits)

lemma pos_of_append_late:
  "pos_of y xs = None \<Longrightarrow> pos_of y (xs @ ys) = Some i \<Longrightarrow> length xs \<le> i"
  by (induction xs arbitrary: i) (auto split: if_splits)

lemma pos_of_first: "y \<notin> set xs \<Longrightarrow> pos_of y (xs @ y # ys) = Some (length xs)"
  by (induction xs) auto

lemma indexOf_from_bound: "indexOf_from y xs k = Some i \<Longrightarrow> k \<le> i \<and> i < length xs"
  by (auto simp: indexOf_from_def dest!: pos_of_bound)

lemma indexOf_from_append:
  "k \<le> length xs \<Longrightarrow> indexOf_from y xs k = Some i \<Longrightarrow> indexOf_from y (xs @ ys) k = Some i"
  by (auto simp: indexOf_from_def dest: pos_of_append)

lemma indexOf_from_append_late:
  "k \<le> length xs \<Longrightarrow> indexOf_from y xs k = None \<Longrightarrow> indexOf_from y (xs @ ys) k = Some i \<Longrightarrow>
   length xs \<le> i"
  by (auto simp: indexOf_from_def dest: pos_of_append_late)

section \<open>The delimiter framing meets the deframer contract\<close>

lemma delimiter_simps [simp]:
  "length NETCONF_10_DELIMITER = 6" "NETCONF_10_DELIMITER \<noteq> []"
  by (simp_all add: NETCONF_10_DELIMITER_def ascii_bytes_def)

interpretation delim: deframer "delimiter_step maxSize" "\<lambda>_. True"
proof
  fix s b mo s' r x
  assume "delimiter_step maxSize s b = Advance mo s' r"
  then obtain i where i: "find_sub NETCONF_10_DELIMITER b = Some i" "i \<le> maxSize"
    "mo = Some (take i b)" "r = drop (i + 6) b"
    by (auto simp: delimiter_step_def buf_simps split: option.splits if_splits)
  have le: "i + 6 \<le> length b" using find_sub_bound [OF _ i(1)] by simp
  have f: "find_sub NETCONF_10_DELIMITER (b @ x) = Some i"
    using i(1) by (intro find_sub_append) simp_all
  show "delimiter_step maxSize s (b @ x) = Advance mo s' (r @ x)"
    using f i le by (simp add: delimiter_step_def buf_simps)
  show "length r < length b" using i le by simp
next
  fix s b e x
  assume "delimiter_step maxSize s b = Fail e"
  then have e: "e = NETCONF_MESSAGE_TOO_LARGE" and
    c: "find_sub NETCONF_10_DELIMITER b = None \<and> maxSize + 5 < length b \<or>
        (\<exists>i. find_sub NETCONF_10_DELIMITER b = Some i \<and> maxSize < i)"
    by (auto simp: delimiter_step_def split: option.splits if_splits)
  from c show "delimiter_step maxSize s (b @ x) = Fail e"
  proof
    assume n: "find_sub NETCONF_10_DELIMITER b = None \<and> maxSize + 5 < length b"
    show ?thesis
    proof (cases "find_sub NETCONF_10_DELIMITER (b @ x)")
      case None
      with n e show ?thesis by (simp add: delimiter_step_def)
    next
      case (Some i)
      with n have "length b < i + 6" using find_sub_append_late [of NETCONF_10_DELIMITER b x i] by simp
      with n Some e show ?thesis by (simp add: delimiter_step_def)
    qed
  next
    assume "\<exists>i. find_sub NETCONF_10_DELIMITER b = Some i \<and> maxSize < i"
    then obtain i where "find_sub NETCONF_10_DELIMITER b = Some i" "maxSize < i" by blast
    with e show ?thesis
      using find_sub_append [of NETCONF_10_DELIMITER b i x] by (simp add: delimiter_step_def)
  qed
qed simp

section \<open>The chunked framing meets the deframer contract\<close>

definition chunk_invar :: "chunk_state \<Rightarrow> bool" where
  "chunk_invar s \<longleftrightarrow>
     messageSize s = length (concat (messageChunks s)) \<and>
     (\<forall>n. expectedChunkSize s = Some n \<longrightarrow> 0 < n)"

lemma size_text_ok_iff:
  "size_text_ok t \<longleftrightarrow> t \<noteq> [] \<and> hd t \<noteq> CHR ''0'' \<and> (\<forall>c \<in> set t. is_digit c)"
  by (cases t) (auto simp: size_text_ok_def list_all_iff)

lemma dec_val_snoc [simp]: "dec_val (s @ [c]) = dec_val s * 10 + digit_val c"
  by (simp add: dec_val_def)

lemma digit_val_pos: "is_digit c \<Longrightarrow> c \<noteq> CHR ''0'' \<Longrightarrow> 0 < digit_val c"
proof (rule ccontr)
  assume d: "is_digit c" "c \<noteq> CHR ''0''" and "\<not> 0 < digit_val c"
  then have "(of_char c :: nat) = of_char CHR ''0''" by (simp add: is_digit_def digit_val_def)
  then have "c = CHR ''0''" by (simp only: of_char_eq_iff)
  with d show False by simp
qed

lemma size_text_ok_value: "size_text_ok t \<Longrightarrow> 10 ^ (length t - 1) \<le> dec_val t"
proof (induction t rule: rev_induct)
  case (snoc c t)
  show ?case
  proof (cases "t = []")
    case True
    with snoc.prems have "0 < digit_val c" by (simp add: size_text_ok_iff digit_val_pos)
    then show ?thesis using True by (simp add: dec_val_def)
  next
    case False
    with snoc.prems have "size_text_ok t" by (auto simp: size_text_ok_iff)
    then have "10 ^ (length t - 1) \<le> dec_val t" by (rule snoc.IH)
    moreover have "(10::nat) ^ length t = 10 * 10 ^ (length t - 1)"
      using False by (cases t) simp_all
    ultimately show ?thesis by simp
  qed
qed (simp add: size_text_ok_iff)

lemma size_text_ok_pos: "size_text_ok t \<Longrightarrow> 0 < dec_val t"
  using size_text_ok_value [of t] by (meson less_le_trans zero_less_numeral zero_less_power)

lemma size_text_long: "size_text_ok t \<Longrightarrow> 11 \<le> length t \<Longrightarrow> 0xffffffff < dec_val t"
proof -
  assume t: "size_text_ok t" "11 \<le> length t"
  have "(0xffffffff :: nat) < 10 ^ 10" by simp
  also have "(10 :: nat) ^ 10 \<le> 10 ^ (length t - 1)"
    using t(2) by (intro power_increasing) simp_all
  also have "\<dots> \<le> dec_val t" by (rule size_text_ok_value [OF t(1)])
  finally show ?thesis .
qed

lemma chunked_body:
  "expectedChunkSize s = Some n \<Longrightarrow> n \<le> length b \<Longrightarrow>
   chunked_step maxMsg maxChunk s b =
     Advance None (s\<lparr>messageChunks := messageChunks s @ [take n b],
                     messageSize := messageSize s + n, expectedChunkSize := None\<rparr>) (drop n b)"
  by (simp add: chunked_step_def buf_simps)

lemma chunked_Advance:
  assumes "chunked_step maxMsg maxChunk s b = Advance mo s' r"
  obtains (body) n where "expectedChunkSize s = Some n" "n \<le> length b" "mo = None"
      "r = drop n b"
      "s' = s\<lparr>messageChunks := messageChunks s @ [take n b],
              messageSize := messageSize s + n, expectedChunkSize := None\<rparr>"
    | (fin) "expectedChunkSize s = None" "4 \<le> length b" "take 4 b = end_of_chunks"
      "messageChunks s \<noteq> []"
      "mo = Some (concat_total (messageChunks s) (messageSize s))"
      "s' = s\<lparr>messageChunks := [], messageSize := 0\<rparr>" "r = drop 4 b"
    | (header) e where "expectedChunkSize s = None" "3 \<le> length b" "b ! 0 = 0x0a" "b ! 1 = 0x23"
      "b ! 2 \<noteq> 0x23" "indexOf_from 0x0a b 2 = Some e" "size_text_ok (ascii_text (subarray b 2 e))"
      "dec_val (ascii_text (subarray b 2 e)) \<le> 0xffffffff"
      "dec_val (ascii_text (subarray b 2 e)) \<le> maxChunk"
      "messageSize s + dec_val (ascii_text (subarray b 2 e)) \<le> maxMsg" "mo = None"
      "s' = s\<lparr>expectedChunkSize := Some (dec_val (ascii_text (subarray b 2 e)))\<rparr>"
      "r = drop (e + 1) b"
proof (cases "expectedChunkSize s")
  case (Some n)
  with assms show ?thesis
    by (intro body) (auto simp: chunked_step_def buf_simps min_def split: if_splits)
next
  case None
  note N = None
  show ?thesis
  proof (cases "length b < 3 \<or> b ! 0 \<noteq> 0x0a \<or> b ! 1 \<noteq> 0x23")
    case True
    with assms N show ?thesis by (auto simp: chunked_step_def split: if_splits)
  next
    case False
    then have b3: "3 \<le> length b" "b ! 0 = 0x0a" "b ! 1 = 0x23" "length b \<noteq> 0" by auto
    show ?thesis
    proof (cases "b ! 2 = 0x23")
      case True
      have "4 \<le> length b" "b ! 3 = 0x0a"
        using assms N b3 True by (auto simp: chunked_step_def split: if_splits)
      moreover from this have "take 4 b = [b ! 0, b ! 1, b ! 2, b ! 3]"
        by (simp add: list_eq_iff_nth_eq nth_Cons' less_Suc_eq numeral_eq_Suc)
      ultimately show ?thesis
        using assms N b3 True
        by (intro fin) (auto simp: chunked_step_def end_of_chunks_def split: if_splits)
    next
      case F: False
      then obtain e where e: "indexOf_from 0x0a b 2 = Some e"
        using assms N b3 by (auto simp: chunked_step_def split: option.splits if_splits)
      show ?thesis
        using assms N b3 F e
        by (intro header [of e]) (auto simp: chunked_step_def Let_def split: if_splits)
    qed
  qed
qed

lemma take4_end: "take 4 b = end_of_chunks \<Longrightarrow> b ! 0 = 0x0a \<and> b ! 1 = 0x23 \<and> b ! 2 = 0x23 \<and> b ! 3 = 0x0a"
proof -
  assume t: "take 4 b = end_of_chunks"
  have "b ! i = end_of_chunks ! i" if "i < 4" for i
    using that t by (metis nth_take)
  then show ?thesis by (simp add: end_of_chunks_def)
qed

lemma chunked_fin:
  "expectedChunkSize s = None \<Longrightarrow> 4 \<le> length b \<Longrightarrow> take 4 b = end_of_chunks \<Longrightarrow>
   messageChunks s \<noteq> [] \<Longrightarrow>
   chunked_step maxMsg maxChunk s b =
     Advance (Some (concat_total (messageChunks s) (messageSize s)))
       (s\<lparr>messageChunks := [], messageSize := 0\<rparr>) (drop 4 b)"
  using take4_end [of b] by (auto simp: chunked_step_def)

lemma chunked_fail_append:
  assumes F: "chunked_step maxMsg maxChunk s b = Fail e"
  shows "chunked_step maxMsg maxChunk s (b @ x) = Fail e"
proof -
  have N: "expectedChunkSize s = None" and b0: "length b \<noteq> 0"
    using F by (auto simp: chunked_step_def split: option.splits if_splits)
  have nth: "(b @ x) ! k = b ! k" if "k < length b" for k using that by (simp add: nth_append)
  show ?thesis
  proof (cases "b ! 0 \<noteq> 0x0a \<or> 3 \<le> length b \<and> b ! 1 \<noteq> 0x23")
    case True
    then show ?thesis using F N b0 nth [of 0] nth [of 1]
      by (auto simp: chunked_step_def split: if_splits)
  next
    case False
    with F N b0 have b3: "3 \<le> length b" "b ! 0 = 0x0a" "b ! 1 = 0x23"
      by (auto simp: chunked_step_def split: if_splits)
    show ?thesis
    proof (cases "b ! 2 = 0x23")
      case True
      with F N b0 b3 have "4 \<le> length b" by (auto simp: chunked_step_def split: if_splits)
      with True F N b0 b3 show ?thesis using nth [of 0] nth [of 1] nth [of 2] nth [of 3]
        by (auto simp: chunked_step_def split: if_splits)
    next
      case H: False
      show ?thesis
      proof (cases "indexOf_from 0x0a b 2")
        case None
        with F N b0 b3 H have long: "14 < length b" and e: "e = NETCONF_INVALID_CHUNK_SIZE"
          by (auto simp: chunked_step_def split: if_splits)
        show ?thesis
        proof (cases "indexOf_from 0x0a (b @ x) 2")
          case None
          with long e N b0 b3 H show ?thesis using nth [of 0] nth [of 1] nth [of 2]
            by (auto simp: chunked_step_def)
        next
          case (Some i)
          with None b3 have "length b \<le> i" using indexOf_from_append_late [where k = 2 and xs = b and ys = x] by auto
          moreover have "i < length (b @ x)" using Some by (auto dest: indexOf_from_bound)
          ultimately have "11 \<le> length (ascii_text (subarray (b @ x) 2 i))"
            using long by (simp add: length_subarray)
          with Some e N b0 b3 H show ?thesis
            using nth [of 0] nth [of 1] nth [of 2]
              size_text_long [of "ascii_text (subarray (b @ x) 2 i)"]
            by (auto simp: chunked_step_def Let_def)
        qed
      next
        case (Some i)
        then have "i \<le> length b" "indexOf_from 0x0a (b @ x) 2 = Some i"
          using b3 by (auto dest: indexOf_from_bound intro: indexOf_from_append)
        then show ?thesis using Some F N b0 b3 H nth [of 0] nth [of 1] nth [of 2]
          by (auto simp: chunked_step_def Let_def subarray_append1 split: if_splits)
      qed
    qed
  qed
qed

interpretation chunkd: deframer "chunked_step maxMsg maxChunk" chunk_invar
proof
  fix s b mo s' r x
  assume inv: "chunk_invar s" and A: "chunked_step maxMsg maxChunk s b = Advance mo s' r"
  from A show "chunked_step maxMsg maxChunk s (b @ x) = Advance mo s' (r @ x)"
  proof (cases rule: chunked_Advance)
    case (body n)
    then show ?thesis by (simp add: chunked_body)
  next
    case fin
    then show ?thesis by (simp add: chunked_fin)
  next
    case (header e)
    have e: "2 \<le> e" "e < length b" using header(6) by (auto dest: indexOf_from_bound)
    have "indexOf_from 0x0a (b @ x) 2 = Some e"
      using header by (intro indexOf_from_append) simp_all
    with header e show ?thesis
      by (auto simp: chunked_step_def Let_def subarray_append1 nth_append)
  qed
  from A show "length r < length b"
  proof (cases rule: chunked_Advance)
    case (body n)
    then show ?thesis using inv by (auto simp: chunk_invar_def)
  next
    case (header e)
    then show ?thesis by auto
  qed auto
  from A show "chunk_invar s'"
  proof (cases rule: chunked_Advance)
    case (header e)
    then show ?thesis using inv size_text_ok_pos by (auto simp: chunk_invar_def)
  qed (use inv in \<open>auto simp: chunk_invar_def\<close>)
qed (rule chunked_fail_append)

lemma clean_state_invar [simp]: "chunk_invar clean_state"
  by (simp add: chunk_invar_def clean_state_def)

lemma chunked_step_Nil: "chunk_invar s \<Longrightarrow> chunked_step maxMsg maxChunk s [] = More"
  by (auto simp: chunked_step_def chunk_invar_def split: option.splits)

lemma concat_total_exact: "n = length (concat bs) \<Longrightarrow> concat_total bs n = concat bs"
  by (simp add: concat_total_def)

section \<open>Encoding and decoding\<close>

lemma ascii_dec: "ascii_text (ascii_bytes (dec n)) = dec n"
  by (rule ascii_text_bytes) (auto simp: is_digit_def dest!: dec_digits)

lemma digit_byte: "c \<in> set (dec n) \<Longrightarrow> (of_char c :: byte) \<noteq> 0x0a \<and> (of_char c :: byte) \<noteq> 0x23"
proof -
  assume "c \<in> set (dec n)"
  then have "is_digit c" by (rule dec_digits)
  then have "unat (of_char c :: byte) \<noteq> unat (0x0a :: byte)"
    "unat (of_char c :: byte) \<noteq> unat (0x23 :: byte)"
    by (simp_all add: is_digit_def)
  then show ?thesis by metis
qed

lemma chunk_header_step:
  assumes N: "expectedChunkSize s = None" and n: "0 < n" "n \<le> 0xffffffff" "n \<le> maxChunk"
    and m: "messageSize s + n \<le> maxMsg"
  shows "chunked_step maxMsg maxChunk s (chunk_header n @ r) =
    Advance None (s\<lparr>expectedChunkSize := Some n\<rparr>) r"
proof -
  let ?d = "ascii_bytes (dec n)"
  have b: "chunk_header n @ r = [0x0a, 0x23] @ ?d @ 0x0a # r" by (simp add: chunk_header_def)
  obtain c cs where d: "dec n = c # cs" by (cases "dec n") auto
  have c: "(of_char c :: byte) \<noteq> 0x23" using digit_byte [of c n] d by simp
  have "0x0a \<notin> set ?d" using digit_byte by (auto simp: ascii_bytes_def)
  then have idx: "indexOf_from 0x0a ([0x0a, 0x23] @ ?d @ 0x0a # r) 2 = Some (length ?d + 2)"
    by (simp add: indexOf_from_def pos_of_first del: length_ascii)
  have tx: "ascii_text (subarray ([0x0a, 0x23] @ ?d @ 0x0a # r) 2 (length ?d + 2)) = dec n"
    by (simp add: subarray_def ascii_dec del: length_ascii)
  have ok: "size_text_ok (dec n)"
    using dec_hd [OF n(1)] dec_digits by (auto simp: size_text_ok_iff)
  have two: "([0x0a, 0x23] @ ?d @ 0x0a # r) ! 2 \<noteq> 0x23" "3 \<le> length ([0x0a, 0x23] @ ?d @ 0x0a # r)"
    using c d by (simp_all add: ascii_bytes_def)
  show ?thesis
    unfolding b chunked_step_def using N two idx tx ok n m
    by (simp add: Let_def dec_val_dec)
qed

lemma chunk_pair_drive:
  assumes "expectedChunkSize s = None" "c \<noteq> []" "length c \<le> 0xffffffff" "length c \<le> maxChunk"
    "messageSize s + length c \<le> maxMsg"
  shows "drive (chunked_step maxMsg maxChunk) None s (chunk_header (length c) @ c @ r) acc =
    drive (chunked_step maxMsg maxChunk) None
      (s\<lparr>messageChunks := messageChunks s @ [c], messageSize := messageSize s + length c\<rparr>) r acc"
proof -
  have "chunked_step maxMsg maxChunk s (chunk_header (length c) @ c @ r) =
      Advance None (s\<lparr>expectedChunkSize := Some (length c)\<rparr>) (c @ r)"
    using assms by (intro chunk_header_step) simp_all
  moreover have "chunked_step maxMsg maxChunk (s\<lparr>expectedChunkSize := Some (length c)\<rparr>) (c @ r) =
      Advance None (s\<lparr>messageChunks := messageChunks s @ [c], messageSize := messageSize s + length c,
        expectedChunkSize := None\<rparr>) r"
    using chunked_body [of "s\<lparr>expectedChunkSize := Some (length c)\<rparr>" "length c" "c @ r"] by simp
  moreover have "s\<lparr>messageChunks := messageChunks s @ [c], messageSize := messageSize s + length c,
        expectedChunkSize := None\<rparr> =
      s\<lparr>messageChunks := messageChunks s @ [c], messageSize := messageSize s + length c\<rparr>"
    using assms(1) by (cases s) simp
  ultimately show ?thesis by (simp add: drive_Advance)
qed

lemma encode_parts_drive:
  assumes "0 < csize" "csize \<le> 0xffffffff" "csize \<le> maxChunk"
    and "expectedChunkSize s = None" "messageSize s + (length body - offset) \<le> maxMsg"
    and "offset < length body"
  shows "\<exists>cs. cs \<noteq> [] \<and> concat cs = drop offset body \<and>
    drive (chunked_step maxMsg maxChunk) None s (concat (encode_parts csize body offset) @ r) acc =
    drive (chunked_step maxMsg maxChunk) None
      (s\<lparr>messageChunks := messageChunks s @ cs, messageSize := messageSize s + (length body - offset)\<rparr>)
      r acc"
  using assms
proof (induction csize body offset arbitrary: s rule: encode_parts.induct)
  case (1 csize body offset)
  let ?c = "subarray body offset (min (offset + csize) (length body))"
  let ?s = "s\<lparr>messageChunks := messageChunks s @ [?c], messageSize := messageSize s + length ?c\<rparr>"
  have len: "length ?c = min csize (length body - offset)" by (auto simp: length_subarray)
  have ne: "?c \<noteq> []" using "1.prems" len by auto
  have dr: "drop offset body = ?c @ drop (offset + csize) body"
    by (simp add: subarray_def min_def not_le) (metis add.commute append_take_drop_id drop_drop)
  have step: "drive (chunked_step maxMsg maxChunk) None s
        (concat (encode_parts csize body offset) @ r) acc =
      drive (chunked_step maxMsg maxChunk) None ?s
        (concat (encode_parts csize body (offset + csize)) @ r) acc"
    using "1.prems" ne len
      chunk_pair_drive [of s ?c maxChunk maxMsg "concat (encode_parts csize body (offset + csize)) @ r" acc]
    by (subst encode_parts.simps) (simp add: Let_def)
  show ?case
  proof (cases "offset + csize < length body")
    case True
    have "\<exists>cs. cs \<noteq> [] \<and> concat cs = drop (offset + csize) body \<and>
      drive (chunked_step maxMsg maxChunk) None ?s
        (concat (encode_parts csize body (offset + csize)) @ r) acc =
      drive (chunked_step maxMsg maxChunk) None
        (?s\<lparr>messageChunks := messageChunks ?s @ cs,
            messageSize := messageSize ?s + (length body - (offset + csize))\<rparr>) r acc"
      using True "1.prems" len by (intro "1.IH") auto
    then obtain cs where cs: "concat cs = drop (offset + csize) body"
      "drive (chunked_step maxMsg maxChunk) None ?s
        (concat (encode_parts csize body (offset + csize)) @ r) acc =
      drive (chunked_step maxMsg maxChunk) None
        (?s\<lparr>messageChunks := messageChunks ?s @ cs,
            messageSize := messageSize ?s + (length body - (offset + csize))\<rparr>) r acc" by blast
    have "length ?c + (length body - (offset + csize)) = length body - offset"
      using True len by simp
    with cs step dr show ?thesis
      by (intro exI [of _ "?c # cs"]) (simp add: add.assoc)
  next
    case False
    then have "encode_parts csize body (offset + csize) = []" "drop (offset + csize) body = []"
      by (simp_all add: encode_parts.simps [of csize body "offset + csize"])
    moreover have "length ?c = length body - offset" using False len by simp
    ultimately show ?thesis using step dr by (intro exI [of _ "[?c]"]) simp
  qed
qed

lemma appendBuffer_append [simp]: "appendBuffer a b = a @ b"
  by (simp add: appendBuffer_def)

lemma chunked_wire:
  assumes "encodeChunked (BufferArg body) (Some (int n)) = Inr wire" "0 < n" "n \<le> maxChunk"
    and "length body \<le> maxMsg"
  shows "drive (chunked_step maxMsg maxChunk) None clean_state (wire @ r) acc =
    drive (chunked_step maxMsg maxChunk) None clean_state r (acc @ [body])"
proof -
  let ?step = "chunked_step maxMsg maxChunk"
  have n: "n \<le> 0xffffffff" and ne: "0 < length body"
    and w: "wire = concat (encode_parts n body 0) @ end_of_chunks"
    using assms(1,2) by (auto simp: encodeChunked_def Let_def split: if_splits)
  have "\<exists>cs. cs \<noteq> [] \<and> concat cs = drop 0 body \<and>
      drive ?step None clean_state (concat (encode_parts n body 0) @ end_of_chunks @ r) acc =
      drive ?step None (clean_state\<lparr>messageChunks := messageChunks clean_state @ cs,
        messageSize := messageSize clean_state + (length body - 0)\<rparr>) (end_of_chunks @ r) acc"
    using assms n ne by (intro encode_parts_drive) (simp_all add: clean_state_def)
  then obtain cs where cs: "cs \<noteq> []" "concat cs = body"
    and d: "drive ?step None clean_state (wire @ r) acc =
      drive ?step None (clean_state\<lparr>messageChunks := cs, messageSize := length body\<rparr>)
        (end_of_chunks @ r) acc"
    by (auto simp: w clean_state_def)
  have "?step (clean_state\<lparr>messageChunks := cs, messageSize := length body\<rparr>) (end_of_chunks @ r) =
      Advance (Some (concat_total cs (length body))) clean_state r"
    using cs by (subst chunked_fin) (simp_all add: clean_state_def end_of_chunks_def)
  with d cs show ?thesis by (simp add: drive_Advance concat_total_exact)
qed

lemma chunked_wires:
  assumes "list_all2 (\<lambda>(body, n) wire.
      encodeChunked (BufferArg body) (Some (int n)) = Inr wire \<and> 0 < n \<and> n \<le> maxChunk \<and>
      length body \<le> maxMsg) msgs wires"
  shows "drive (chunked_step maxMsg maxChunk) None clean_state (concat wires) acc =
    Some (clean_state, [], acc @ map fst msgs, None)"
  using assms
proof (induction msgs wires arbitrary: acc rule: list_all2_induct)
  case Nil
  show ?case by (simp add: drive_More chunked_step_Nil)
next
  case (Cons m ms w ws)
  obtain body n where m: "m = (body, n)" by (cases m)
  with Cons.hyps(1) have "drive (chunked_step maxMsg maxChunk) None clean_state (w @ concat ws) acc =
      drive (chunked_step maxMsg maxChunk) None clean_state (concat ws) (acc @ [body])"
    by (intro chunked_wire) auto
  with Cons.IH m show ?case by simp
qed

lemma chunked_push_feed:
  assumes "feed (chunked_step (cf_maxMessageSize f) (cf_maxChunkSize f)) (cf_state f) (cf_buffer f) cs
    = Some (s, b, ms, None)"
  shows "push_all (\<lambda>f c. chunked_push decode f (BufferArg c) None) f cs =
    Some (f\<lparr>cf_buffer := b, cf_state := s\<rparr>, map decode ms, None)"
  using assms
proof (induction cs arbitrary: f ms)
  case (Cons c cs)
  from Cons.prems obtain s1 b1 ms1 ms2 where
    d: "drive (chunked_step (cf_maxMessageSize f) (cf_maxChunkSize f)) None (cf_state f)
          (cf_buffer f @ c) [] = Some (s1, b1, ms1, None)"
    and r: "feed (chunked_step (cf_maxMessageSize f) (cf_maxChunkSize f)) s1 b1 cs = Some (s, b, ms2, None)"
    and ms: "ms = ms1 @ ms2"
    by (auto split: option.splits)
  from Cons.IH [of "f\<lparr>cf_buffer := b1, cf_state := s1\<rparr>" ms2] r d ms show ?case
    by (simp add: chunked_push_def check_limit_def)
qed simp

lemma delimiter_push_feed:
  assumes "feed (delimiter_step (df_maxMessageSize f)) () (df_buffer f) cs = Some (s, b, ms, None)"
  shows "push_all (\<lambda>f c. delimiter_push decode f (BufferArg c) None) f cs =
    Some (f\<lparr>df_buffer := b\<rparr>, map decode ms, None)"
  using assms
proof (induction cs arbitrary: f ms)
  case (Cons c cs)
  from Cons.prems obtain b1 ms1 ms2 where
    d: "drive (delimiter_step (df_maxMessageSize f)) None ()
          (df_buffer f @ c) [] = Some ((), b1, ms1, None)"
    and r: "feed (delimiter_step (df_maxMessageSize f)) () b1 cs = Some (s, b, ms2, None)"
    and ms: "ms = ms1 @ ms2"
    by (auto split: option.splits)
  from Cons.IH [of "f\<lparr>df_buffer := b1\<rparr>" ms2] r d ms show ?case
    by (simp add: delimiter_push_def check_limit_def)
qed simp

lemma find_sub_ge:
  "(\<And>i. i < k \<Longrightarrow> take (length p) (drop i xs) \<noteq> p) \<Longrightarrow> take (length p) (drop k xs) = p \<Longrightarrow>
   k < length xs \<Longrightarrow> find_sub p xs = Some k"
proof (induction xs arbitrary: k)
  case (Cons x xs)
  show ?case
  proof (cases k)
    case 0
    with Cons.prems show ?thesis by simp
  next
    case (Suc j)
    have "take (length p) (drop i xs) \<noteq> p" if "i < j" for i
      using Cons.prems(1) [of "Suc i"] that Suc by simp
    then have "find_sub p xs = Some j"
      using Cons.prems Suc by (intro Cons.IH) simp_all
    moreover have "take (length p) (x # xs) \<noteq> p" using Cons.prems(1) [of 0] Suc by simp
    ultimately show ?thesis using Suc by simp
  qed
qed simp

lemma find_sub_None:
  "find_sub p xs = None \<Longrightarrow> take (length p) (drop i xs) \<noteq> p"
proof (induction xs arbitrary: i)
  case Nil
  then show ?case by (auto split: if_splits)
next
  case (Cons x xs)
  then show ?case by (cases i) (auto split: if_splits)
qed

text \<open>The delimiter overlaps itself only by its half \<open>]]>\<close>.\<close>

lemma delimiter_border:
  assumes "take 6 (u @ NETCONF_10_DELIMITER) = NETCONF_10_DELIMITER" "u \<noteq> []" "length u < 6"
  shows "u = ascii_bytes '']]>''"
proof -
  have "0 < length u" using assms(2) by simp
  then have "length u = Suc 0 \<or> length u = Suc (Suc 0) \<or> length u = Suc (Suc (Suc 0)) \<or>
      length u = Suc (Suc (Suc (Suc 0))) \<or> length u = Suc (Suc (Suc (Suc (Suc 0))))"
    using assms(3) by arith
  then show ?thesis using assms(1)
    by (auto simp: length_Suc_conv NETCONF_10_DELIMITER_def ascii_bytes_def)
qed

lemma delimiter_first:
  assumes "find_sub NETCONF_10_DELIMITER body = None" "drop (length body - 3) body \<noteq> ascii_bytes '']]>''"
  shows "find_sub NETCONF_10_DELIMITER (body @ NETCONF_10_DELIMITER @ r) = Some (length body)"
proof (rule find_sub_ge)
  have D: "length NETCONF_10_DELIMITER = 6" by (simp add: NETCONF_10_DELIMITER_def ascii_bytes_def)
  fix i assume i: "i < length body"
  show "take (length NETCONF_10_DELIMITER) (drop i (body @ NETCONF_10_DELIMITER @ r)) \<noteq> NETCONF_10_DELIMITER"
  proof
    assume t: "take (length NETCONF_10_DELIMITER) (drop i (body @ NETCONF_10_DELIMITER @ r)) = NETCONF_10_DELIMITER"
    show False
    proof (cases "6 \<le> length (drop i body)")
      case True
      with t i D have "take (length NETCONF_10_DELIMITER) (drop i body) = NETCONF_10_DELIMITER" by simp
      with find_sub_None [OF assms(1)] show False by blast
    next
      case False
      with t i D have "take 6 (drop i body @ NETCONF_10_DELIMITER) = NETCONF_10_DELIMITER" by simp
      then have u: "drop i body = ascii_bytes '']]>''"
        using False i by (intro delimiter_border) simp_all
      then have "length (drop i body) = 3" by (simp add: ascii_bytes_def)
      then have "i = length body - 3" using i by simp
      with u assms(2) show False by simp
    qed
  qed
qed (simp_all add: NETCONF_10_DELIMITER_def ascii_bytes_def)

lemma delimiter_wires:
  assumes "\<forall>body\<in>set bodies. find_sub NETCONF_10_DELIMITER body = None \<and>
    drop (length body - 3) body \<noteq> ascii_bytes '']]>'' \<and> length body \<le> maxMsg"
  shows "drive (delimiter_step maxMsg) None () (concat (map (\<lambda>b. b @ NETCONF_10_DELIMITER) bodies)) acc =
    Some ((), [], acc @ bodies, None)"
  using assms
proof (induction bodies arbitrary: acc)
  case Nil
  show ?case
    by (simp add: drive_More delimiter_step_def NETCONF_10_DELIMITER_def ascii_bytes_def)
next
  case (Cons b bs)
  have "delimiter_step maxMsg () (b @ NETCONF_10_DELIMITER @ concat (map (\<lambda>b. b @ NETCONF_10_DELIMITER) bs)) =
      Advance (Some b) () (concat (map (\<lambda>b. b @ NETCONF_10_DELIMITER) bs))"
    using Cons.prems by (simp add: delimiter_step_def delimiter_first buf_simps)
  with Cons show ?case by (simp add: drive_Advance)
qed

text \<open>What the chunked framer holds back: the size of an unfinished message never
  exceeds the limit, and the counter is the number of bytes collected.\<close>

definition chunk_bounded :: "nat \<Rightarrow> chunk_state \<Rightarrow> bool" where
  "chunk_bounded maxMsg s \<longleftrightarrow>
     messageSize s = length (concat (messageChunks s)) \<and>
     (case expectedChunkSize s of None \<Rightarrow> messageSize s \<le> maxMsg
      | Some n \<Rightarrow> messageSize s + n \<le> maxMsg)"

lemma chunk_bounded_step:
  assumes "chunk_bounded maxMsg s" "chunked_step maxMsg maxChunk s b = Advance mo s' r"
  shows "chunk_bounded maxMsg s' \<and> (\<forall>m. mo = Some m \<longrightarrow> length m \<le> maxMsg)"
  using assms(2,1)
  by (cases rule: chunked_Advance) (auto simp: chunk_bounded_def concat_total_exact)

lemma chunk_bounded_More:
  assumes "chunk_bounded maxMsg s" "chunked_step maxMsg maxChunk s b = More"
  shows "messageSize s + length b \<le> maxMsg + 14"
  using assms by (auto simp: chunk_bounded_def chunked_step_def Let_def split: option.splits if_splits)

definition chunked_ok :: "chunked_framer \<Rightarrow> bool" where
  "chunked_ok f \<longleftrightarrow> chunk_invar (cf_state f) \<and> chunk_bounded (cf_maxMessageSize f) (cf_state f)"

lemma chunked_ok_new: "chunked_ok (new_ChunkedFramer m c)"
  by (simp add: chunked_ok_def new_ChunkedFramer_def Let_def chunk_bounded_def clean_state_def
      chunk_invar_def)

lemma chunked_ok_reset: "chunked_ok (chunked_reset f)"
  by (simp add: chunked_ok_def chunked_reset_def chunk_bounded_def clean_state_def chunk_invar_def)

lemma chunked_drive_ok:
  assumes "chunked_ok f"
    and "drive (chunked_step (cf_maxMessageSize f) (cf_maxChunkSize f)) lim (cf_state f) b [] =
      Some (s', b', ms, e)"
  shows "chunk_invar s'" "chunk_bounded (cf_maxMessageSize f) s'"
    "\<forall>m\<in>set ms. length m \<le> cf_maxMessageSize f"
  using chunkd.drive_returns [of "cf_state f" "cf_maxMessageSize f" "cf_maxChunkSize f" lim b "[]"]
    chunkd.drive_sound [of "chunk_bounded (cf_maxMessageSize f)" "cf_maxMessageSize f" "cf_maxChunkSize f"
      "\<lambda>m. length m \<le> cf_maxMessageSize f" "cf_state f" "[]" lim b s' b' ms e]
    chunk_bounded_step assms
  unfolding chunked_ok_def by (fastforce+)

section \<open>The properties of the framers\<close>

text \<open>C6. A peer may send any number of messages, each encoded by \<open>encodeChunked\<close> with a
  chunk size of its own, and the network may cut the stream anywhere: pushing the pieces
  one by one into a fresh \<open>ChunkedFramer\<close> whose limits admit the messages returns exactly
  the messages, in order, without an error, and leaves the framer as it was.\<close>

theorem chunked_transport:
  assumes "0 < maxMsg" "0 < maxChunk"
    and "list_all2 (\<lambda>(body, n) wire.
      encodeChunked (BufferArg body) (Some (int n)) = Inr wire \<and> 0 < n \<and> n \<le> maxChunk \<and>
      length body \<le> maxMsg) msgs wires"
    and "concat pieces = concat wires"
  shows "push_all (\<lambda>f c. chunked_push decode f (BufferArg c) None)
      (new_ChunkedFramer (Some maxMsg) (Some maxChunk)) pieces =
    Some (new_ChunkedFramer (Some maxMsg) (Some maxChunk), map (\<lambda>(body, n). decode body) msgs, None)"
proof -
  let ?f = "new_ChunkedFramer (Some maxMsg) (Some maxChunk)"
  have f: "cf_maxMessageSize ?f = maxMsg" "cf_maxChunkSize ?f = maxChunk" "cf_buffer ?f = []"
    "cf_state ?f = clean_state" "?f\<lparr>cf_buffer := [], cf_state := clean_state\<rparr> = ?f"
    using assms(1,2) by (simp_all add: new_ChunkedFramer_def or_default_def Let_def)
  have "feed (chunked_step maxMsg maxChunk) clean_state [] pieces =
      Some (clean_state, [], map fst msgs, None)"
    using chunked_wires [OF assms(3), of "[]"] assms(4)
    by (subst chunkd.feed_drive) (simp_all add: chunked_step_Nil)
  then show ?thesis
    using chunked_push_feed [of ?f pieces clean_state "[]" "map fst msgs" decode]
    by (simp add: f comp_def case_prod_unfold)
qed

theorem chunked_transport_witness:
  "push_all (\<lambda>f c. chunked_push id f (BufferArg c) None) (new_ChunkedFramer (Some 64) (Some 16))
     [chunk_header 2 @ [104], [105] @ end_of_chunks] =
   Some (new_ChunkedFramer (Some 64) (Some 16), [[104, 105]], None)"
  using chunked_transport [of 64 16 "[([104, 105], 2)]" "[chunk_header 2 @ [104, 105] @ end_of_chunks]"
      "[chunk_header 2 @ [104], [105] @ end_of_chunks]" id]
  by (simp add: encodeChunked_def encode_parts.simps subarray_def Let_def numeral_2_eq_2)



text \<open>C28. Whatever bytes arrive, \<open>ChunkedFramer.push\<close> returns or throws, never runs
  forever, and keeps its invariant; no message it returns is longer than the limit, and
  when it returns without a message limit it holds at most \<open>maxMessageSize + 14\<close> bytes
  of an unfinished message, so a peer cannot make it grow.\<close>

theorem chunked_push_bounded:
  assumes "chunked_ok f"
  shows "\<exists>f' res. chunked_push decode f arg lim = Some (f', res) \<and> chunked_ok f' \<and>
    cf_maxMessageSize f' = cf_maxMessageSize f \<and>
    (\<forall>ms. res = Inr ms \<longrightarrow>
       (\<exists>raw. ms = map decode raw \<and> (\<forall>m\<in>set raw. length m \<le> cf_maxMessageSize f)) \<and>
       (lim = None \<longrightarrow>
          length (concat (messageChunks (cf_state f'))) + length (cf_buffer f') \<le> cf_maxMessageSize f + 14))"
proof (cases "\<exists>b l. toBuffer arg = Inr b \<and> check_limit lim = Inr l")
  case True
  then obtain b l where bl: "toBuffer arg = Inr b" "check_limit lim = Inr l" by blast
  let ?step = "chunked_step (cf_maxMessageSize f) (cf_maxChunkSize f)"
  obtain s' b' ms e where d: "drive ?step l (cf_state f) (cf_buffer f @ b) [] = Some (s', b', ms, e)"
    using assms chunkd.drive_returns by (metis chunked_ok_def)
  note ok = chunked_drive_ok [OF assms d]
  have "messageSize s' + length b' \<le> cf_maxMessageSize f + 14" if "lim = None" "e = None"
  proof -
    have "l = None" using that bl by (simp add: check_limit_def)
    then have "?step s' b' = More"
      using d that assms chunkd.drive_quiescent by (metis chunked_ok_def)
    then show ?thesis by (rule chunk_bounded_More [OF ok(2)])
  qed
  then show ?thesis
    using bl d ok by (auto simp: chunked_push_def chunked_ok_def chunk_bounded_def split: option.splits)
next
  case False
  then show ?thesis using assms
    by (auto simp: chunked_push_def split: sum.splits)
qed

theorem chunked_push_bounded_witness:
  "\<exists>f' res. chunked_push id (new_ChunkedFramer None None) (StringArg ''x'') None = Some (f', res) \<and>
     chunked_ok f'"
  using chunked_push_bounded [OF chunked_ok_new [of None None], of id "StringArg ''x''" None] by blast

text \<open>The hand-over after the hello exchange: a \<open>DelimiterFramer\<close> asked for one
  message returns the first one and \<open>takeBuffered\<close> gives back exactly the bytes behind
  its delimiter, whatever they are, so that a new framer can go on with them.\<close>

theorem delimiter_handover:
  assumes "find_sub NETCONF_10_DELIMITER hello = None"
    and "drop (length hello - 3) hello \<noteq> ascii_bytes '']]>''"
    and "length hello \<le> df_maxMessageSize f" "df_buffer f = []"
    and "encodeDelimiter (BufferArg hello) = Inr wire"
  shows "\<exists>f'. delimiter_push decode f (BufferArg (wire @ rest)) (Some 1) = Some (f', Inr [decode hello]) \<and>
    delimiter_takeBuffered f' = (f, rest)"
proof -
  have w: "wire = hello @ NETCONF_10_DELIMITER" using assms(5) by (simp add: encodeDelimiter_def)
  have "delimiter_step (df_maxMessageSize f) () (hello @ NETCONF_10_DELIMITER @ rest) =
      Advance (Some hello) () rest"
    using assms by (simp add: delimiter_step_def delimiter_first buf_simps)
  then have "drive (delimiter_step (df_maxMessageSize f)) (Some 1) () (hello @ NETCONF_10_DELIMITER @ rest) [] =
      Some ((), rest, [hello], None)"
    by (simp add: drive.simps)
  with assms(4) show ?thesis
    by (simp add: w delimiter_push_def check_limit_def delimiter_takeBuffered_def)
qed

theorem delimiter_handover_witness:
  "\<exists>f'. delimiter_push id (new_DelimiterFramer (Some 9)) (BufferArg ([60, 62] @ NETCONF_10_DELIMITER @ [10]))
       (Some 1) = Some (f', Inr [[60, 62]]) \<and>
     delimiter_takeBuffered f' = (new_DelimiterFramer (Some 9), [10])"
  using delimiter_handover [of "[60, 62]" "new_DelimiterFramer (Some 9)" "[60, 62] @ NETCONF_10_DELIMITER" id "[10]"]
  by (simp add: NETCONF_10_DELIMITER_def ascii_bytes_def encodeDelimiter_def new_DelimiterFramer_def or_default_def)

end
