(* ===== verification/Lease_Table.thy ===== *)
theory Lease_Table
  imports Js_Prelude
begin

text \<open>
  The DHCPv4 and the DHCPv6 server keep their leases in two maps that have to agree: from
  the client to its lease, and from the address to the client.  The locale
  \<open>lease_table\<close> is the interface both servers rely on: how binding and unbinding a
  lease changes the two maps.  From it follow, once for both, that agreement is kept and
  that two clients never share an address.
\<close>

definition table_agrees ::
  "('l \<Rightarrow> 'ip) \<Rightarrow> ('k \<rightharpoonup> 'l) \<Rightarrow> ('ip \<rightharpoonup> 'k) \<Rightarrow> bool" where
  "table_agrees ip_of leases owner \<longleftrightarrow>
     (\<forall>k l. leases k = Some l \<longrightarrow> owner (ip_of l) = Some k) \<and>
     (\<forall>ip k. owner ip = Some k \<longrightarrow> (\<exists>l. leases k = Some l \<and> ip_of l = ip))"

lemma table_agrees_lease: "table_agrees ip_of ls ow \<Longrightarrow> ls k = Some l \<Longrightarrow> ow (ip_of l) = Some k"
  by (simp add: table_agrees_def)

lemma table_agrees_owner:
  "table_agrees ip_of ls ow \<Longrightarrow> ow ip = Some k \<Longrightarrow> \<exists>l. ls k = Some l \<and> ip_of l = ip"
  by (simp add: table_agrees_def)

lemma table_agrees_inj:
  "table_agrees ip_of ls ow \<Longrightarrow> ls k = Some l \<Longrightarrow> ls k' = Some l' \<Longrightarrow> ip_of l = ip_of l' \<Longrightarrow> k = k'"
  by (metis table_agrees_lease option.inject)

lemma table_agrees_empty [simp]: "table_agrees ip_of Map.empty Map.empty"
  by (simp add: table_agrees_def)

locale lease_table =
  fixes lease_of :: "'s \<Rightarrow> 'k \<rightharpoonup> 'l"
    and owner_of :: "'s \<Rightarrow> 'ip \<rightharpoonup> 'k"
    and ip_of :: "'l \<Rightarrow> 'ip"
    and bind :: "'k \<Rightarrow> 'l \<Rightarrow> 's \<Rightarrow> 's"
    and unbind :: "'k \<Rightarrow> 's \<Rightarrow> 's"
  assumes lease_bind: "lease_of (bind k l s) = (lease_of s)(k \<mapsto> l)"
    and owner_bind: "owner_of (bind k l s) = (owner_of s)(ip_of l \<mapsto> k)"
    and lease_unbind: "lease_of (unbind k s) = (lease_of s)(k := None)"
    and owner_unbind: "owner_of (unbind k s) =
      (case lease_of s k of None \<Rightarrow> owner_of s | Some l \<Rightarrow> (owner_of s)(ip_of l := None))"
begin

lemma agrees_bind:
  assumes "table_agrees ip_of (lease_of s) (owner_of s)"
    and "lease_of s k = None" "owner_of s (ip_of l) = None"
  shows "table_agrees ip_of (lease_of (bind k l s)) (owner_of (bind k l s))"
proof -
  have "owner_of s ip \<noteq> Some k" for ip
    using table_agrees_owner [OF assms(1), of ip k] assms(2) by auto
  moreover have "ip_of m \<noteq> ip_of l" if "lease_of s j = Some m" for j m
    using table_agrees_lease [OF assms(1) that] assms(3) by auto
  ultimately show ?thesis
    using assms(1) unfolding table_agrees_def lease_bind owner_bind by auto
qed

lemma agrees_unbind:
  assumes "table_agrees ip_of (lease_of s) (owner_of s)"
  shows "table_agrees ip_of (lease_of (unbind k s)) (owner_of (unbind k s))"
proof (cases "lease_of s k")
  case None
  then have "(lease_of s)(k := None) = lease_of s" by auto
  with None show ?thesis using assms by (simp add: lease_unbind owner_unbind)
next
  case (Some l)
  have "owner_of s (ip_of m) = Some j \<and> ip_of m \<noteq> ip_of l" if "lease_of s j = Some m" "j \<noteq> k" for j m
    using table_agrees_lease [OF assms] Some that by (metis option.inject)
  moreover have "\<exists>m. lease_of s j = Some m \<and> ip_of m = ip \<and> j \<noteq> k"
    if "owner_of s ip = Some j" "ip \<noteq> ip_of l" for ip j
    using table_agrees_owner [OF assms that(1)] Some that(2) by auto
  ultimately show ?thesis using Some
    by (simp add: table_agrees_def lease_unbind owner_unbind) blast
qed

text \<open>Replacing the lease of a client by one for the same address (a renewal).\<close>

lemma agrees_renew:
  assumes "table_agrees ip_of (lease_of s) (owner_of s)"
    and "lease_of s k = Some l" "ip_of l' = ip_of l"
  shows "table_agrees ip_of ((lease_of s)(k \<mapsto> l')) (owner_of s)"
proof -
  have "ip_of l = ip" if "owner_of s ip = Some k" for ip
    using table_agrees_owner [OF assms(1) that] assms(2) by auto
  then show ?thesis using assms by (auto simp: table_agrees_def)
qed

lemma agrees_unbind_fold:
  "table_agrees ip_of (lease_of s) (owner_of s) \<Longrightarrow>
   table_agrees ip_of (lease_of (fold unbind ks s)) (owner_of (fold unbind ks s))"
  by (induction ks arbitrary: s) (simp_all add: agrees_unbind)

lemma lease_unbind_fold:
  "lease_of (fold unbind ks s) = (\<lambda>k. if k \<in> set ks then None else lease_of s k)"
  by (induction ks arbitrary: s) (auto simp: lease_unbind)

text \<open>An address that one client gives back can be bound by any other.\<close>

lemma unbind_frees:
  "lease_of s k = Some l \<Longrightarrow> owner_of (unbind k s) (ip_of l) = None"
  by (simp add: owner_unbind)

lemma no_sharing:
  "table_agrees ip_of (lease_of s) (owner_of s) \<Longrightarrow> lease_of s k = Some l \<Longrightarrow>
   lease_of s k' = Some l' \<Longrightarrow> k \<noteq> k' \<Longrightarrow> ip_of l \<noteq> ip_of l'"
  by (blast dest: table_agrees_inj)

end

end
