(* ===== verification/Dhcp.thy ===== *)
theory Dhcp
  imports Lease_Table
begin

text \<open>
  The DHCPv4 server: \<^verbatim>\<open>electron/worker/dhcp/dhcpWorker.js\<close> and
  \<^verbatim>\<open>dhcpLease.js\<close>.  The worker object is the record \<open>dhcp_state\<close>.  A handler
  returns the changed state, what it sent (datagrams to the network, events and responses
  to the application) and the exception it threw, if any; the receive callback catches
  the exception, so only the state and the output up to the throw remain.  Addresses are
  strings as in the code.  Times are milliseconds; \<open>Date.now()\<close> is the argument
  \<open>now\<close>.  The maps of the object are insertion-ordered association lists.
\<close>

section \<open>Addresses\<close>

definition ipToNum :: "string \<Rightarrow> nat" where
  "ipToNum ip =
     unat (foldl (\<lambda>acc oct. or (push_bit 8 acc)
                    (case parseInt10 oct of None \<Rightarrow> 0 | Some n \<Rightarrow> word_of_int n)) (0 :: 32 word)
             (split_on CHR ''.'' ip))"

definition octets :: "nat \<Rightarrow> nat list" where
  "octets num = [num div 16777216 mod 256, num div 65536 mod 256, num div 256 mod 256, num mod 256]"

definition numToIp :: "nat \<Rightarrow> string" where
  "numToIp num = join ''.'' (map dec (octets num))"

definition ipToBuffer :: "string \<Rightarrow> buffer" where
  "ipToBuffer ip =
     map (\<lambda>oct. case js_Number oct of None \<Rightarrow> 0 | Some n \<Rightarrow> word_of_nat n) (split_on CHR ''.'' ip)"

section \<open>Leases and the state of the worker\<close>

text \<open>The host name shown for a client that sent none, in UTF-8.\<close>

definition unknown_host :: string where
  "unknown_host = map char_of [0xE6, 0x9C, 0xAA, 0xE7, 0x9F, 0xA5 :: nat]"

record dhcp_lease =
  l_macAddr :: string
  l_ip :: string
  l_hostname :: string
  l_leaseTime :: int
  l_startTime :: int
  l_expiresAt :: int
  l_status :: string

definition new_DhcpLease :: "int \<Rightarrow> string \<Rightarrow> string \<Rightarrow> string \<Rightarrow> int \<Rightarrow> dhcp_lease" where
  "new_DhcpLease now mac ip hostname t =
     \<lparr>l_macAddr = mac, l_ip = ip, l_hostname = (if hostname = [] then unknown_host else hostname),
      l_leaseTime = t, l_startTime = now, l_expiresAt = now + t * 1000, l_status = ''active''\<rparr>"

definition isExpired :: "int \<Rightarrow> dhcp_lease \<Rightarrow> bool" where
  "isExpired now l = (now > l_expiresAt l)"

definition renew :: "int \<Rightarrow> int \<Rightarrow> dhcp_lease \<Rightarrow> dhcp_lease" where
  "renew now t l = l\<lparr>l_leaseTime := t, l_startTime := now, l_expiresAt := now + t * 1000\<rparr>"

text \<open>The two times are formatted for the locale when shown; the numbers are kept here.\<close>

definition getInfo :: "int \<Rightarrow> dhcp_lease \<Rightarrow> dhcp_lease" where
  "getInfo now l = l\<lparr>l_status := (if isExpired now l then ''expired'' else l_status l)\<rparr>"

record dhcp_config =
  serverPort :: "int option"
  serverIp :: string
  c_poolStart :: string
  c_poolEnd :: string
  subnetMask :: string
  gateway :: string
  dns1 :: string
  dns2 :: string
  leaseTime :: int

record dhcp_state =
  server :: bool
  config :: "dhcp_config option"
  leaseMap :: "(string \<times> dhcp_lease) list"
  ipToMac :: "(string \<times> string) list"
  pendingOffers :: "(nat \<times> string \<times> string) list"
  poolStart :: nat
  poolEnd :: nat
  leaseTimer :: bool

definition new_DhcpWorker :: dhcp_state where
  "new_DhcpWorker = \<lparr>server = False, config = None, leaseMap = [], ipToMac = [], pendingOffers = [],
     poolStart = 0, poolEnd = 0, leaseTimer = False\<rparr>"

datatype dhcp_out =
    Send buffer nat string
  | LeaseEvent string dhcp_lease
  | LeaseRemoved string string
  | SuccessResponse nat
  | LeaseList nat "dhcp_lease list"
  | ErrorResponse nat

record rinfo =
  address :: string
  port :: nat

section \<open>Packets\<close>

definition MAGIC_COOKIE :: buffer where
  "MAGIC_COOKIE = [99, 130, 83, 99]"

record dhcp_packet =
  p_op :: nat
  p_htype :: nat
  p_hlen :: nat
  p_hops :: nat
  p_xid :: nat
  p_secs :: nat
  p_flags :: nat
  p_ciaddr :: buffer
  p_yiaddr :: buffer
  p_siaddr :: buffer
  p_giaddr :: buffer
  p_chaddr :: buffer
  p_options :: "nat \<rightharpoonup> buffer"
  p_macAddr :: string
  p_msgType :: "nat option"
  p_requestedIp :: "string option"
  p_hostname :: "string option"
  p_serverId :: "string option"

function parse_options :: "buffer \<Rightarrow> nat \<Rightarrow> (nat \<rightharpoonup> buffer) \<Rightarrow> (nat \<rightharpoonup> buffer)" where
  "parse_options b i opts =
     (if i < length b then
        (let code = unat (b ! i)
         in if code = 255 then opts
            else if code = 0 then parse_options b (i + 1) opts
            else if i + 1 \<ge> length b then opts
            else (let len = unat (b ! (i + 1))
                  in parse_options b (i + 2 + len)
                       (opts(code \<mapsto> subarray b (i + 2) (i + 2 + len)))))
      else opts)"
  by pat_completeness auto
termination
  by (relation "measure (\<lambda>(b, i, opts). length b - i)") auto

declare parse_options.simps [simp del]

text \<open>\<open>b.toString(16).padStart(2, '0')\<close> of every byte, joined by colons.\<close>

definition mac_text :: "buffer \<Rightarrow> string" where
  "mac_text b = join '':'' (map (\<lambda>w. hex [w]) b)"

definition opt_at_least :: "(nat \<rightharpoonup> buffer) \<Rightarrow> nat \<Rightarrow> nat \<Rightarrow> buffer option" where
  "opt_at_least opts code n =
     (case opts code of None \<Rightarrow> None | Some v \<Rightarrow> if n \<le> length v then Some v else None)"

definition parseDhcpPacket :: "buffer \<Rightarrow> dhcp_packet option" where
  "parseDhcpPacket b =
     (if length b < 236 then None
      else
        let hlen = (if b ! 2 = 0 then 6 else unat (b ! 2));
            chaddr = subarray b 28 44;
            opts = (if 240 < length b \<and> subarray b 236 240 = MAGIC_COOKIE
                    then parse_options b 240 Map.empty else Map.empty)
        in Some \<lparr>p_op = unat (b ! 0), p_htype = unat (b ! 1), p_hlen = unat (b ! 2),
             p_hops = unat (b ! 3), p_xid = be32 b 4, p_secs = be16 b 8, p_flags = be16 b 10,
             p_ciaddr = subarray b 12 16, p_yiaddr = subarray b 16 20,
             p_siaddr = subarray b 20 24, p_giaddr = subarray b 24 28, p_chaddr = chaddr,
             p_options = opts, p_macAddr = mac_text (subarray chaddr 0 hlen),
             p_msgType = map_option (\<lambda>v. unat (v ! 0)) (opt_at_least opts 53 1),
             p_requestedIp = map_option (\<lambda>v. numToIp (be32 v 0)) (opt_at_least opts 50 4),
             p_hostname = map_option (\<lambda>v. filter (\<lambda>c. c \<noteq> CHR 0x00) (ascii_text v)) (opts 12),
             p_serverId = map_option (\<lambda>v. numToIp (be32 v 0)) (opt_at_least opts 54 4)\<rparr>)"

section \<open>Building a response\<close>

definition DISCOVER :: nat where "DISCOVER = 1"
definition OFFER :: nat where "OFFER = 2"
definition REQUEST :: nat where "REQUEST = 3"
definition ACK :: nat where "ACK = 5"
definition NAK :: nat where "NAK = 6"
definition RELEASE :: nat where "RELEASE = 7"

text \<open>The writes at \<open>offset++\<close>: the buffer and the offset are threaded.  An address
  always advances the offset by four, whatever \<open>ipToBuffer\<close> returned.\<close>

type_synonym cursor = "buffer \<times> nat"

definition w8 :: "nat \<Rightarrow> cursor \<Rightarrow> cursor" where
  "w8 n = (\<lambda>(b, i). (put b i (enc8 n), i + 1))"

definition w32 :: "nat \<Rightarrow> cursor \<Rightarrow> cursor" where
  "w32 n = (\<lambda>(b, i). (put b i (enc32 n), i + 4))"

definition wip :: "string \<Rightarrow> cursor \<Rightarrow> cursor" where
  "wip ip = (\<lambda>(b, i). (put b i (ipToBuffer ip), i + 4))"

definition response_header :: "dhcp_packet \<Rightarrow> string \<Rightarrow> string \<Rightarrow> buffer" where
  "response_header packet assignedIp srvIp =
     (let b = alloc 576;
          b = put b 0 (enc8 2);
          b = put b 1 (enc8 (p_htype packet));
          b = put b 2 (enc8 (p_hlen packet));
          b = put b 3 (enc8 0);
          b = put b 4 (enc32 (p_xid packet));
          b = put b 8 (enc16 0);
          b = put b 10 (enc16 (p_flags packet));
          b = put b 12 (alloc 4);
          b = put b 16 (ipToBuffer assignedIp);
          b = put b 20 (ipToBuffer srvIp);
          b = put b 24 (p_giaddr packet);
          b = put b 28 (p_chaddr packet)
      in put b 236 MAGIC_COOKIE)"

definition write_gateway :: "dhcp_config \<Rightarrow> cursor \<Rightarrow> cursor" where
  "write_gateway cfg w = (if gateway cfg = [] then w else wip (gateway cfg) (w8 4 (w8 3 w)))"

definition dnsServers :: "dhcp_config \<Rightarrow> string list" where
  "dnsServers cfg = filter (\<lambda>d. d \<noteq> []) [dns1 cfg, dns2 cfg]"

definition write_dns :: "dhcp_config \<Rightarrow> cursor \<Rightarrow> cursor" where
  "write_dns cfg w =
     (if 0 < length (dnsServers cfg)
      then fold wip (dnsServers cfg) (w8 (length (dnsServers cfg) * 4) (w8 6 w)) else w)"

definition buildDhcpResponse ::
  "dhcp_config \<Rightarrow> dhcp_packet \<Rightarrow> nat \<Rightarrow> string \<Rightarrow> string \<Rightarrow> js_error + buffer" where
  "buildDhcpResponse cfg packet msgType assignedIp srvIp =
     (let w = (response_header packet assignedIp srvIp, 240);
          w = w8 msgType (w8 1 (w8 53 w));
          w = wip srvIp (w8 4 (w8 54 w))
      in if msgType \<noteq> NAK
         then if 0 \<le> leaseTime cfg \<and> leaseTime cfg \<le> 0xffffffff
              then let w = w32 (nat (leaseTime cfg)) (w8 4 (w8 51 w));
                       w = wip (subnetMask cfg) (w8 4 (w8 1 w));
                       w = write_dns cfg (write_gateway cfg w);
                       (b, offset) = w8 255 w
                   in Inr (subarray b 0 offset)
              else Inl RangeError
         else let (b, offset) = w8 255 w in Inr (subarray b 0 offset))"

section \<open>The handlers\<close>

definition has_lease :: "dhcp_state \<Rightarrow> string \<Rightarrow> dhcp_lease option" where
  "has_lease s mac = map_of (leaseMap s) mac"

definition owner_of :: "dhcp_state \<Rightarrow> string \<Rightarrow> string option" where
  "owner_of s ip = map_of (ipToMac s) ip"

text \<open>Adding and removing a lease, the pair of map updates that the handlers repeat.\<close>

definition add_lease :: "string \<Rightarrow> dhcp_lease \<Rightarrow> dhcp_state \<Rightarrow> dhcp_state" where
  "add_lease mac l s =
     s\<lparr>leaseMap := AList.update mac l (leaseMap s), ipToMac := AList.update (l_ip l) mac (ipToMac s)\<rparr>"

definition remove_lease :: "string \<Rightarrow> dhcp_state \<Rightarrow> dhcp_state" where
  "remove_lease mac s =
     (case has_lease s mac of
        None \<Rightarrow> s
      | Some l \<Rightarrow> s\<lparr>leaseMap := AList.delete mac (leaseMap s), ipToMac := AList.delete (l_ip l) (ipToMac s)\<rparr>)"

function first_free :: "(string \<times> string) list \<Rightarrow> nat \<Rightarrow> nat \<Rightarrow> string option" where
  "first_free owners num last_num =
     (if num \<le> last_num
      then (if map_of owners (numToIp num) = None then Some (numToIp num)
            else first_free owners (num + 1) last_num)
      else None)"
  by pat_completeness auto
termination
  by (relation "measure (\<lambda>(owners, num, last_num). last_num + 1 - num)") auto

declare first_free.simps [simp del]

definition allocateIp :: "dhcp_state \<Rightarrow> string \<Rightarrow> string option" where
  "allocateIp s mac =
     (case has_lease s mac of
        Some l \<Rightarrow> Some (l_ip l)
      | None \<Rightarrow> first_free (ipToMac s) (poolStart s) (poolEnd s))"

definition sendResponse :: "buffer \<Rightarrow> dhcp_packet \<Rightarrow> rinfo \<Rightarrow> dhcp_out" where
  "sendResponse response packet ri =
     Send response (port ri)
       (if odd (p_flags packet div 32768) \<or> be32 (p_ciaddr packet) 0 = 0 then ''255.255.255.255''
        else address ri)"

type_synonym handled = "dhcp_state \<times> dhcp_out list \<times> js_error option"

definition respond :: "dhcp_packet \<Rightarrow> rinfo \<Rightarrow> nat \<Rightarrow> string \<Rightarrow> dhcp_out list \<Rightarrow> dhcp_state \<Rightarrow> handled" where
  "respond packet ri msgType ip outs s =
     (case config s of
        None \<Rightarrow> (s, outs, Some TypeError)
      | Some cfg \<Rightarrow>
          (case buildDhcpResponse cfg packet msgType ip (serverIp cfg) of
             Inl e \<Rightarrow> (s, outs, Some e)
           | Inr response \<Rightarrow> (s, outs @ [sendResponse response packet ri], None)))"

definition handleDiscover :: "dhcp_packet \<Rightarrow> rinfo \<Rightarrow> dhcp_state \<Rightarrow> handled" where
  "handleDiscover packet ri s =
     (case allocateIp s (p_macAddr packet) of
        None \<Rightarrow> (s, [], None)
      | Some offeredIp \<Rightarrow>
          respond packet ri OFFER offeredIp []
            (s\<lparr>pendingOffers :=
                 AList.update (p_xid packet) (p_macAddr packet, offeredIp) (pendingOffers s)\<rparr>))"

definition requested_ip :: "dhcp_packet \<Rightarrow> string option" where
  "requested_ip packet =
     (case p_requestedIp packet of
        Some ip \<Rightarrow> Some ip
      | None \<Rightarrow> if be32 (p_ciaddr packet) 0 \<noteq> 0 then Some (numToIp (be32 (p_ciaddr packet) 0)) else None)"

text \<open>The branch of \<open>handleRequest\<close> after all checks: renew or create the lease, forget
  the pending offer, acknowledge.\<close>

definition grant :: "int \<Rightarrow> dhcp_config \<Rightarrow> dhcp_packet \<Rightarrow> rinfo \<Rightarrow> string \<Rightarrow> dhcp_state \<Rightarrow> handled" where
  "grant now cfg packet ri requestedIp s =
     (let mac = p_macAddr packet;
          hostname = (case p_hostname packet of None \<Rightarrow> unknown_host
                      | Some h \<Rightarrow> if h = [] then unknown_host else h);
          (s1, ev) =
            (case has_lease s mac of
               Some l \<Rightarrow>
                 let l' = (renew now (leaseTime cfg) l)\<lparr>l_hostname := hostname\<rparr>
                 in (s\<lparr>leaseMap := AList.update mac l' (leaseMap s)\<rparr>, LeaseEvent ''update'' (getInfo now l'))
             | None \<Rightarrow>
                 let l = new_DhcpLease now mac requestedIp hostname (leaseTime cfg)
                 in (add_lease mac l s, LeaseEvent ''add'' (getInfo now l)))
      in respond packet ri ACK requestedIp [ev]
           (s1\<lparr>pendingOffers := AList.delete (p_xid packet) (pendingOffers s1)\<rparr>))"

definition handleRequest :: "int \<Rightarrow> dhcp_packet \<Rightarrow> rinfo \<Rightarrow> dhcp_state \<Rightarrow> handled" where
  "handleRequest now packet ri s =
     (case config s of
        None \<Rightarrow> (s, [], Some TypeError)
      | Some cfg \<Rightarrow>
          if p_serverId packet \<noteq> None \<and> p_serverId packet \<noteq> Some (serverIp cfg)
          then (s\<lparr>pendingOffers := AList.delete (p_xid packet) (pendingOffers s)\<rparr>, [], None)
          else
            (case requested_ip packet of
               None \<Rightarrow> respond packet ri NAK ''0.0.0.0'' [] s
             | Some ip \<Rightarrow>
                 if ipToNum ip < poolStart s \<or> poolEnd s < ipToNum ip
                 then respond packet ri NAK ''0.0.0.0'' [] s
                 else if owner_of s ip \<noteq> None \<and> owner_of s ip \<noteq> Some (p_macAddr packet)
                 then respond packet ri NAK ''0.0.0.0'' [] s
                 else grant now cfg packet ri ip s))"

text \<open>\<open>releaseLease\<close>, \<open>handleRelease\<close> and the expiry timer remove a lease the same way
  and report it to the application.\<close>

definition removed_event :: "dhcp_state \<Rightarrow> string \<Rightarrow> dhcp_out list" where
  "removed_event s mac = (case has_lease s mac of None \<Rightarrow> [] | Some l \<Rightarrow> [LeaseRemoved mac (l_ip l)])"

definition handleRelease :: "dhcp_packet \<Rightarrow> dhcp_state \<Rightarrow> handled" where
  "handleRelease packet s =
     (remove_lease (p_macAddr packet) s, removed_event s (p_macAddr packet), None)"

definition releaseLease :: "nat \<Rightarrow> string \<Rightarrow> dhcp_state \<Rightarrow> dhcp_state \<times> dhcp_out list" where
  "releaseLease messageId mac s =
     (case has_lease s mac of
        Some l \<Rightarrow> (remove_lease mac s, [LeaseRemoved mac (l_ip l), SuccessResponse messageId])
      | None \<Rightarrow> (s, [ErrorResponse messageId]))"

definition expired_macs :: "int \<Rightarrow> dhcp_state \<Rightarrow> string list" where
  "expired_macs now s = map fst (filter (\<lambda>(mac, l). isExpired now l) (leaseMap s))"

fun expire_all :: "string list \<Rightarrow> dhcp_state \<Rightarrow> dhcp_state \<times> dhcp_out list" where
  "expire_all [] s = (s, [])"
| "expire_all (mac # macs) s =
     (let (s', outs) = expire_all macs (remove_lease mac s) in (s', removed_event s mac @ outs))"

definition checkExpiredLeases :: "int \<Rightarrow> dhcp_state \<Rightarrow> dhcp_state \<times> dhcp_out list" where
  "checkExpiredLeases now s = expire_all (expired_macs now s) s"

definition getLeaseList :: "int \<Rightarrow> nat \<Rightarrow> dhcp_state \<Rightarrow> dhcp_out list" where
  "getLeaseList now messageId s = [LeaseList messageId (map (getInfo now \<circ> snd) (leaseMap s))]"

section \<open>Receiving, starting and stopping\<close>

definition on_message :: "int \<Rightarrow> buffer \<Rightarrow> rinfo \<Rightarrow> dhcp_state \<Rightarrow> dhcp_state \<times> dhcp_out list" where
  "on_message now msg ri s =
     (case parseDhcpPacket msg of
        None \<Rightarrow> (s, [])
      | Some packet \<Rightarrow>
          if p_op packet \<noteq> 1 then (s, [])
          else
            let (s', outs, e) =
              (if p_msgType packet = Some DISCOVER then handleDiscover packet ri s
               else if p_msgType packet = Some REQUEST then handleRequest now packet ri s
               else if p_msgType packet = Some RELEASE then handleRelease packet s
               else (s, [], None))
            in (s', outs))"

text \<open>\<open>startDhcp\<close> up to the bound socket; the address found by \<open>detectLocalIp\<close> is an
  argument, it depends on the interfaces of the machine.\<close>

definition startDhcp :: "string \<Rightarrow> dhcp_config \<Rightarrow> dhcp_state \<Rightarrow> dhcp_state" where
  "startDhcp localIp cfg s =
     s\<lparr>config := Some (if serverIp cfg = [] then cfg\<lparr>serverIp := localIp\<rparr> else cfg),
       poolStart := ipToNum (c_poolStart cfg), poolEnd := ipToNum (c_poolEnd cfg), server := True\<rparr>"

definition listenPort :: "dhcp_config \<Rightarrow> int" where
  "listenPort cfg = (case serverPort cfg of Some p \<Rightarrow> p | None \<Rightarrow> 67)"

definition on_bound :: "nat \<Rightarrow> dhcp_state \<Rightarrow> dhcp_state \<times> dhcp_out list" where
  "on_bound messageId s = (s\<lparr>leaseTimer := True\<rparr>, [SuccessResponse messageId])"

definition on_start_error :: "nat \<Rightarrow> dhcp_state \<Rightarrow> dhcp_state \<times> dhcp_out list" where
  "on_start_error messageId s = (s\<lparr>server := False\<rparr>, [ErrorResponse messageId])"

definition stopDhcp :: "nat \<Rightarrow> dhcp_state \<Rightarrow> dhcp_state \<times> dhcp_out list" where
  "stopDhcp messageId s =
     (s\<lparr>leaseTimer := False, server := False, leaseMap := [], ipToMac := [], pendingOffers := [],
        config := None\<rparr>, [SuccessResponse messageId])"

text \<open>Everything that can happen to a started server; a closed socket delivers nothing.\<close>

datatype dhcp_event =
    Datagram int buffer rinfo
  | LeaseTick int
  | AppRelease nat string
  | AppList int nat
  | AppStop nat

fun dhcp_step :: "dhcp_event \<Rightarrow> dhcp_state \<Rightarrow> dhcp_state \<times> dhcp_out list" where
  "dhcp_step (Datagram now msg ri) s = (if server s then on_message now msg ri s else (s, []))"
| "dhcp_step (LeaseTick now) s = (if leaseTimer s then checkExpiredLeases now s else (s, []))"
| "dhcp_step (AppRelease m mac) s = releaseLease m mac s"
| "dhcp_step (AppList now m) s = (s, getLeaseList now m s)"
| "dhcp_step (AppStop m) s = stopDhcp m s"

fun dhcp_run :: "dhcp_event list \<Rightarrow> dhcp_state \<Rightarrow> dhcp_state" where
  "dhcp_run [] s = s"
| "dhcp_run (ev # evs) s = dhcp_run evs (fst (dhcp_step ev s))"

section \<open>Lemmas on addresses\<close>

lemma or_low: "k < 256 \<Longrightarrow> or (x * 256) k = x * 256 + (k::nat)"
proof -
  assume k: "k < 256"
  have "and (push_bit 8 x) (take_bit 8 k) = 0"
    by (rule bit_eqI) (auto simp: bit_simps)
  then have "push_bit 8 x + take_bit 8 k = or (push_bit 8 x) (take_bit 8 k)"
    by (rule disjunctive_add_eq_or)
  with k show ?thesis by (simp add: push_bit_eq_mult take_bit_nat_eq_self)
qed

lemma octet_word:
  assumes "unat (acc :: 32 word) < 16777216" "k < 256"
  shows "unat (or (push_bit 8 acc) (word_of_int (int k))) = unat acc * 256 + k"
proof -
  have "unat (push_bit 8 acc) = unat acc * 256"
    using assms(1) by (subst unsigned_push_bit_eq) (simp add: push_bit_eq_mult take_bit_nat_eq_self)
  moreover have "unat (word_of_int (int k) :: 32 word) = k"
    using assms(2) by (simp add: unat_of_nat)
  ultimately show ?thesis using assms(2) by (simp add: unsigned_or_eq or_low)
qed

lemma octets_less: "\<forall>x\<in>set (octets n). x < 256"
  by (auto simp: octets_def)

lemma split_numToIp: "split_on CHR ''.'' (numToIp n) = map dec (octets n)"
  unfolding numToIp_def by (rule split_on_join) (auto simp: octets_def)

lemma octet_fold:
  assumes "\<forall>k\<in>set ks. k < 256" "unat acc < 256 ^ j" "j + length ks \<le> 4"
  shows "unat (foldl (\<lambda>(acc :: 32 word) k. or (push_bit 8 acc) (word_of_int (int k))) acc ks) =
    foldl (\<lambda>a k. a * 256 + k) (unat acc) ks"
  using assms
proof (induction ks arbitrary: acc j)
  case (Cons k ks)
  have "(256::nat) ^ j \<le> 256 ^ 3" using Cons.prems(3) by (intro power_increasing) simp_all
  then have small: "unat acc < 16777216" using Cons.prems(2) by simp
  have step: "unat (or (push_bit 8 acc) (word_of_int (int k))) = unat acc * 256 + k"
    using Cons.prems(1) small by (intro octet_word) simp_all
  have "k < 256" using Cons.prems(1) by simp
  then have "unat acc * 256 + k < 256 ^ Suc j" using Cons.prems(2) by simp
  then show ?case
    using Cons.IH [of "or (push_bit 8 acc) (word_of_int (int k))" "Suc j"] Cons.prems step by simp
qed simp

lemma octets_value: "n < 4294967296 \<Longrightarrow> foldl (\<lambda>a k. a * 256 + k) 0 (octets n) = n"
proof -
  assume n: "n < 4294967296"
  have "n div 16777216 mod 256 = n div 65536 div 256" "n div 256 div 256 = n div 65536"
    using n by (simp_all add: div_mult2_eq [symmetric])
  then have "(n div 16777216 mod 256 * 256 + n div 65536 mod 256) * 256 + n div 256 mod 256 = n div 256"
    by (metis div_mult_mod_eq)
  then have "foldl (\<lambda>a k. a * 256 + k) 0 (octets n) = n div 256 * 256 + n mod 256"
    by (simp only: octets_def foldl.simps mult_zero_left add_0)
  then show ?thesis by (simp only: div_mult_mod_eq)
qed

lemma ipToNum_numToIp [text_simps]: "n < 4294967296 \<Longrightarrow> ipToNum (numToIp n) = n"
proof -
  assume n: "n < 4294967296"
  have "unat (foldl (\<lambda>(acc :: 32 word) k. or (push_bit 8 acc) (word_of_int (int k))) 0 (octets n)) =
      foldl (\<lambda>a k. a * 256 + k) (unat (0 :: 32 word)) (octets n)"
    using octets_less by (rule octet_fold [of _ _ 0]) (simp_all add: octets_def)
  then show ?thesis
    by (simp add: ipToNum_def split_numToIp foldl_map parseInt10_dec octets_value [OF n])
qed

lemma numToIp_inj: "m < 4294967296 \<Longrightarrow> n < 4294967296 \<Longrightarrow> numToIp m = numToIp n \<Longrightarrow> m = n"
  by (metis ipToNum_numToIp)

lemma ipToBuffer_numToIp [text_simps]: "ipToBuffer (numToIp n) = enc32 n"
proof -
  have "n div 16777216 = n div 65536 div 256" by (simp add: div_mult2_eq [symmetric])
  then show ?thesis
    by (auto simp: ipToBuffer_def split_numToIp octets_def js_Number_dec enc32_def enc16_def
        intro!: word_of_nat_byte_cong)
qed

lemma numToIp_not_Nil [simp]: "numToIp n \<noteq> []"
  by (simp add: numToIp_def octets_def)

lemma unat_32_less: "unat (w :: 32 word) < 4294967296"
  using unsigned_less [of w] by simp

lemma ipToNum_less: "ipToNum ip < 4294967296"
  unfolding ipToNum_def by (rule unat_32_less)

section \<open>The lease table\<close>

lemma lookup_simps [simp]:
  "has_lease (s\<lparr>pendingOffers := x\<rparr>) = has_lease s" "owner_of (s\<lparr>pendingOffers := x\<rparr>) = owner_of s"
  "has_lease (s\<lparr>leaseMap := AList.update mac l (leaseMap s)\<rparr>) = (has_lease s)(mac \<mapsto> l)"
  "owner_of (s\<lparr>leaseMap := y\<rparr>) = owner_of s"
  by (auto simp: has_lease_def owner_of_def)

interpretation v4: lease_table has_lease owner_of l_ip add_lease remove_lease
  by unfold_locales
     (auto simp: has_lease_def owner_of_def add_lease_def remove_lease_def fun_eq_iff split: option.splits)

lemma pool_fixed [simp]:
  "poolStart (add_lease mac l s) = poolStart s" "poolEnd (add_lease mac l s) = poolEnd s"
  "poolStart (remove_lease mac s) = poolStart s" "poolEnd (remove_lease mac s) = poolEnd s"
  "pendingOffers (add_lease mac l s) = pendingOffers s" "config (add_lease mac l s) = config s"
  by (simp_all add: add_lease_def remove_lease_def split: option.splits)

definition in_pool :: "dhcp_state \<Rightarrow> string \<Rightarrow> bool" where
  "in_pool s ip \<longleftrightarrow> (\<exists>n. poolStart s \<le> n \<and> n \<le> poolEnd s \<and> ip = numToIp n)"

definition dhcp_inv :: "dhcp_state \<Rightarrow> bool" where
  "dhcp_inv s \<longleftrightarrow>
     table_agrees l_ip (has_lease s) (owner_of s) \<and> poolEnd s < 4294967296 \<and>
     distinct (map fst (leaseMap s)) \<and>
     (\<forall>mac l. has_lease s mac = Some l \<longrightarrow> l_macAddr l = mac \<and> in_pool s (l_ip l))"

lemma in_pool_simps [simp]:
  "in_pool (s\<lparr>pendingOffers := x\<rparr>) = in_pool s" "in_pool (s\<lparr>leaseMap := y\<rparr>) = in_pool s"
  "in_pool (add_lease mac l s) = in_pool s" "in_pool (remove_lease mac s) = in_pool s"
  by (auto simp: in_pool_def fun_eq_iff)

lemma in_poolI: "poolStart s \<le> n \<Longrightarrow> n \<le> poolEnd s \<Longrightarrow> in_pool s (numToIp n)"
  by (auto simp: in_pool_def)

lemma dhcp_inv_pending [simp]: "dhcp_inv (s\<lparr>pendingOffers := x\<rparr>) = dhcp_inv s"
  by (simp add: dhcp_inv_def)

lemma distinct_remove:
  "distinct (map fst (leaseMap s)) \<Longrightarrow> distinct (map fst (leaseMap (remove_lease mac s)))"
  by (simp add: remove_lease_def distinct_delete split: option.splits)

lemma distinct_add:
  "distinct (map fst (leaseMap s)) \<Longrightarrow> distinct (map fst (leaseMap (add_lease mac l s)))"
  by (simp add: add_lease_def distinct_update)

lemma dhcp_inv_remove: "dhcp_inv s \<Longrightarrow> dhcp_inv (remove_lease mac s)"
  using v4.agrees_unbind [of s mac]
  by (auto simp: dhcp_inv_def v4.lease_unbind distinct_remove split: if_splits)

lemma dhcp_inv_renew:
  assumes "dhcp_inv s" "has_lease s mac = Some l" "l_ip l' = l_ip l" "l_macAddr l' = l_macAddr l"
  shows "dhcp_inv (s\<lparr>leaseMap := AList.update mac l' (leaseMap s)\<rparr>)"
  using assms v4.agrees_renew [of s mac l l'] by (auto simp: dhcp_inv_def distinct_update)

lemma dhcp_inv_add:
  assumes "dhcp_inv s" "has_lease s mac = None" "owner_of s (l_ip l) = None \<or> owner_of s (l_ip l) = Some mac"
    "l_macAddr l = mac" "in_pool s (l_ip l)"
  shows "dhcp_inv (add_lease mac l s)"
proof -
  have t: "table_agrees l_ip (has_lease s) (owner_of s)" using assms(1) by (simp add: dhcp_inv_def)
  have "owner_of s (l_ip l) = None"
    using assms(2,3) table_agrees_owner [OF t] by fastforce
  then have "table_agrees l_ip (has_lease (add_lease mac l s)) (owner_of (add_lease mac l s))"
    by (rule v4.agrees_bind [OF t assms(2)])
  with assms show ?thesis by (auto simp: dhcp_inv_def v4.lease_bind distinct_add split: if_splits)
qed

lemma respond_state [simp]: "fst (respond packet ri t ip outs s) = s"
  by (simp add: respond_def split: option.splits sum.splits)

lemma dhcp_inv_discover: "dhcp_inv s \<Longrightarrow> dhcp_inv (fst (handleDiscover packet ri s))"
  by (simp add: handleDiscover_def split: option.splits)

lemma dhcp_inv_grant:
  assumes "dhcp_inv s" "owner_of s ip = None \<or> owner_of s ip = Some (p_macAddr packet)" "in_pool s ip"
  shows "dhcp_inv (fst (grant now cfg packet ri ip s))"
proof (cases "has_lease s (p_macAddr packet)")
  case None
  with assms show ?thesis
    by (simp add: grant_def Let_def) (rule dhcp_inv_add; simp add: new_DhcpLease_def)
next
  case (Some l)
  then show ?thesis
    using dhcp_inv_renew [OF assms(1) Some] by (simp add: grant_def Let_def renew_def)
qed

lemma dhcp_inv_request:
  assumes "dhcp_inv s" "\<And>ip. requested_ip packet = Some ip \<Longrightarrow> \<exists>n<4294967296. ip = numToIp n"
  shows "dhcp_inv (fst (handleRequest now packet ri s))"
proof -
  have "in_pool s ip" if "requested_ip packet = Some ip" "poolStart s \<le> ipToNum ip" "ipToNum ip \<le> poolEnd s" for ip
    using assms(2) [OF that(1)] that(2,3) by (auto simp: in_pool_def ipToNum_numToIp)
  then show ?thesis using assms(1)
    by (auto simp: handleRequest_def not_less intro!: dhcp_inv_grant split: option.splits)
qed

lemma parse_requested:
  assumes "parseDhcpPacket b = Some packet" "requested_ip packet = Some ip"
  shows "\<exists>n<4294967296. ip = numToIp n"
proof -
  have "\<exists>v. ip = numToIp (be32 v 0)"
    using assms by (auto simp: parseDhcpPacket_def requested_ip_def Let_def split: if_splits option.splits)
  then show ?thesis using be32_less by blast
qed

lemma dhcp_inv_message: "dhcp_inv s \<Longrightarrow> dhcp_inv (fst (on_message now msg ri s))"
proof (cases "parseDhcpPacket msg")
  case (Some packet)
  assume inv: "dhcp_inv s"
  have "dhcp_inv (fst (handleRequest now packet ri s))"
    using inv parse_requested [OF Some] by (rule dhcp_inv_request)
  with inv Some dhcp_inv_discover [OF inv] dhcp_inv_remove [OF inv] show ?thesis
    by (simp add: on_message_def case_prod_unfold Let_def handleRelease_def)
qed (simp add: on_message_def)

lemma expire_all_state: "fst (expire_all macs s) = fold remove_lease macs s"
  by (induction macs arbitrary: s) (simp_all add: case_prod_unfold)

lemma dhcp_inv_fold: "dhcp_inv s \<Longrightarrow> dhcp_inv (fold remove_lease macs s)"
  by (induction macs arbitrary: s) (simp_all add: dhcp_inv_remove)

lemma dhcp_inv_step: "dhcp_inv s \<Longrightarrow> dhcp_inv (fst (dhcp_step ev s))"
proof (cases ev)
  case (AppStop m)
  assume "dhcp_inv s"
  then have "poolEnd s < 4294967296" by (simp add: dhcp_inv_def)
  then show ?thesis using AppStop
    by (simp add: stopDhcp_def dhcp_inv_def has_lease_def [abs_def] owner_of_def [abs_def] fun_eq_iff
        table_agrees_def)
qed (auto simp: dhcp_inv_message checkExpiredLeases_def expire_all_state dhcp_inv_fold releaseLease_def
      dhcp_inv_remove split: option.splits)

lemma dhcp_inv_run: "dhcp_inv s \<Longrightarrow> dhcp_inv (dhcp_run evs s)"
  by (induction evs arbitrary: s) (simp_all add: dhcp_inv_step)

lemma dhcp_inv_start: "dhcp_inv (startDhcp localIp cfg new_DhcpWorker)"
  by (simp add: startDhcp_def new_DhcpWorker_def dhcp_inv_def table_agrees_def has_lease_def owner_of_def
      ipToNum_less)

section \<open>Allocation and expiry\<close>

lemma first_free_Some:
  "first_free owners n m = Some ip \<Longrightarrow>
   \<exists>k. n \<le> k \<and> k \<le> m \<and> ip = numToIp k \<and> map_of owners ip = None \<and>
       (\<forall>j. n \<le> j \<and> j < k \<longrightarrow> map_of owners (numToIp j) \<noteq> None)"
proof (induction owners n m rule: first_free.induct)
  case (1 owners n m)
  show ?case
  proof (cases "n \<le> m \<and> map_of owners (numToIp n) = None")
    case True
    with "1.prems" show ?thesis by (auto simp: first_free.simps [of owners n])
  next
    case False
    with "1.prems" have nm: "n \<le> m" "map_of owners (numToIp n) \<noteq> None" and
      r: "first_free owners (n + 1) m = Some ip"
      by (auto simp: first_free.simps [of owners n] split: if_splits)
    from "1.IH" [OF nm r] obtain k where k: "n + 1 \<le> k" "k \<le> m" "ip = numToIp k" "map_of owners ip = None"
      "\<forall>j. n + 1 \<le> j \<and> j < k \<longrightarrow> map_of owners (numToIp j) \<noteq> None" by blast
    have "map_of owners (numToIp j) \<noteq> None" if "n \<le> j" "j < k" for j
      using that nm k(5) by (cases "j = n") auto
    with k show ?thesis by (intro exI [of _ k]) auto
  qed
qed

lemma first_free_None:
  "first_free owners n m = None \<longleftrightarrow> (\<forall>j. n \<le> j \<and> j \<le> m \<longrightarrow> map_of owners (numToIp j) \<noteq> None)"
proof (induction owners n m rule: first_free.induct)
  case (1 owners n m)
  show ?case
  proof (cases "n \<le> m \<and> map_of owners (numToIp n) \<noteq> None")
    case True
    then have "first_free owners n m = None \<longleftrightarrow> first_free owners (n + 1) m = None"
      by (auto simp: first_free.simps [of owners n])
    also have "\<dots> \<longleftrightarrow> (\<forall>j. n + 1 \<le> j \<and> j \<le> m \<longrightarrow> map_of owners (numToIp j) \<noteq> None)"
      using True "1.IH" by blast
    also have "\<dots> \<longleftrightarrow> (\<forall>j. n \<le> j \<and> j \<le> m \<longrightarrow> map_of owners (numToIp j) \<noteq> None)"
      using True by (auto simp: Suc_le_eq) (metis le_neq_implies_less option.distinct(1))
    finally show ?thesis .
  next
    case False
    then show ?thesis by (auto simp: first_free.simps [of owners n])
  qed
qed

lemma expired_iff:
  assumes "dhcp_inv s"
  shows "mac \<in> set (expired_macs now s) \<longleftrightarrow> (\<exists>l. has_lease s mac = Some l \<and> isExpired now l)"
proof -
  have "distinct (map fst (leaseMap s))" using assms by (simp add: dhcp_inv_def)
  then have "(mac, l) \<in> set (leaseMap s) \<longleftrightarrow> has_lease s mac = Some l" for l
    by (simp add: has_lease_def)
  then show ?thesis by (force simp: expired_macs_def)
qed

lemma expire_lease:
  assumes "dhcp_inv s"
  shows "has_lease (fst (checkExpiredLeases now s)) mac =
    (case has_lease s mac of None \<Rightarrow> None | Some l \<Rightarrow> if isExpired now l then None else Some l)"
  using expired_iff [OF assms, of mac now]
  by (auto simp: checkExpiredLeases_def expire_all_state v4.lease_unbind_fold split: option.splits)

lemma expire_inv: "dhcp_inv s \<Longrightarrow> dhcp_inv (fst (checkExpiredLeases now s))"
  by (simp add: checkExpiredLeases_def expire_all_state dhcp_inv_fold)

lemma owner_iff:
  assumes "dhcp_inv s"
  shows "owner_of s ip = Some mac \<longleftrightarrow> (\<exists>l. has_lease s mac = Some l \<and> l_ip l = ip)"
proof -
  have "table_agrees l_ip (has_lease s) (owner_of s)" using assms by (simp add: dhcp_inv_def)
  then show ?thesis using table_agrees_lease table_agrees_owner by fastforce
qed

section \<open>The wire form of a response\<close>

definition cur :: "buffer \<Rightarrow> nat \<Rightarrow> cursor" where
  "cur pre k = (pre @ alloc k, length pre)"

lemma cur_writes [simp]:
  "1 \<le> k \<Longrightarrow> w8 n (cur pre k) = cur (pre @ enc8 n) (k - 1)"
  "4 \<le> k \<Longrightarrow> w32 n (cur pre k) = cur (pre @ enc32 n) (k - 4)"
  "length (ipToBuffer ip) = 4 \<Longrightarrow> 4 \<le> k \<Longrightarrow> wip ip (cur pre k) = cur (pre @ ipToBuffer ip) (k - 4)"
  by (simp_all add: cur_def w8_def w32_def wip_def buf_simps)

definition tlv :: "nat \<times> buffer \<Rightarrow> buffer" where
  "tlv = (\<lambda>(code, v). enc8 code @ enc8 (length v) @ v)"

lemma parse_options_tlvs:
  assumes "\<forall>(code, v) \<in> set ts. 0 < code \<and> code < 255 \<and> length v < 256"
  shows "parse_options (pre @ concat (map tlv ts) @ [255]) (length pre) opts =
    fold (\<lambda>(code, v) m. m(code \<mapsto> v)) ts opts"
  using assms
proof (induction ts arbitrary: pre opts)
  case Nil
  show ?case by (simp add: parse_options.simps)
next
  case (Cons t ts)
  obtain code v where t: "t = (code, v)" by (cases t)
  with Cons.prems have cv: "0 < code" "code < 255" "length v < 256" by auto
  let ?rest = "concat (map tlv ts) @ [255]"
  have b: "pre @ concat (map tlv (t # ts)) @ [255] = (pre @ tlv t) @ ?rest" by simp
  have "parse_options ((pre @ tlv t) @ ?rest) (length pre) opts =
      parse_options ((pre @ tlv t) @ ?rest) (length (pre @ tlv t)) (opts(code \<mapsto> v))"
    using cv t by (subst parse_options.simps)
      (simp add: Let_def tlv_def enc8_def nth_append subarray_def add.commute)
  also have "\<dots> = fold (\<lambda>(code, v) m. m(code \<mapsto> v)) ts (opts(code \<mapsto> v))"
    using Cons.IH [of "pre @ tlv t" "opts(code \<mapsto> v)"] Cons.prems by (simp del: fun_upd_apply)
  finally show ?case using b t by (simp del: fun_upd_apply)
qed

lemma put_gap:
  assumes "length pre \<le> off" "off + length bs \<le> length pre + k"
  shows "put (pre @ alloc k) off bs =
    (pre @ alloc (off - length pre) @ bs) @ alloc (length pre + k - (off + length bs))"
proof -
  have "alloc k = alloc (off - length pre) @ alloc (length pre + k - off)"
    using assms by (simp add: alloc_def replicate_add [symmetric])
  then show ?thesis
    using assms put_append [of off "pre @ alloc (off - length pre)" bs "alloc (length pre + k - off)"]
    by (simp add: buf_simps)
qed

lemma put_next:
  "off = length pre \<Longrightarrow> length bs \<le> k \<Longrightarrow>
   put (pre @ alloc k) off bs = (pre @ bs) @ alloc (k - length bs)"
  using put_gap [of pre off bs k] by (simp add: alloc_def)

definition packet_ok :: "dhcp_packet \<Rightarrow> bool" where
  "packet_ok p \<longleftrightarrow> p_htype p < 256 \<and> p_hlen p < 256 \<and> p_xid p < 4294967296 \<and> p_flags p < 65536 \<and>
     length (p_giaddr p) = 4 \<and> length (p_chaddr p) = 16 \<and>
     p_macAddr p = mac_text (subarray (p_chaddr p) 0 (if p_hlen p = 0 then 6 else p_hlen p))"

lemma unat_byte_0_iff: "unat (w :: byte) = 0 \<longleftrightarrow> w = 0"
  by (simp add: unat_eq_0)

lemma parse_packet_ok: "parseDhcpPacket b = Some packet \<Longrightarrow> packet_ok packet"
  by (auto simp: parseDhcpPacket_def packet_ok_def Let_def buf_simps unat_byte_0_iff split: if_splits)

definition fixed_header :: "dhcp_packet \<Rightarrow> string \<Rightarrow> string \<Rightarrow> buffer" where
  "fixed_header p ip srv =
     enc8 2 @ enc8 (p_htype p) @ enc8 (p_hlen p) @ enc8 0 @ enc32 (p_xid p) @ enc16 0 @
     enc16 (p_flags p) @ alloc 4 @ ipToBuffer ip @ ipToBuffer srv @ p_giaddr p @ p_chaddr p @
     alloc 192 @ MAGIC_COOKIE"

lemma response_header_eq:
  assumes "packet_ok p" "length (ipToBuffer ip) = 4" "length (ipToBuffer srv) = 4"
  shows "response_header p ip srv = fixed_header p ip srv @ alloc 336"
proof -
  have "put (alloc 576) 0 (enc8 2) = enc8 2 @ alloc 575" by (simp add: put_alloc)
  then show ?thesis
    using assms unfolding response_header_def packet_ok_def Let_def
    by (simp add: put_next put_gap MAGIC_COOKIE_def del: append_assoc)
       (simp add: fixed_header_def MAGIC_COOKIE_def)
qed

definition cfg_ok :: "dhcp_config \<Rightarrow> bool" where
  "cfg_ok cfg \<longleftrightarrow> 0 \<le> leaseTime cfg \<and> leaseTime cfg \<le> 0xffffffff \<and>
     length (ipToBuffer (serverIp cfg)) = 4 \<and> length (ipToBuffer (subnetMask cfg)) = 4 \<and>
     (gateway cfg \<noteq> [] \<longrightarrow> length (ipToBuffer (gateway cfg)) = 4) \<and>
     (\<forall>d\<in>set (dnsServers cfg). length (ipToBuffer d) = 4)"

text \<open>The options of a response, in the order they are written.\<close>

definition response_options :: "dhcp_config \<Rightarrow> nat \<Rightarrow> (nat \<times> buffer) list" where
  "response_options cfg msgType =
     [(53, enc8 msgType), (54, ipToBuffer (serverIp cfg))] @
     (if msgType = NAK then []
      else [(51, enc32 (nat (leaseTime cfg))), (1, ipToBuffer (subnetMask cfg))] @
           (if gateway cfg = [] then [] else [(3, ipToBuffer (gateway cfg))]) @
           (if dnsServers cfg = [] then [] else [(6, concat (map ipToBuffer (dnsServers cfg)))]))"

lemma dnsServers_le: "length (dnsServers cfg) \<le> 2"
  by (simp add: dnsServers_def)

lemma length_concat_ips: "\<forall>d\<in>set ds. length (ipToBuffer d) = 4 \<Longrightarrow> length (concat (map ipToBuffer ds)) = 4 * length ds"
  by (induction ds) simp_all

lemma fold_wip:
  "\<forall>d\<in>set ds. length (ipToBuffer d) = 4 \<Longrightarrow> 4 * length ds \<le> k \<Longrightarrow>
   fold wip ds (cur pre k) = cur (pre @ concat (map ipToBuffer ds)) (k - 4 * length ds)"
  by (induction ds arbitrary: pre k) simp_all

lemma write_gateway_cur:
  "cfg_ok cfg \<Longrightarrow> 6 \<le> k \<Longrightarrow>
   write_gateway cfg (cur pre k) =
     (if gateway cfg = [] then cur pre k else cur (pre @ tlv (3, ipToBuffer (gateway cfg))) (k - 6))"
  by (simp add: write_gateway_def cfg_ok_def tlv_def)

lemma write_dns_cur:
  assumes "cfg_ok cfg" "10 \<le> k"
  shows "write_dns cfg (cur pre k) =
     (if dnsServers cfg = [] then cur pre k
      else cur (pre @ tlv (6, concat (map ipToBuffer (dnsServers cfg)))) (k - 2 - 4 * length (dnsServers cfg)))"
proof -
  have ips: "\<forall>d\<in>set (dnsServers cfg). length (ipToBuffer d) = 4" using assms by (simp add: cfg_ok_def)
  have "4 * length (dnsServers cfg) \<le> k - 2" using dnsServers_le [of cfg] assms by simp
  then show ?thesis
    using assms ips length_concat_ips [OF ips]
    by (simp add: write_dns_def fold_wip tlv_def mult.commute)
qed

lemma finish_cur: "(case cur pre k of (b, i) \<Rightarrow> Inr (subarray b 0 i)) = Inr pre"
  by (simp add: cur_def buf_simps)

lemma enc8_255: "enc8 255 = [255]"
  by (simp add: enc8_def)

lemma buildDhcpResponse_eq:
  assumes "packet_ok p" "cfg_ok cfg" "length (ipToBuffer ip) = 4"
  shows "buildDhcpResponse cfg p msgType ip (serverIp cfg) =
    Inr (fixed_header p ip (serverIp cfg) @ concat (map tlv (response_options cfg msgType)) @ [255])"
proof -
  let ?h = "fixed_header p ip (serverIp cfg)"
  have "length ?h = 240"
    using assms by (simp add: fixed_header_def packet_ok_def cfg_ok_def MAGIC_COOKIE_def)
  then have h: "(response_header p ip (serverIp cfg), 240) = cur ?h 336"
    using assms response_header_eq [of p ip "serverIp cfg"] by (simp add: cur_def cfg_ok_def)
  have t: "0 \<le> leaseTime cfg \<and> leaseTime cfg \<le> 0xffffffff"
    "length (ipToBuffer (serverIp cfg)) = 4" "length (ipToBuffer (subnetMask cfg)) = 4"
    using assms(2) by (simp_all add: cfg_ok_def)
  have d: "4 * length (dnsServers cfg) \<le> 8" using dnsServers_le [of cfg] by simp
  show ?thesis
    using t d assms(2) unfolding buildDhcpResponse_def Let_def h
    by (auto simp: write_gateway_cur write_dns_cur finish_cur enc8_255 response_options_def tlv_def)
qed

lemma response_options_lookup:
  assumes "cfg_ok cfg"
  shows "\<forall>(code, v) \<in> set (response_options cfg msgType). 0 < code \<and> code < 255 \<and> length v < 256"
proof -
  have ips: "\<forall>d\<in>set (dnsServers cfg). length (ipToBuffer d) = 4" using assms by (simp add: cfg_ok_def)
  have "length (concat (map ipToBuffer (dnsServers cfg))) < 256"
    using length_concat_ips [OF ips] dnsServers_le [of cfg] by linarith
  then show ?thesis using assms by (auto simp: response_options_def cfg_ok_def)
qed

lemma header_fields:
  fixes rest :: buffer
  assumes "packet_ok p" "length (ipToBuffer ip) = 4" "length (ipToBuffer srv) = 4"
  defines "b \<equiv> fixed_header p ip srv @ rest"
  shows "240 \<le> length b" "b ! 0 = 2" "b ! 2 = word_of_nat (p_hlen p)" "be32 b 4 = p_xid p"
    "subarray b 16 20 = ipToBuffer ip" "subarray b 28 44 = p_chaddr p" "subarray b 236 240 = MAGIC_COOKIE"
proof -
  have ok: "p_hlen p < 256" "p_xid p < 4294967296" "length (p_giaddr p) = 4" "length (p_chaddr p) = 16"
    using assms(1) by (simp_all add: packet_ok_def)
  show "b ! 0 = 2" "b ! 2 = word_of_nat (p_hlen p)"
    unfolding b_def fixed_header_def enc8_def by simp_all
  show "240 \<le> length b" "be32 b 4 = p_xid p" "subarray b 16 20 = ipToBuffer ip"
    "subarray b 28 44 = p_chaddr p" "subarray b 236 240 = MAGIC_COOKIE"
    using ok assms(2,3) unfolding b_def fixed_header_def by (simp_all add: buf_simps MAGIC_COOKIE_def)
qed

lemma fixed_header_length:
  "packet_ok p \<Longrightarrow> length (ipToBuffer ip) = 4 \<Longrightarrow> length (ipToBuffer srv) = 4 \<Longrightarrow>
   length (fixed_header p ip srv) = 240"
  by (simp add: fixed_header_def packet_ok_def MAGIC_COOKIE_def)

lemma parse_fields:
  assumes "parseDhcpPacket b = Some q"
  shows "p_op q = unat (b ! 0)" "p_xid q = be32 b 4" "p_yiaddr q = subarray b 16 20"
    "p_macAddr q = mac_text (subarray (subarray b 28 44) 0 (if b ! 2 = 0 then 6 else unat (b ! 2)))"
    "p_options q = (if 240 < length b \<and> subarray b 236 240 = MAGIC_COOKIE
       then parse_options b 240 Map.empty else Map.empty)"
    "p_msgType q = map_option (\<lambda>v. unat (v ! 0)) (opt_at_least (p_options q) 53 1)"
    "p_serverId q = map_option (\<lambda>v. numToIp (be32 v 0)) (opt_at_least (p_options q) 54 4)"
  using assms unfolding parseDhcpPacket_def Let_def by (auto split: if_splits)

lemma hlen_zero_iff: "n < 256 \<Longrightarrow> (word_of_nat n :: byte) = 0 \<longleftrightarrow> n = 0"
  using unat_byte_0_iff [of "word_of_nat n"] by simp

lemma respond_ok:
  assumes "config s = Some cfg" "cfg_ok cfg" "packet_ok p" "length (ipToBuffer ip) = 4"
  shows "\<exists>resp. buildDhcpResponse cfg p t ip (serverIp cfg) = Inr resp \<and>
    respond p ri t ip outs s = (s, outs @ [sendResponse resp p ri], None)"
  using assms buildDhcpResponse_eq [OF assms(3,2,4), of t] by (simp add: respond_def)

text \<open>What \<open>handleRequest\<close> does for a request that passes its checks.\<close>

lemma handleRequest_granted:
  assumes "config s = Some cfg" "p_serverId p = None \<or> p_serverId p = Some (serverIp cfg)"
    and "requested_ip p = Some ip" "poolStart s \<le> ipToNum ip" "ipToNum ip \<le> poolEnd s"
    and "owner_of s ip = None \<or> owner_of s ip = Some (p_macAddr p)"
  shows "handleRequest now p ri s = grant now cfg p ri ip s"
  using assms by (auto simp: handleRequest_def)

lemma grant_renews:
  assumes "config s = Some cfg" "cfg_ok cfg" "packet_ok p" "length (ipToBuffer ip) = 4"
    and "has_lease s (p_macAddr p) = Some l"
  shows "\<exists>s' l' ev resp. grant now cfg p ri ip s = (s', [ev, sendResponse resp p ri], None) \<and>
    buildDhcpResponse cfg p ACK ip (serverIp cfg) = Inr resp \<and>
    has_lease s' = (has_lease s)(p_macAddr p \<mapsto> l') \<and> owner_of s' = owner_of s \<and> l_ip l' = l_ip l \<and>
    l_expiresAt l' = now + leaseTime cfg * 1000 \<and> config s' = config s \<and>
    poolStart s' = poolStart s \<and> poolEnd s' = poolEnd s"
proof -
  let ?h = "case p_hostname p of None \<Rightarrow> unknown_host | Some h \<Rightarrow> if h = [] then unknown_host else h"
  let ?l = "(renew now (leaseTime cfg) l)\<lparr>l_hostname := ?h\<rparr>"
  let ?s = "s\<lparr>leaseMap := AList.update (p_macAddr p) ?l (leaseMap s),
      pendingOffers := AList.delete (p_xid p) (pendingOffers s)\<rparr>"
  obtain resp where r: "buildDhcpResponse cfg p ACK ip (serverIp cfg) = Inr resp"
    "respond p ri ACK ip [LeaseEvent ''update'' (getInfo now ?l)] ?s =
       (?s, [LeaseEvent ''update'' (getInfo now ?l)] @ [sendResponse resp p ri], None)"
    using respond_ok [of ?s cfg p ip ACK ri "[LeaseEvent ''update'' (getInfo now ?l)]"] assms by auto
  then show ?thesis
    using assms(5)
    by (intro exI [of _ ?s] exI [of _ ?l] exI [of _ "LeaseEvent ''update'' (getInfo now ?l)"] exI [of _ resp])
       (simp add: grant_def Let_def renew_def)
qed

lemma grant_binds:
  assumes "config s = Some cfg" "cfg_ok cfg" "packet_ok p" "length (ipToBuffer ip) = 4"
    and "has_lease s (p_macAddr p) = None"
  shows "\<exists>s' l' ev resp. grant now cfg p ri ip s = (s', [ev, sendResponse resp p ri], None) \<and>
    buildDhcpResponse cfg p ACK ip (serverIp cfg) = Inr resp \<and>
    has_lease s' (p_macAddr p) = Some l' \<and> owner_of s' ip = Some (p_macAddr p) \<and> l_ip l' = ip \<and>
    l_expiresAt l' = now + leaseTime cfg * 1000"
proof -
  let ?h = "case p_hostname p of None \<Rightarrow> unknown_host | Some h \<Rightarrow> if h = [] then unknown_host else h"
  let ?l = "new_DhcpLease now (p_macAddr p) ip ?h (leaseTime cfg)"
  let ?s = "(add_lease (p_macAddr p) ?l s)\<lparr>pendingOffers := AList.delete (p_xid p) (pendingOffers s)\<rparr>"
  obtain resp where r: "buildDhcpResponse cfg p ACK ip (serverIp cfg) = Inr resp"
    "respond p ri ACK ip [LeaseEvent ''add'' (getInfo now ?l)] ?s =
       (?s, [LeaseEvent ''add'' (getInfo now ?l)] @ [sendResponse resp p ri], None)"
    using respond_ok [of ?s cfg p ip ACK ri "[LeaseEvent ''add'' (getInfo now ?l)]"] assms by auto
  then show ?thesis
    using assms(5)
    by (intro exI [of _ ?s] exI [of _ ?l] exI [of _ "LeaseEvent ''add'' (getInfo now ?l)"] exI [of _ resp])
       (simp add: grant_def Let_def v4.lease_bind v4.owner_bind new_DhcpLease_def)
qed

lemma allocated_in_pool:
  assumes "dhcp_inv s" "allocateIp s mac = Some ip"
  shows "in_pool s ip \<and> (owner_of s ip = None \<or> owner_of s ip = Some mac) \<and>
    (\<forall>l. has_lease s mac = Some l \<longrightarrow> l_ip l = ip)"
proof (cases "has_lease s mac")
  case None
  with assms show ?thesis
    using first_free_Some [of "ipToMac s" "poolStart s" "poolEnd s" ip]
    by (auto simp: allocateIp_def owner_of_def in_pool_def)
next
  case (Some l)
  with assms owner_iff [OF assms(1), of ip mac] show ?thesis
    by (auto simp: allocateIp_def dhcp_inv_def)
qed

lemma in_pool_facts:
  "dhcp_inv s \<Longrightarrow> in_pool s ip \<Longrightarrow>
   poolStart s \<le> ipToNum ip \<and> ipToNum ip \<le> poolEnd s \<and> length (ipToBuffer ip) = 4"
  by (auto simp: in_pool_def dhcp_inv_def ipToNum_numToIp ipToBuffer_numToIp)

section \<open>A small server for concrete runs\<close>

definition demo_config :: dhcp_config where
  "demo_config = \<lparr>serverPort = Some 67, serverIp = numToIp 0x0A0000FE, c_poolStart = numToIp 0x0A000001,
     c_poolEnd = numToIp 0x0A000009, subnetMask = numToIp 0xFFFFFF00, gateway = [], dns1 = [], dns2 = [],
     leaseTime = 60\<rparr>"

definition demo_hw :: "byte \<Rightarrow> buffer" where
  "demo_hw host = [2, 0, 0, 0, 0, host] @ alloc 10"

definition demo_message :: "byte \<Rightarrow> nat \<Rightarrow> buffer" where
  "demo_message host n = enc32 0x01010600 @ enc32 7 @ alloc 20 @ demo_hw host @
     alloc 192 @ MAGIC_COOKIE @ concat (map tlv [(53, enc8 3), (50, enc32 n)]) @ [255]"

definition demo_mac :: "byte \<Rightarrow> string" where
  "demo_mac host = mac_text [2, 0, 0, 0, 0, host]"

definition demo_start :: dhcp_state where
  "demo_start = startDhcp [] demo_config new_DhcpWorker"

definition demo_rinfo :: rinfo where
  "demo_rinfo = \<lparr>address = numToIp 0, port = 68\<rparr>"

definition demo_packet :: "byte \<Rightarrow> nat \<Rightarrow> string option \<Rightarrow> dhcp_packet" where
  "demo_packet host t ip = \<lparr>p_op = 1, p_htype = 1, p_hlen = 6, p_hops = 0, p_xid = 7, p_secs = 0,
     p_flags = 0, p_ciaddr = alloc 4, p_yiaddr = alloc 4, p_siaddr = alloc 4, p_giaddr = alloc 4,
     p_chaddr = demo_hw host, p_options = Map.empty, p_macAddr = demo_mac host,
     p_msgType = Some t, p_requestedIp = ip, p_hostname = None, p_serverId = None\<rparr>"

definition demo_lease :: "byte \<Rightarrow> dhcp_lease" where
  "demo_lease host = new_DhcpLease 0 (demo_mac host) (numToIp (0x0A000000 + unat host)) unknown_host 60"


lemma length_demo_hw [simp]: "length (demo_hw host) = 16"
  by (simp add: demo_hw_def)

lemma demo_mac_hw: "mac_text (take 6 (demo_hw host)) = demo_mac host"
  by (simp add: demo_hw_def demo_mac_def)

lemma demo_parse:
  "parseDhcpPacket (demo_message host n) =
   Some ((demo_packet host 3 (Some (numToIp (n mod 4294967296))))\<lparr>p_options := [53 \<mapsto> enc8 3, 50 \<mapsto> enc32 n]\<rparr>)"
proof -
  let ?pre = "enc32 0x01010600 @ enc32 7 @ alloc 20 @ demo_hw host @ alloc 192 @ MAGIC_COOKIE"
  have opts: "parse_options (demo_message host n) 240 Map.empty = [53 \<mapsto> enc8 3, 50 \<mapsto> enc32 n]"
    using parse_options_tlvs [of "[(53, enc8 3), (50, enc32 n)]" ?pre Map.empty]
    by (simp add: demo_message_def MAGIC_COOKIE_def)
  have hdr: "demo_message host n ! 0 = 1" "demo_message host n ! 1 = 1" "demo_message host n ! 2 = 6"
    "demo_message host n ! 3 = 0"
    by (simp_all add: demo_message_def enc32_def enc16_def)
  have magic: "subarray (demo_message host n) 236 240 = MAGIC_COOKIE" "240 < length (demo_message host n)"
    by (simp_all add: demo_message_def buf_simps MAGIC_COOKIE_def)
  have f: "be32 (demo_message host n) 4 = 7" "be16 (demo_message host n) 8 = 0" "be16 (demo_message host n) 10 = 0"
    "subarray (demo_message host n) 12 16 = alloc 4" "subarray (demo_message host n) 16 20 = alloc 4"
    "subarray (demo_message host n) 20 24 = alloc 4" "subarray (demo_message host n) 24 28 = alloc 4"
    "subarray (demo_message host n) 28 44 = demo_hw host"
    by (simp_all add: demo_message_def buf_simps)
  have "unat (6 :: byte) = 6" "unat (1 :: byte) = 1" by simp_all
  then show ?thesis
    using opts hdr magic f
    by (simp add: parseDhcpPacket_def Let_def demo_packet_def opt_at_least_def buf_simps demo_mac_hw) (simp add: enc8_def)
qed

lemma demo_ok: "cfg_ok demo_config" "packet_ok (demo_packet host t ip)"
  by (simp_all add: cfg_ok_def demo_config_def ipToBuffer_numToIp dnsServers_def packet_ok_def demo_packet_def
      buf_simps demo_mac_hw)

lemma demo_pool: "poolStart demo_start = 0x0A000001" "poolEnd demo_start = 0x0A000009" "config demo_start = Some demo_config"
  "server demo_start" "has_lease demo_start = Map.empty" "owner_of demo_start = Map.empty"
  by (simp_all add: demo_start_def startDhcp_def demo_config_def ipToNum_numToIp new_DhcpWorker_def fun_eq_iff has_lease_def owner_of_def)

lemma demo_inv: "dhcp_inv demo_start"
  unfolding demo_start_def by (rule dhcp_inv_start)

lemma demo_run:
  "has_lease (dhcp_run [Datagram 0 (demo_message 1 0x0A000001) demo_rinfo] demo_start) (demo_mac 1) = Some (demo_lease 1)"
  by (simp add: demo_pool on_message_def demo_parse)
     (simp add: demo_packet_def DISCOVER_def REQUEST_def handleRequest_def demo_pool requested_ip_def
       ipToNum_numToIp case_prod_unfold Let_def grant_def v4.lease_bind demo_lease_def demo_config_def
       unknown_host_def)

definition demo_two :: dhcp_state where
  "demo_two = add_lease (demo_mac 2) (demo_lease 2) (add_lease (demo_mac 1) (demo_lease 1) demo_start)"

lemma demo_mac_neq: "demo_mac 1 \<noteq> demo_mac 2"
  by (simp add: demo_mac_def mac_text_def hex_def hex_digit_def)

lemma demo_lease_ip: "l_ip (demo_lease h) = numToIp (0x0A000000 + unat h)" "l_macAddr (demo_lease h) = demo_mac h"
  by (simp_all add: demo_lease_def new_DhcpLease_def)

lemma numToIp_eq_iff: "m < 4294967296 \<Longrightarrow> n < 4294967296 \<Longrightarrow> numToIp m = numToIp n \<longleftrightarrow> m = n"
  using numToIp_inj by blast

lemma demo_two_facts:
  "has_lease demo_two (demo_mac 1) = Some (demo_lease 1)" "has_lease demo_two (demo_mac 2) = Some (demo_lease 2)"
  "owner_of demo_two (numToIp 0x0A000003) = None" "config demo_two = Some demo_config"
  "in_pool demo_two (numToIp 0x0A000003)"
  using demo_mac_neq
  by (auto simp: demo_two_def v4.lease_bind v4.owner_bind demo_pool demo_lease_ip numToIp_eq_iff
      intro!: in_poolI)

lemma demo_two_inv: "dhcp_inv demo_two"
  unfolding demo_two_def
  by (intro dhcp_inv_add demo_inv)
     (auto simp: v4.lease_bind v4.owner_bind demo_pool demo_lease_ip numToIp_eq_iff
       demo_mac_neq [symmetric] intro!: in_poolI)

section \<open>Properties of the DHCPv4 server\<close>



text \<open>C27. \<open>allocateIp\<close>: a client with a lease gets its own address again; a new client
  gets the lowest address of the pool nobody owns, and nothing only when every address of
  the pool is owned.\<close>

theorem dhcp_allocateIp:
  "case allocateIp s mac of
     Some ip \<Rightarrow> (\<exists>l. has_lease s mac = Some l \<and> ip = l_ip l) \<or>
       has_lease s mac = None \<and> owner_of s ip = None \<and>
       (\<exists>k. poolStart s \<le> k \<and> k \<le> poolEnd s \<and> ip = numToIp k \<and>
            (\<forall>j. poolStart s \<le> j \<and> j < k \<longrightarrow> owner_of s (numToIp j) \<noteq> None))
   | None \<Rightarrow> has_lease s mac = None \<and>
       (\<forall>j. poolStart s \<le> j \<and> j \<le> poolEnd s \<longrightarrow> owner_of s (numToIp j) \<noteq> None)"
proof (cases "has_lease s mac")
  case None
  show ?thesis
  proof (cases "allocateIp s mac")
    case N: None
    with None have "first_free (ipToMac s) (poolStart s) (poolEnd s) = None" by (simp add: allocateIp_def)
    with None N show ?thesis by (simp add: first_free_None owner_of_def)
  next
    case (Some ip)
    with None first_free_Some [of "ipToMac s" "poolStart s" "poolEnd s" ip] show ?thesis
      by (auto simp: allocateIp_def owner_of_def)
  qed
qed (simp add: allocateIp_def)

theorem dhcp_allocateIp_witness: "allocateIp demo_start (demo_mac 1) = Some (numToIp 0x0A000001)"
proof -
  have none: "has_lease demo_start (demo_mac 1) = None" "\<And>ip. owner_of demo_start ip = None"
    by (simp_all add: demo_start_def startDhcp_def new_DhcpWorker_def has_lease_def owner_of_def Let_def)
  have pool: "poolStart demo_start = 0x0A000001" "poolStart demo_start \<le> poolEnd demo_start"
    by (simp_all add: demo_start_def startDhcp_def demo_config_def Let_def ipToNum_numToIp)
  show ?thesis
  proof (cases "allocateIp demo_start (demo_mac 1)")
    case None
    with dhcp_allocateIp [of demo_start "demo_mac 1"] none(2) pool(2) show ?thesis by auto
  next
    case (Some ip)
    with dhcp_allocateIp [of demo_start "demo_mac 1"] none obtain k where
      k: "poolStart demo_start \<le> k" "ip = numToIp k" "\<forall>j. poolStart demo_start \<le> j \<and> j < k \<longrightarrow> False"
      by auto
    then have "k = poolStart demo_start" using le_neq_implies_less by blast
    with k Some pool(1) show ?thesis by simp
  qed
qed



text \<open>C30. The four-message exchange: whenever the server has an address to offer, a DISCOVER
  is answered with an OFFER of it, and the client's REQUEST for that address is answered
  with an ACK and leaves the client with a lease of the address that ends \<open>leaseTime\<close>
  seconds after the request and that no other client owns.\<close>

theorem dhcp_discover_request:
  assumes "dhcp_inv s" "config s = Some cfg" "cfg_ok cfg" "packet_ok d" "packet_ok r"
    and "p_macAddr r = p_macAddr d" "allocateIp s (p_macAddr d) = Some ip"
    and "p_requestedIp r = Some ip" "p_serverId r = None \<or> p_serverId r = Some (serverIp cfg)"
  shows "\<exists>s1 offer s2 ev ack l.
    handleDiscover d ri s = (s1, [sendResponse offer d ri], None) \<and>
    buildDhcpResponse cfg d OFFER ip (serverIp cfg) = Inr offer \<and>
    handleRequest now r ri s1 = (s2, [ev, sendResponse ack r ri], None) \<and>
    buildDhcpResponse cfg r ACK ip (serverIp cfg) = Inr ack \<and>
    has_lease s2 (p_macAddr d) = Some l \<and> l_ip l = ip \<and> l_expiresAt l = now + leaseTime cfg * 1000 \<and>
    owner_of s2 ip = Some (p_macAddr d)"
proof -
  let ?s1 = "s\<lparr>pendingOffers := AList.update (p_xid d) (p_macAddr d, ip) (pendingOffers s)\<rparr>"
  note pool = allocated_in_pool [OF assms(1,7)]
  then have ipf: "poolStart s \<le> ipToNum ip" "ipToNum ip \<le> poolEnd s" "length (ipToBuffer ip) = 4"
    using in_pool_facts [OF assms(1)] by blast+
  obtain offer where o: "buildDhcpResponse cfg d OFFER ip (serverIp cfg) = Inr offer"
    "handleDiscover d ri s = (?s1, [sendResponse offer d ri], None)"
    using respond_ok [of ?s1 cfg d ip OFFER ri "[]"] assms ipf by (auto simp: handleDiscover_def)
  have g: "handleRequest now r ri ?s1 = grant now cfg r ri ip ?s1"
    using assms ipf pool by (intro handleRequest_granted) (auto simp: requested_ip_def)
  have "\<exists>s2 l ev ack. grant now cfg r ri ip ?s1 = (s2, [ev, sendResponse ack r ri], None) \<and>
    buildDhcpResponse cfg r ACK ip (serverIp cfg) = Inr ack \<and>
    has_lease s2 (p_macAddr d) = Some l \<and> owner_of s2 ip = Some (p_macAddr d) \<and> l_ip l = ip \<and>
    l_expiresAt l = now + leaseTime cfg * 1000"
  proof (cases "has_lease s (p_macAddr d)")
    case None
    then show ?thesis using grant_binds [of ?s1 cfg r ip now ri] assms ipf by simp
  next
    case (Some l)
    then have "owner_of s ip = Some (p_macAddr d)" using pool owner_iff [OF assms(1)] by blast
    with Some show ?thesis
      using grant_renews [of ?s1 cfg r ip l now ri] assms ipf pool by fastforce
  qed
  with o g show ?thesis by metis
qed

theorem dhcp_discover_request_witness:
  "\<exists>s1 offer s2 ev ack l.
    handleDiscover (demo_packet 1 1 None) demo_rinfo demo_start =
      (s1, [sendResponse offer (demo_packet 1 1 None) demo_rinfo], None) \<and>
    handleRequest 5 (demo_packet 1 3 (Some (numToIp 0x0A000001))) demo_rinfo s1 =
      (s2, [ev, sendResponse ack (demo_packet 1 3 (Some (numToIp 0x0A000001))) demo_rinfo], None) \<and>
    has_lease s2 (demo_mac 1) = Some l \<and> l_ip l = numToIp 0x0A000001 \<and> l_expiresAt l = 60005"
proof -
  have "ipToMac demo_start = []" by (simp add: demo_start_def startDhcp_def new_DhcpWorker_def)
  then have a: "allocateIp demo_start (demo_mac 1) = Some (numToIp 0x0A000001)"
    by (simp add: allocateIp_def demo_pool first_free.simps)
  show ?thesis
    using dhcp_discover_request [OF demo_inv demo_pool(3) demo_ok(1) demo_ok(2) [of 1 1 None]
        demo_ok(2) [of 1 3 "Some (numToIp 0x0A000001)"], of "numToIp 0x0A000001" demo_rinfo 5]
      a by (fastforce simp: demo_packet_def demo_config_def)
qed

text \<open>After the expiry timer has run at time \<open>now\<close>, exactly the leases that had
  not expired are left, unchanged, and every address whose lease expired is free again.\<close>

theorem dhcp_expiry:
  assumes "dhcp_inv s"
    and s'_def: "s' = fst (checkExpiredLeases now s)"
  shows "has_lease s' mac =
      (case has_lease s mac of None \<Rightarrow> None | Some l \<Rightarrow> if isExpired now l then None else Some l) \<and>
    owner_of s' ip = (case owner_of s ip of None \<Rightarrow> None
      | Some m \<Rightarrow> if has_lease s' m = None then None else Some m)"
proof (intro conjI)
  show "has_lease s' mac =
      (case has_lease s mac of None \<Rightarrow> None | Some l \<Rightarrow> if isExpired now l then None else Some l)"
    unfolding s'_def by (rule expire_lease [OF assms(1)])
  have o': "owner_of s' ip = Some m \<longleftrightarrow> (\<exists>l. has_lease s' m = Some l \<and> l_ip l = ip)" for m
    unfolding s'_def by (rule owner_iff [OF expire_inv [OF assms(1)]])
  have l': "has_lease s' m = Some l \<Longrightarrow> has_lease s m = Some l" for m l
    using expire_lease [OF assms(1), of now m] by (auto simp: s'_def split: option.splits if_splits)
  show "owner_of s' ip = (case owner_of s ip of None \<Rightarrow> None
      | Some m \<Rightarrow> if has_lease s' m = None then None else Some m)"
  proof (cases "owner_of s' ip")
    case None
    show ?thesis
    proof (cases "owner_of s ip")
      case (Some m)
      then obtain l where "has_lease s m = Some l" "l_ip l = ip" using owner_iff [OF assms(1)] by blast
      then have "has_lease s' m = None"
        using None o' [of m] l' [of m] by (cases "has_lease s' m") auto
      with Some None show ?thesis by simp
    qed (simp add: None)
  next
    case (Some m)
    then obtain l where "has_lease s' m = Some l" "l_ip l = ip" using o' by blast
    moreover from this have "owner_of s ip = Some m" using owner_iff [OF assms(1)] l' by blast
    ultimately show ?thesis using Some by simp
  qed
qed

theorem dhcp_expiry_witness:
  "has_lease (fst (checkExpiredLeases 60001 demo_two)) (demo_mac 1) = None \<and>
   owner_of (fst (checkExpiredLeases 60001 demo_two)) (numToIp 0x0A000001) = None"
proof -
  have "isExpired 60001 (demo_lease 1)"
    by (simp add: isExpired_def demo_lease_def new_DhcpLease_def)
  moreover have "owner_of demo_two (numToIp 0x0A000001) = Some (demo_mac 1)"
    by (simp add: demo_two_def v4.owner_bind demo_lease_ip numToIp_eq_iff)
  ultimately show ?thesis
    using dhcp_expiry [OF demo_two_inv refl, of 60001 "demo_mac 1" "numToIp 0x0A000001"] demo_two_facts(1)
    by simp
qed

text \<open>A defect of the renewal branch: two clients that hold leases and both request a
  third, free address of the pool are both acknowledged that address, and afterwards it is
  still recorded as free.\<close>

theorem dhcp_ack_unrecorded:
  assumes "dhcp_inv s" "config s = Some cfg" "cfg_ok cfg" "packet_ok p" "packet_ok p'"
    and "p_macAddr p \<noteq> p_macAddr p'"
    and "has_lease s (p_macAddr p) = Some l" "has_lease s (p_macAddr p') = Some l'"
    and "in_pool s ip" "owner_of s ip = None"
    and "p_serverId p = None" "p_serverId p' = None"
    and "p_requestedIp p = Some ip" "p_requestedIp p' = Some ip"
  shows "\<exists>s1 s2 ev ev' ack ack'.
    handleRequest now p ri s = (s1, [ev, sendResponse ack p ri], None) \<and>
    buildDhcpResponse cfg p ACK ip (serverIp cfg) = Inr ack \<and>
    handleRequest now' p' ri' s1 = (s2, [ev', sendResponse ack' p' ri'], None) \<and>
    buildDhcpResponse cfg p' ACK ip (serverIp cfg) = Inr ack' \<and> owner_of s2 ip = None"
proof -
  have ipf: "poolStart s \<le> ipToNum ip" "ipToNum ip \<le> poolEnd s" "length (ipToBuffer ip) = 4"
    using in_pool_facts [OF assms(1,9)] by blast+
  have "handleRequest now p ri s = grant now cfg p ri ip s"
    using assms ipf by (intro handleRequest_granted) (auto simp: requested_ip_def)
  with grant_renews [of s cfg p ip l now ri] assms ipf obtain s1 l1 ev ack where
    a: "handleRequest now p ri s = (s1, [ev, sendResponse ack p ri], None)"
      "buildDhcpResponse cfg p ACK ip (serverIp cfg) = Inr ack"
      "has_lease s1 = (has_lease s)(p_macAddr p \<mapsto> l1)" "owner_of s1 = owner_of s" "config s1 = config s"
      "poolStart s1 = poolStart s" "poolEnd s1 = poolEnd s" by auto
  have "handleRequest now' p' ri' s1 = grant now' cfg p' ri' ip s1"
    using assms ipf a by (intro handleRequest_granted) (auto simp: requested_ip_def)
  moreover have "has_lease s1 (p_macAddr p') = Some l'" using a assms(6,8) by simp
  ultimately obtain s2 ev' ack' where
    "handleRequest now' p' ri' s1 = (s2, [ev', sendResponse ack' p' ri'], None)"
    "buildDhcpResponse cfg p' ACK ip (serverIp cfg) = Inr ack'" "owner_of s2 = owner_of s1"
    using grant_renews [of s1 cfg p' ip l' now' ri'] assms ipf a by auto
  with a assms(10) show ?thesis by metis
qed

theorem dhcp_ack_unrecorded_witness:
  "\<exists>s1 s2 ev ev' ack ack'.
    handleRequest 9 (demo_packet 1 3 (Some (numToIp 0x0A000003))) demo_rinfo demo_two =
      (s1, [ev, sendResponse ack (demo_packet 1 3 (Some (numToIp 0x0A000003))) demo_rinfo], None) \<and>
    handleRequest 9 (demo_packet 2 3 (Some (numToIp 0x0A000003))) demo_rinfo s1 =
      (s2, [ev', sendResponse ack' (demo_packet 2 3 (Some (numToIp 0x0A000003))) demo_rinfo], None) \<and>
    owner_of s2 (numToIp 0x0A000003) = None"
  using dhcp_ack_unrecorded [OF demo_two_inv demo_two_facts(4) demo_ok(1)
      demo_ok(2) [of 1 3 "Some (numToIp 0x0A000003)"] demo_ok(2) [of 2 3 "Some (numToIp 0x0A000003)"],
      of "demo_lease 1" "demo_lease 2" "numToIp 0x0A000003" 9 demo_rinfo 9 demo_rinfo]
    demo_two_facts demo_mac_neq
  by (auto simp: demo_packet_def)

end
