(* ===== verification/Ipv6_Text.thy ===== *)
theory Ipv6_Text
  imports Js_Prelude
begin

text \<open>
  The IPv6 helpers of \<^verbatim>\<open>electron/worker/dhcp/dhcp6Worker.js\<close>: \<open>ipv6ToBuffer\<close>,
  \<open>bufferToIpv6\<close> with its compression of the longest run of zero groups, and
  \<open>incrementIpv6\<close>.  \<open>net.isIPv6\<close> is the predicate of the Node library, which is
  written out.  The main facts: printing then parsing an address gives it back, so two
  addresses never print alike, and incrementing is addition modulo \<open>2 ^ 128\<close>.
\<close>

section \<open>Hexadecimal numbers\<close>

fun hex_nat :: "nat \<Rightarrow> string" where
  "hex_nat n = (if n < 16 then [hex_digit n] else hex_nat (n div 16) @ [hex_digit (n mod 16)])"

declare hex_nat.simps [simp del]

definition is_hex :: "char \<Rightarrow> bool" where
  "is_hex c = (hex_val c \<noteq> None)"

definition hex_number :: "string \<Rightarrow> nat" where
  "hex_number s = foldl (\<lambda>a c. a * 16 + (case hex_val c of None \<Rightarrow> 0 | Some d \<Rightarrow> d)) 0 s"

text \<open>\<open>parseInt(text, 16)\<close>: white space, a sign and a \<open>0x\<close> prefix are skipped, the
  leading hexadecimal digits are read, \<open>None\<close> is \<open>NaN\<close>.\<close>

definition skip_0x :: "string \<Rightarrow> string" where
  "skip_0x s = (case s of a # b # r \<Rightarrow> if a = CHR ''0'' \<and> (b = CHR ''x'' \<or> b = CHR ''X'') then r else s | _ \<Rightarrow> s)"

definition parseInt16 :: "string \<Rightarrow> int option" where
  "parseInt16 s =
     (let t = dropWhile js_space s;
          neg = (case t of c # _ \<Rightarrow> c = CHR ''-'' | [] \<Rightarrow> False);
          u = (case t of c # r \<Rightarrow> if c = CHR ''-'' \<or> c = CHR ''+'' then r else t | [] \<Rightarrow> []);
          ds = takeWhile is_hex (skip_0x u)
      in if ds = [] then None else Some (if neg then - int (hex_number ds) else int (hex_number ds)))"

section \<open>Splitting at a double colon, and \<open>net.isIPv6\<close>\<close>

fun split_cc :: "string \<Rightarrow> string list" where
  "split_cc [] = [[]]"
| "split_cc [c] = [[c]]"
| "split_cc (c # d # s) =
     (if c = CHR '':'' \<and> d = CHR '':'' then [] # split_cc s
      else (case split_cc (d # s) of x # xs \<Rightarrow> (c # x) # xs | [] \<Rightarrow> [[c]]))"

definition colon_groups :: "string \<Rightarrow> string list" where
  "colon_groups s = (if s = [] then [] else split_on CHR '':'' s)"

definition v6_seg :: "string \<Rightarrow> bool" where
  "v6_seg g = (0 < length g \<and> length g \<le> 4 \<and> list_all is_hex g)"

text \<open>An octet of a dotted address: 0 to 255 without superfluous zeros.\<close>

definition v4_seg :: "string \<Rightarrow> bool" where
  "v4_seg g = (0 < length g \<and> list_all is_digit g \<and> dec_val g \<le> 255 \<and> (1 < length g \<longrightarrow> hd g \<noteq> CHR ''0''))"

definition v4_str :: "string \<Rightarrow> bool" where
  "v4_str g = (length (split_on CHR ''.'' g) = 4 \<and> list_all v4_seg (split_on CHR ''.'' g))"

text \<open>The number of 16-bit groups a list of texts stands for; the last may be dotted.\<close>

fun group_count :: "string list \<Rightarrow> nat option" where
  "group_count [] = Some 0"
| "group_count [g] = (if v6_seg g then Some 1 else if v4_str g then Some 2 else None)"
| "group_count (g # gs) = (if v6_seg g then map_option Suc (group_count gs) else None)"

definition zone_char :: "char \<Rightarrow> bool" where
  "zone_char c = (let n = (of_char c :: nat) in
     48 \<le> n \<and> n \<le> 57 \<or> 65 \<le> n \<and> n \<le> 90 \<or> 97 \<le> n \<and> n \<le> 122 \<or> n = 45 \<or> n = 46 \<or> n = 58)"

definition isIPv6 :: "string \<Rightarrow> bool" where
  "isIPv6 s =
     (let a = takeWhile (\<lambda>c. c \<noteq> CHR ''%'') s;
          z = drop (length a) s
      in (z = [] \<or> tl z \<noteq> [] \<and> list_all zone_char (tl z)) \<and>
         (case split_cc a of
            [x] \<Rightarrow> group_count (split_on CHR '':'' x) = Some 8
          | [l, r] \<Rightarrow>
              list_all v6_seg (colon_groups l) \<and>
              (case group_count (colon_groups r) of
                 None \<Rightarrow> False | Some n \<Rightarrow> length (colon_groups l) + n \<le> 7)
          | _ \<Rightarrow> False))"

section \<open>Text to address\<close>

definition nth_text :: "string list \<Rightarrow> nat \<Rightarrow> string" where
  "nth_text gs i = (if i < length gs \<and> gs ! i \<noteq> [] then gs ! i else ''0'')"

text \<open>\<open>writeUInt16BE\<close> of a parsed group: \<open>NaN\<close> is stored as 0.\<close>

definition group_bytes :: "string \<Rightarrow> js_error + buffer" where
  "group_bytes g =
     (case parseInt16 g of
        None \<Rightarrow> Inr (enc16 0)
      | Some n \<Rightarrow> if 0 \<le> n \<and> n \<le> 65535 then Inr (enc16 (nat n)) else Inl RangeError)"

fun write_groups :: "string list \<Rightarrow> js_error + buffer" where
  "write_groups [] = Inr []"
| "write_groups (g # gs) = bindE (group_bytes g) (\<lambda>b. bindE (write_groups gs) (\<lambda>bs. Inr (b @ bs)))"

definition ipv6ToBuffer :: "string \<Rightarrow> js_error + buffer" where
  "ipv6ToBuffer addr =
     (if \<not> isIPv6 addr then Inl JsError
      else
        bindE (case split_cc addr of
                 [l, r] \<Rightarrow>
                   let left = colon_groups l; right = colon_groups r
                   in if 8 < length left + length right then Inl RangeError
                      else Inr (left @ replicate (8 - length left - length right) ''0'' @ right)
               | _ \<Rightarrow> Inr (split_on CHR '':'' addr))
          (\<lambda>groups. write_groups (map (nth_text groups) [0..<8])))"

section \<open>Address to text\<close>

definition ipv6_groups :: "buffer \<Rightarrow> nat list" where
  "ipv6_groups b = map (\<lambda>i. be16 b (i * 2)) [0..<8]"

text \<open>The scan for the longest run of zero groups: the best run so far and the current one.\<close>

record zero_scan =
  bestStart :: int
  bestLen :: nat
  curStart :: int
  curLen :: nat

definition scan_group :: "string \<Rightarrow> nat \<Rightarrow> zero_scan \<Rightarrow> zero_scan" where
  "scan_group g i z =
     (if g = ''0'' then
        let st = (if curStart z = -1 then int i else curStart z);
            n = (if curStart z = -1 then 0 else curLen z) + 1
        in if n > bestLen z
           then z\<lparr>curStart := st, curLen := n, bestLen := n, bestStart := st\<rparr>
           else z\<lparr>curStart := st, curLen := n\<rparr>
      else z\<lparr>curStart := -1, curLen := 0\<rparr>)"

fun scan_groups :: "string list \<Rightarrow> nat \<Rightarrow> zero_scan \<Rightarrow> zero_scan" where
  "scan_groups [] i z = z"
| "scan_groups (g # gs) i z = scan_groups gs (i + 1) (scan_group g i z)"

definition scan_start :: zero_scan where
  "scan_start = \<lparr>bestStart = -1, bestLen = 0, curStart = -1, curLen = 0\<rparr>"

definition groups_text :: "string list \<Rightarrow> string" where
  "groups_text gs =
     (let z = scan_groups gs 0 scan_start
      in if bestLen z > 1
         then join '':'' (take (nat (bestStart z)) gs) @ ''::'' @
              join '':'' (drop (nat (bestStart z) + bestLen z) gs)
         else join '':'' gs)"

definition bufferToIpv6 :: "buffer \<Rightarrow> string" where
  "bufferToIpv6 b = groups_text (map hex_nat (ipv6_groups b))"

section \<open>Increment and order\<close>

text \<open>\<open>incrementIpv6\<close> works from the last byte; the list is given in reverse.\<close>

fun increment_rev :: "buffer \<Rightarrow> buffer" where
  "increment_rev [] = []"
| "increment_rev (w # ws) = (if unat w < 255 then (w + 1) # ws else 0 # increment_rev ws)"

definition incrementIpv6 :: "buffer \<Rightarrow> buffer" where
  "incrementIpv6 b = rev (increment_rev (rev b))"

text \<open>\<open>Buffer.compare(a, b) <= 0\<close>.\<close>

fun buf_le :: "buffer \<Rightarrow> buffer \<Rightarrow> bool" where
  "buf_le [] b = True"
| "buf_le (x # xs) [] = False"
| "buf_le (x # xs) (y # ys) = (if x = y then buf_le xs ys else unat x < unat y)"

section \<open>Lemmas on hexadecimal text\<close>

lemma hex_nat_not_Nil [simp]: "hex_nat n \<noteq> []"
  by (subst hex_nat.simps) simp

lemma hex_nat_is_hex: "c \<in> set (hex_nat n) \<Longrightarrow> is_hex c"
proof (induction n rule: hex_nat.induct)
  case (1 n)
  then show ?case
    by (cases "n < 16") (auto simp: hex_nat.simps [of n] is_hex_def)
qed

lemma hex_number_snoc: "hex_number (s @ [c]) = hex_number s * 16 + (case hex_val c of None \<Rightarrow> 0 | Some d \<Rightarrow> d)"
  by (simp add: hex_number_def)

lemma hex_number_hex_nat [text_simps]: "hex_number (hex_nat n) = n"
proof (induction n rule: hex_nat.induct)
  case (1 n)
  show ?case
  proof (cases "n < 16")
    case True
    then show ?thesis by (simp add: hex_nat.simps [of n] hex_number_def)
  next
    case False
    then show ?thesis using 1 by (simp add: hex_nat.simps [of n] hex_number_snoc)
  qed
qed

lemma hex_nat_length: "n < 16 ^ k \<Longrightarrow> 0 < k \<Longrightarrow> length (hex_nat n) \<le> k"
proof (induction k arbitrary: n)
  case (Suc k)
  show ?case
  proof (cases "n < 16")
    case True
    then show ?thesis by (simp add: hex_nat.simps [of n])
  next
    case False
    with Suc.prems have "k \<noteq> 0" by (cases k) auto
    moreover have "n div 16 < 16 ^ k" using Suc.prems(1) by (simp add: less_mult_imp_div_less)
    ultimately show ?thesis using Suc.IH [of "n div 16"] False by (simp add: hex_nat.simps [of n])
  qed
qed simp

lemma is_hex_chars [simp]:
  "\<not> is_hex CHR '':''" "\<not> is_hex CHR ''%''" "\<not> is_hex CHR ''x''" "\<not> is_hex CHR ''X''"
  "\<not> is_hex CHR ''-''" "\<not> is_hex CHR ''+''"
  by (simp_all add: is_hex_def hex_val_def)

lemma hex_nat_no_sep [simp]: "\<not> is_hex c \<Longrightarrow> c \<notin> set (hex_nat n)"
  using hex_nat_is_hex by blast

lemma js_space_not_hex: "js_space c \<Longrightarrow> \<not> is_hex c"
  by (auto simp: js_space_def is_hex_def hex_val_def Let_def)

lemma skip_0x_hex: "\<forall>c\<in>set s. is_hex c \<Longrightarrow> skip_0x s = s"
  by (auto simp: skip_0x_def split: list.splits)

lemma parseInt16_hex_nat [text_simps]: "parseInt16 (hex_nat n) = Some (int n)"
proof -
  obtain c s where h: "hex_nat n = c # s" by (cases "hex_nat n") auto
  have all: "\<forall>c\<in>set (hex_nat n). is_hex c" using hex_nat_is_hex by blast
  then have c: "is_hex c" using h by simp
  then have "\<not> js_space c" "c \<noteq> CHR ''-''" "c \<noteq> CHR ''+''" using js_space_not_hex by auto
  moreover have "takeWhile is_hex (hex_nat n) = hex_nat n" using all by (simp add: takeWhile_all)
  moreover have "skip_0x (hex_nat n) = hex_nat n" using all by (rule skip_0x_hex)
  moreover have "hex_number (hex_nat n) = n" by (rule hex_number_hex_nat)
  ultimately show ?thesis using h by (simp add: parseInt16_def Let_def)
qed

lemma hex_nat_seg: "n < 65536 \<Longrightarrow> v6_seg (hex_nat n)"
  using hex_nat_length [of n 4] hex_nat_is_hex by (auto simp: v6_seg_def list_all_iff)

lemma hex_nat_eq_0: "hex_nat n = ''0'' \<longleftrightarrow> n = 0"
proof
  assume "hex_nat n = ''0''"
  then have "hex_number (hex_nat n) = hex_number ''0''" by simp
  then show "n = 0" by (simp add: hex_number_hex_nat) (simp add: hex_number_def hex_val_def)
next
  assume "n = 0"
  then show "hex_nat n = ''0''" by (simp add: hex_nat.simps hex_digit_def char_of_eq_iff)
qed

section \<open>Lemmas on splitting\<close>

definition prepend :: "string \<Rightarrow> string list \<Rightarrow> string list" where
  "prepend p xs = (case xs of [] \<Rightarrow> [p] | y # ys \<Rightarrow> (p @ y) # ys)"

lemma split_cc_not_Nil [simp]: "split_cc s \<noteq> []"
  by (induction s rule: split_cc.induct) (auto split: list.splits)

lemma prepend_simps [simp]: "prepend [] (split_cc s) = split_cc s" "prepend p (x # xs) = (p @ x) # xs"
  by (cases "split_cc s"; simp add: prepend_def) (simp add: prepend_def)

lemma prepend_prepend: "prepend p (prepend q xs) = prepend (p @ q) xs"
  by (cases xs) (simp_all add: prepend_def)

lemma split_cc_char:
  "c \<noteq> CHR '':'' \<or> t = [] \<or> hd t \<noteq> CHR '':'' \<Longrightarrow> split_cc (c # t) = prepend [c] (split_cc t)"
  by (cases t) (auto simp: prepend_def split: list.splits)

lemma split_cc_plain: "CHR '':'' \<notin> set g \<Longrightarrow> split_cc (g @ t) = prepend g (split_cc t)"
  by (induction g) (auto simp: split_cc_char prepend_prepend)

lemma split_cc_join:
  assumes "gs \<noteq> []" "\<forall>g\<in>set gs. g \<noteq> [] \<and> CHR '':'' \<notin> set g"
  shows "split_cc (join '':'' gs @ t) = prepend (join '':'' gs) (split_cc t)"
  using assms
proof (induction gs rule: induct_list012)
  case (3 x y zs)
  let ?j = "join '':'' (y # zs)"
  have "y \<noteq> []" "CHR '':'' \<notin> set y" using 3 by auto
  then have "?j @ t \<noteq> [] \<and> hd (?j @ t) \<noteq> CHR '':''"
    by (cases y; cases zs) auto
  then have "split_cc (CHR '':'' # ?j @ t) = prepend '':'' (split_cc (?j @ t))"
    by (intro split_cc_char) simp
  moreover have "split_cc (?j @ t) = prepend ?j (split_cc t)" using 3 by simp
  ultimately show ?case
    using 3 split_cc_plain [of x "CHR '':'' # ?j @ t"] by (simp add: prepend_prepend)
qed (auto simp: split_cc_plain)

lemma split_cc_join_all:
  assumes "\<forall>g\<in>set gs. g \<noteq> [] \<and> CHR '':'' \<notin> set g"
  shows "split_cc (join '':'' gs @ t) = prepend (join '':'' gs) (split_cc t)"
  using split_cc_join [OF _ assms] by (cases gs) simp_all

lemma join_eq_Nil: "\<forall>g\<in>set gs. g \<noteq> [] \<Longrightarrow> join '':'' gs = [] \<longleftrightarrow> gs = []"
  by (induction gs rule: induct_list012) auto

lemma colon_groups_join:
  "\<forall>g\<in>set gs. g \<noteq> [] \<and> CHR '':'' \<notin> set g \<Longrightarrow> colon_groups (join '':'' gs) = gs"
  using split_on_join [of gs "CHR '':''"] join_eq_Nil [of gs] by (auto simp: colon_groups_def)

lemma group_count_segs: "list_all v6_seg gs \<Longrightarrow> group_count gs = Some (length gs)"
  by (induction gs rule: group_count.induct) auto

lemma set_join: "c \<in> set (join '':'' gs) \<Longrightarrow> c = CHR '':'' \<or> (\<exists>g\<in>set gs. c \<in> set g)"
  by (induction gs rule: induct_list012) auto

section \<open>The scan for zeros\<close>

definition scan_inv :: "string list \<Rightarrow> nat \<Rightarrow> zero_scan \<Rightarrow> bool" where
  "scan_inv gs i z \<longleftrightarrow>
     (0 < bestLen z \<longrightarrow> 0 \<le> bestStart z \<and> bestStart z + int (bestLen z) \<le> int i \<and>
        (\<forall>k. bestStart z \<le> int k \<and> int k < bestStart z + int (bestLen z) \<longrightarrow> gs ! k = ''0'')) \<and>
     (curStart z \<noteq> -1 \<longrightarrow> 0 \<le> curStart z \<and> curStart z + int (curLen z) = int i \<and>
        (\<forall>k. curStart z \<le> int k \<and> int k < int i \<longrightarrow> gs ! k = ''0''))"

lemma scan_inv_step:
  assumes "scan_inv gs i z"
  shows "scan_inv gs (i + 1) (scan_group (gs ! i) i z)"
proof (cases "gs ! i = ''0''")
  case True
  have run: "\<forall>k. st \<le> int k \<and> int k < int i + 1 \<longrightarrow> gs ! k = ''0''"
    if "\<forall>k. st \<le> int k \<and> int k < int i \<longrightarrow> gs ! k = ''0''" for st
    using that True by (metis of_nat_eq_iff zless_add1_eq)
  show ?thesis
  proof (cases "curStart z = -1")
    case new: True
    have "\<forall>k. int i \<le> int k \<and> int k < int i + 1 \<longrightarrow> gs ! k = ''0''"
    proof (intro allI impI)
      fix k assume "int i \<le> int k \<and> int k < int i + 1"
      then have "k = i" by linarith
      with True show "gs ! k = ''0''" by simp
    qed
    with assms True new show ?thesis by (auto simp: scan_inv_def scan_group_def Let_def)
  next
    case False
    then have "\<forall>k. curStart z \<le> int k \<and> int k < int i + 1 \<longrightarrow> gs ! k = ''0''"
      using assms run [of "curStart z"] by (simp add: scan_inv_def)
    with assms True False show ?thesis by (auto simp: scan_inv_def scan_group_def Let_def)
  qed
next
  case False
  with assms show ?thesis by (auto simp: scan_inv_def scan_group_def)
qed

lemma scan_inv_groups:
  "scan_inv gs i z \<Longrightarrow> i \<le> length gs \<Longrightarrow> scan_inv gs (length gs) (scan_groups (drop i gs) i z)"
proof (induction "length gs - i" arbitrary: i z)
  case (Suc n)
  then have "i < length gs" by simp
  then have "drop i gs = gs ! i # drop (i + 1) gs" by (simp add: Cons_nth_drop_Suc)
  then show ?case using Suc.hyps(1) [of "i + 1"] Suc.hyps(2) Suc.prems scan_inv_step by simp
qed simp

lemma zero_run:
  assumes "1 < bestLen (scan_groups gs 0 scan_start)"
  defines "a \<equiv> nat (bestStart (scan_groups gs 0 scan_start))"
    and "n \<equiv> bestLen (scan_groups gs 0 scan_start)"
  shows "a + n \<le> length gs" "gs = take a gs @ replicate n ''0'' @ drop (a + n) gs"
proof -
  have "scan_inv gs 0 scan_start" by (simp add: scan_inv_def scan_start_def)
  then have inv: "scan_inv gs (length gs) (scan_groups gs 0 scan_start)"
    using scan_inv_groups [of gs 0 scan_start] by simp
  then show le: "a + n \<le> length gs" using assms by (auto simp: scan_inv_def)
  have "gs ! (a + k) = ''0''" if "k < n" for k
    using inv assms that by (auto simp: scan_inv_def)
  then have "take n (drop a gs) = replicate n ''0''"
    using le by (intro nth_equalityI) auto
  then show "gs = take a gs @ replicate n ''0'' @ drop (a + n) gs"
    by (metis add.commute append_take_drop_id drop_drop)
qed

section \<open>Printing and parsing\<close>

lemma write_groups_hex:
  "\<forall>n\<in>set ns. n < 65536 \<Longrightarrow> write_groups (map hex_nat ns) = Inr (concat (map enc16 ns))"
  by (induction ns) (auto simp: group_bytes_def parseInt16_hex_nat)

lemma nth_text_all:
  "length gs = 8 \<Longrightarrow> \<forall>g\<in>set gs. g \<noteq> [] \<Longrightarrow> map (nth_text gs) [0..<8] = gs"
  by (rule nth_equalityI) (auto simp: nth_text_def)

lemma isIPv6_no_zone:
  assumes "CHR ''%'' \<notin> set s"
  shows "isIPv6 s = (case split_cc s of
      [x] \<Rightarrow> group_count (split_on CHR '':'' x) = Some 8
    | [l, r] \<Rightarrow>
        list_all v6_seg (colon_groups l) \<and>
        (case group_count (colon_groups r) of
           None \<Rightarrow> False | Some n \<Rightarrow> length (colon_groups l) + n \<le> 7)
    | _ \<Rightarrow> False)"
proof -
  have "takeWhile (\<lambda>c. c \<noteq> CHR ''%'') s = s" using assms by (intro takeWhile_all) auto
  then show ?thesis unfolding isIPv6_def Let_def by (simp only: drop_all order_refl simp_thms)
qed

lemma ipv6ToBuffer_groups:
  assumes "length gs = 8" "list_all v6_seg gs"
  shows "isIPv6 (groups_text gs) \<and> ipv6ToBuffer (groups_text gs) = write_groups gs"
proof -
  have g: "\<forall>g\<in>set gs. g \<noteq> [] \<and> CHR '':'' \<notin> set g \<and> CHR ''%'' \<notin> set g"
    using assms(2) is_hex_chars(1,2) unfolding list_all_iff v6_seg_def by blast
  then have g': "\<forall>g\<in>set gs. g \<noteq> [] \<and> CHR '':'' \<notin> set g" by blast
  let ?z = "scan_groups gs 0 scan_start"
  show ?thesis
  proof (cases "1 < bestLen ?z")
    case True
    define l where "l = take (nat (bestStart ?z)) gs"
    define r where "r = drop (nat (bestStart ?z) + bestLen ?z) gs"
    have tx: "groups_text gs = join '':'' l @ ''::'' @ join '':'' r"
      using True by (simp add: groups_text_def Let_def l_def r_def)
    have gs: "gs = l @ replicate (bestLen ?z) ''0'' @ r" and len: "length l + bestLen ?z + length r = 8"
      using zero_run [OF True] assms(1) by (simp_all add: l_def r_def)
    have "set l \<subseteq> set gs" "set r \<subseteq> set gs" by (auto simp: l_def r_def dest: in_set_takeD in_set_dropD)
    then have lr: "\<forall>g\<in>set l. g \<noteq> [] \<and> CHR '':'' \<notin> set g" "\<forall>g\<in>set r. g \<noteq> [] \<and> CHR '':'' \<notin> set g"
      and segs: "list_all v6_seg l" "list_all v6_seg r"
      and pc: "\<forall>g\<in>set l \<union> set r. CHR ''%'' \<notin> set g"
      using g assms(2) by (auto simp: list_all_iff)
    have "split_cc (join '':'' r) = [join '':'' r]"
      using split_cc_join_all [OF lr(2), of "[]"] by (simp add: prepend_def)
    then have sp: "split_cc (groups_text gs) = [join '':'' l, join '':'' r]"
      using split_cc_join_all [OF lr(1), of "''::'' @ join '':'' r"] by (simp add: tx)
    have "CHR ''%'' \<notin> set (groups_text gs)" using pc by (auto simp: tx dest: set_join)
    then have "isIPv6 (groups_text gs)"
      using sp segs lr len True by (simp add: isIPv6_no_zone colon_groups_join group_count_segs)
    moreover have "8 - length l - length r = bestLen ?z" using len by simp
    ultimately show ?thesis
      using sp lr len gs nth_text_all [OF assms(1)] g
      by (simp add: ipv6ToBuffer_def colon_groups_join)
  next
    case False
    then have tx: "groups_text gs = join '':'' gs" by (simp add: groups_text_def Let_def)
    have sp: "split_cc (groups_text gs) = [groups_text gs]"
      using split_cc_join_all [OF g', of "[]"] by (simp add: tx prepend_def)
    have so: "split_on CHR '':'' (groups_text gs) = gs"
      using assms(1) g' by (auto simp: tx intro!: split_on_join)
    have "CHR ''%'' \<notin> set (groups_text gs)" using g by (auto simp: tx dest: set_join)
    then show ?thesis
      using sp so group_count_segs [OF assms(2)] assms(1) nth_text_all [OF assms(1)] g
      by (simp add: isIPv6_no_zone ipv6ToBuffer_def)
  qed
qed

lemma ipv6_groups_bytes: "length b = 16 \<Longrightarrow> concat (map enc16 (ipv6_groups b)) = b"
proof -
  assume b: "length b = 16"
  then have "concat (map enc16 (ipv6_groups b)) = concat (map (\<lambda>i. subarray b (i * 2) (i * 2 + 2)) [0..<8])"
    by (simp add: ipv6_groups_def comp_def enc16_be16 upt_rec)
  also have "\<dots> = subarray b 0 16"
    using subarray_split [of 0 2 16 b] by (simp add: upt_rec subarray_split flip: numeral_2_eq_2)
  finally show ?thesis using b by (simp add: buf_simps)
qed

lemma ipv6ToBuffer_bufferToIpv6 [text_simps]: "length b = 16 \<Longrightarrow> ipv6ToBuffer (bufferToIpv6 b) = Inr b"
proof -
  assume b: "length b = 16"
  have ns: "\<forall>n\<in>set (ipv6_groups b). n < 65536" by (auto simp: ipv6_groups_def)
  then have "list_all v6_seg (map hex_nat (ipv6_groups b))" by (auto simp: list_all_iff hex_nat_seg)
  then have "ipv6ToBuffer (bufferToIpv6 b) = write_groups (map hex_nat (ipv6_groups b))"
    unfolding bufferToIpv6_def
    using ipv6ToBuffer_groups [of "map hex_nat (ipv6_groups b)"] by (simp add: ipv6_groups_def)
  then show ?thesis by (simp add: write_groups_hex [OF ns] ipv6_groups_bytes [OF b])
qed

lemma bufferToIpv6_inj: "length a = 16 \<Longrightarrow> length b = 16 \<Longrightarrow> bufferToIpv6 a = bufferToIpv6 b \<Longrightarrow> a = b"
  by (metis Inr_inject ipv6ToBuffer_bufferToIpv6)

section \<open>Addresses as numbers\<close>

fun val_rev :: "buffer \<Rightarrow> nat" where
  "val_rev [] = 0"
| "val_rev (w # ws) = unat w + 256 * val_rev ws"

definition buf_val :: "buffer \<Rightarrow> nat" where
  "buf_val b = val_rev (rev b)"

lemma val_rev_less: "val_rev ws < 256 ^ length ws"
proof (induction ws)
  case (Cons w ws)
  have "unat w < 256" by simp
  then have "unat w + 256 * val_rev ws < 256 * 256 ^ length ws" using Cons by linarith
  then show ?case by simp
qed simp

lemma val_rev_append: "val_rev (a @ b) = val_rev a + 256 ^ length a * val_rev b"
  by (induction a) (simp_all add: algebra_simps)

lemma buf_val_Cons: "buf_val (w # b) = unat w * 256 ^ length b + buf_val b"
  by (simp add: buf_val_def val_rev_append)

lemma buf_val_less: "buf_val b < 256 ^ length b"
  using val_rev_less [of "rev b"] by (simp add: buf_val_def)

lemma increment_rev_val:
  "val_rev (increment_rev ws) = (if val_rev ws + 1 = 256 ^ length ws then 0 else val_rev ws + 1)"
proof (induction ws)
  case (Cons w ws)
  show ?case
  proof (cases "unat w < 255")
    case True
    then have "unat (w + 1) = unat w + 1" by (simp add: unat_word_ariths)
    moreover have "unat w + 256 * val_rev ws + 1 \<noteq> 256 * 256 ^ length ws"
      using True val_rev_less [of ws] by linarith
    ultimately show ?thesis using True by simp
  next
    case False
    then have "unat w = 255" using unat_byte_le [of w] by linarith
    with False Cons show ?thesis by auto
  qed
qed simp

lemma incrementIpv6_val:
  "buf_val (incrementIpv6 b) = (if buf_val b + 1 = 256 ^ length b then 0 else buf_val b + 1)"
  using increment_rev_val [of "rev b"] by (simp add: buf_val_def incrementIpv6_def)

lemma increment_rev_length [simp]: "length (increment_rev ws) = length ws"
  by (induction ws) simp_all

lemma incrementIpv6_length [simp]: "length (incrementIpv6 b) = length b"
  by (simp add: incrementIpv6_def)

lemma buf_le_val: "length a = length b \<Longrightarrow> buf_le a b \<longleftrightarrow> buf_val a \<le> buf_val b"
proof (induction a b rule: list_induct2)
  case (Cons x xs y ys)
  have bounds: "buf_val xs < 256 ^ length ys" "buf_val ys < 256 ^ length ys"
    using buf_val_less [of xs] buf_val_less [of ys] Cons.hyps by simp_all
  show ?case
  proof (cases "x = y")
    case False
    then have "unat x \<noteq> unat y" by (simp add: word_unat_eq_iff)
    moreover have "unat x * 256 ^ length ys + buf_val xs < unat y * 256 ^ length ys + buf_val ys" if "unat x < unat y"
      using mult_le_mono1 [of "unat x + 1" "unat y" "256 ^ length ys"] that bounds(1) by (simp add: algebra_simps)
    moreover have "unat y * 256 ^ length ys + buf_val ys < unat x * 256 ^ length ys + buf_val xs" if "unat y < unat x"
      using mult_le_mono1 [of "unat y + 1" "unat x" "256 ^ length ys"] that bounds(2) by (simp add: algebra_simps)
    ultimately show ?thesis using False Cons.hyps by (simp add: buf_val_Cons) (meson leD less_imp_le nat_neq_iff)
  qed (use Cons in \<open>simp add: buf_val_Cons\<close>)
qed simp

lemma buf_val_inj: "length a = length b \<Longrightarrow> buf_val a = buf_val b \<Longrightarrow> a = b"
proof (induction a b rule: list_induct2)
  case (Cons x xs y ys)
  have b: "buf_val xs < 256 ^ length ys" "buf_val ys < 256 ^ length ys"
    using buf_val_less [of xs] buf_val_less [of ys] Cons.hyps by simp_all
  have e: "unat x * 256 ^ length ys + buf_val xs = unat y * 256 ^ length ys + buf_val ys"
    using Cons.prems Cons.hyps by (simp add: buf_val_Cons)
  then have "(unat x * 256 ^ length ys + buf_val xs) div 256 ^ length ys =
      (unat y * 256 ^ length ys + buf_val ys) div 256 ^ length ys" by simp
  then have "unat x = unat y" using b by simp
  with e Cons.IH show ?case by (simp add: word_unat_eq_iff)
qed simp

end
