(* ===== verification/Dhcp6.thy ===== *)
theory Dhcp6
  imports Lease_Table Ipv6_Text
begin

text \<open>
  The DHCPv6 server: \<^verbatim>\<open>electron/worker/dhcp/dhcp6Worker.js\<close> and
  \<^verbatim>\<open>dhcp6Lease.js\<close>.  As in \<open>Dhcp\<close>, a handler returns the changed state, what it
  sent and the exception it threw.  The search for a free address is a loop over addresses
  that need not end, so a handler that uses it returns an option, \<open>None\<close> when it hangs.
\<close>

section \<open>Packets\<close>

definition CLIENTID :: nat where "CLIENTID = 1"
definition SERVERID :: nat where "SERVERID = 2"
definition IA_NA :: nat where "IA_NA = 3"
definition IAADDR :: nat where "IAADDR = 5"
definition STATUS_CODE :: nat where "STATUS_CODE = 13"
definition DNS_SERVERS :: nat where "DNS_SERVERS = 23"

record dhcp6_packet =
  q_msgType :: nat
  q_txId :: buffer
  q_options :: "nat \<rightharpoonup> buffer"
  q_clientDuid :: "string option"
  q_serverDuid :: "string option"
  q_iaid :: "string option"
  q_requestedIp :: "string option"

function parse6_options :: "buffer \<Rightarrow> nat \<Rightarrow> (nat \<rightharpoonup> buffer) \<Rightarrow> (nat \<rightharpoonup> buffer)" where
  "parse6_options b i opts =
     (if i + 4 \<le> length b then
        (let len = be16 b (i + 2)
         in if i + 4 + len > length b then opts
            else parse6_options b (i + 4 + len) (opts(be16 b i \<mapsto> subarray b (i + 4) (i + 4 + len))))
      else opts)"
  by pat_completeness auto
termination
  by (relation "measure (\<lambda>(b, i, opts). length b - i)") auto

declare parse6_options.simps [simp del]

text \<open>The sub-options of an IA\_NA: the address of the last IAADDR.  A truncated address
  makes \<open>bufferToIpv6\<close> read past the end of the buffer.\<close>

function parse_iana :: "buffer \<Rightarrow> nat \<Rightarrow> string option \<Rightarrow> js_error + string option" where
  "parse_iana b j req =
     (if j + 4 \<le> length b then
        (let subCode = be16 b j; subLen = be16 b (j + 2)
         in if subCode = IAADDR \<and> subLen \<ge> 24
            then (if length (subarray b (j + 4) (j + 20)) < 16 then Inl RangeError
                  else parse_iana b (j + 4 + subLen) (Some (bufferToIpv6 (subarray b (j + 4) (j + 20)))))
            else parse_iana b (j + 4 + subLen) req)
      else Inr req)"
  by pat_completeness auto
termination
  by (relation "measure (\<lambda>(b, j, req). length b - j)") auto

declare parse_iana.simps [simp del]

definition parseDhcp6Packet :: "buffer \<Rightarrow> js_error + dhcp6_packet option" where
  "parseDhcp6Packet b =
     (if length b < 4 then Inr None
      else
        let opts = parse6_options b 4 Map.empty;
            ia = (case opts IA_NA of None \<Rightarrow> None | Some v \<Rightarrow> if 12 \<le> length v then Some v else None)
        in bindE (case ia of None \<Rightarrow> Inr None | Some v \<Rightarrow> parse_iana v 12 None)
             (\<lambda>req. Inr (Some
                \<lparr>q_msgType = unat (b ! 0), q_txId = subarray b 1 4, q_options = opts,
                 q_clientDuid = map_option hex (opts CLIENTID),
                 q_serverDuid = map_option hex (opts SERVERID),
                 q_iaid = map_option (\<lambda>v. hex (subarray v 0 4)) ia,
                 q_requestedIp = req\<rparr>)))"

section \<open>Building a response\<close>

definition buildOption :: "nat \<Rightarrow> buffer \<Rightarrow> js_error + buffer" where
  "buildOption code data =
     (if length data \<le> 65535 then Inr (enc16 code @ enc16 (length data) @ data) else Inl RangeError)"

definition writeUInt32 :: "int \<Rightarrow> js_error + buffer" where
  "writeUInt32 n = (if 0 \<le> n \<and> n \<le> 0xffffffff then Inr (enc32 (nat n)) else Inl RangeError)"

definition buildIaAddr :: "buffer \<Rightarrow> int \<Rightarrow> int \<Rightarrow> js_error + buffer" where
  "buildIaAddr ipv6Buf preferred valid =
     bindE (writeUInt32 preferred) (\<lambda>p. bindE (writeUInt32 valid) (\<lambda>v.
       buildOption IAADDR (put (put (put (alloc 24) 0 ipv6Buf) 16 p) 20 v)))"

definition buildIaNa :: "buffer \<Rightarrow> int \<Rightarrow> int \<Rightarrow> buffer \<Rightarrow> js_error + buffer" where
  "buildIaNa iaidBuf t1 t2 iaAddrOpt =
     bindE (writeUInt32 t1) (\<lambda>a. bindE (writeUInt32 t2) (\<lambda>b.
       buildOption IA_NA
         (put (put (put (put (alloc (12 + length iaAddrOpt)) 0 iaidBuf) 4 a) 8 b) 12 iaAddrOpt)))"

definition buildStatusCode :: "nat \<Rightarrow> string \<Rightarrow> js_error + buffer" where
  "buildStatusCode code msg = buildOption STATUS_CODE (enc16 code @ ascii_bytes msg)"

definition buildDhcp6Response :: "nat \<Rightarrow> buffer \<Rightarrow> buffer list \<Rightarrow> buffer" where
  "buildDhcp6Response msgType txId optionList =
     put (put (alloc 4) 0 (enc8 msgType)) 1 txId @ concat optionList"

section \<open>Leases and the state of the worker\<close>

record dhcp6_lease =
  m_duid :: string
  m_ip :: string
  m_iaid :: string
  m_preferredLifetime :: int
  m_validLifetime :: int
  m_startTime :: int
  m_expiresAt :: int
  m_status :: string

definition new_Dhcp6Lease :: "int \<Rightarrow> string \<Rightarrow> string \<Rightarrow> string \<Rightarrow> int \<Rightarrow> int \<Rightarrow> dhcp6_lease" where
  "new_Dhcp6Lease now duid ip iaid preferred valid =
     \<lparr>m_duid = duid, m_ip = ip, m_iaid = iaid, m_preferredLifetime = preferred, m_validLifetime = valid,
      m_startTime = now, m_expiresAt = now + valid * 1000, m_status = ''active''\<rparr>"

definition isExpired6 :: "int \<Rightarrow> dhcp6_lease \<Rightarrow> bool" where
  "isExpired6 now l = (now > m_expiresAt l)"

definition renew6 :: "int \<Rightarrow> int \<Rightarrow> int \<Rightarrow> dhcp6_lease \<Rightarrow> dhcp6_lease" where
  "renew6 now preferred valid l =
     l\<lparr>m_preferredLifetime := preferred, m_validLifetime := valid, m_startTime := now,
       m_expiresAt := now + valid * 1000\<rparr>"

definition getInfo6 :: "int \<Rightarrow> dhcp6_lease \<Rightarrow> dhcp6_lease" where
  "getInfo6 now l = l\<lparr>m_status := (if isExpired6 now l then ''expired'' else m_status l)\<rparr>"

record dhcp6_config =
  g_serverPort :: "int option"
  g_poolStart :: string
  g_poolEnd :: string
  preferredLifetime :: int
  validLifetime :: int
  g_dns1 :: string
  g_dns2 :: string

record dhcp6_state =
  server6 :: bool
  config6 :: "dhcp6_config option"
  serverDuid :: buffer
  leaseMap6 :: "(string \<times> dhcp6_lease) list"
  ipToClient :: "(string \<times> string) list"
  poolStartBuf :: "buffer option"
  poolEndBuf :: "buffer option"
  leaseTimer6 :: bool

text \<open>\<open>generateServerDuid\<close>: the random bytes are an argument.\<close>

definition generateServerDuid :: "buffer \<Rightarrow> buffer" where
  "generateServerDuid rnd = put (put (put (alloc 10) 0 (enc16 3)) 2 (enc16 1)) 4 rnd"

definition new_Dhcp6Worker :: "buffer \<Rightarrow> dhcp6_state" where
  "new_Dhcp6Worker rnd =
     \<lparr>server6 = False, config6 = None, serverDuid = generateServerDuid rnd, leaseMap6 = [], ipToClient = [],
      poolStartBuf = None, poolEndBuf = None, leaseTimer6 = False\<rparr>"

record rinfo6 =
  address6 :: string
  port6 :: nat

datatype dhcp6_out =
    Send6 buffer nat string
  | LeaseEvent6 string dhcp6_lease
  | LeaseRemoved6 string string
  | SuccessResponse6 nat
  | LeaseList6 nat "dhcp6_lease list"
  | ErrorResponse6 nat

type_synonym handled6 = "dhcp6_state \<times> dhcp6_out list \<times> js_error option"

definition lease6_of :: "dhcp6_state \<Rightarrow> string \<Rightarrow> dhcp6_lease option" where
  "lease6_of s duid = map_of (leaseMap6 s) duid"

definition client_of :: "dhcp6_state \<Rightarrow> string \<Rightarrow> string option" where
  "client_of s ip = map_of (ipToClient s) ip"

definition add_lease6 :: "string \<Rightarrow> dhcp6_lease \<Rightarrow> dhcp6_state \<Rightarrow> dhcp6_state" where
  "add_lease6 duid l s =
     s\<lparr>leaseMap6 := AList.update duid l (leaseMap6 s), ipToClient := AList.update (m_ip l) duid (ipToClient s)\<rparr>"

definition remove_lease6 :: "string \<Rightarrow> dhcp6_state \<Rightarrow> dhcp6_state" where
  "remove_lease6 duid s =
     (case lease6_of s duid of
        None \<Rightarrow> s
      | Some l \<Rightarrow> s\<lparr>ipToClient := AList.delete (m_ip l) (ipToClient s), leaseMap6 := AList.delete duid (leaseMap6 s)\<rparr>)"

section \<open>The handlers\<close>

partial_function (option) alloc_loop ::
  "(string \<times> string) list \<Rightarrow> buffer \<Rightarrow> buffer \<Rightarrow> string option option" where
  "alloc_loop owners last_buf cur =
     (if buf_le cur last_buf
      then (if map_of owners (bufferToIpv6 cur) = None then Some (Some (bufferToIpv6 cur))
            else alloc_loop owners last_buf (incrementIpv6 cur))
      else Some None)"

definition allocateIp6 :: "dhcp6_state \<Rightarrow> string \<Rightarrow> (js_error + string option) option" where
  "allocateIp6 s duid =
     (case lease6_of s duid of
        Some l \<Rightarrow> Some (Inr (Some (m_ip l)))
      | None \<Rightarrow>
          (case (poolStartBuf s, poolEndBuf s) of
             (Some a, Some z) \<Rightarrow> map_option Inr (alloc_loop (ipToClient s) z a)
           | _ \<Rightarrow> Some (Inl TypeError)))"

definition dns_option :: "dhcp6_config \<Rightarrow> js_error + buffer list" where
  "dns_option cfg =
     (case filter (\<lambda>d. d \<noteq> []) [g_dns1 cfg, g_dns2 cfg] of
        [] \<Rightarrow> Inr []
      | [d] \<Rightarrow> bindE (ipv6ToBuffer d) (\<lambda>b. bindE (buildOption DNS_SERVERS b) (\<lambda>o1. Inr [o1]))
      | d # e # _ \<Rightarrow>
          bindE (ipv6ToBuffer d) (\<lambda>b. bindE (ipv6ToBuffer e) (\<lambda>c.
            bindE (buildOption DNS_SERVERS (b @ c)) (\<lambda>o1. Inr [o1]))))"

text \<open>The ADVERTISE or REPLY that carries an address, built the same way in \<open>handleSolicit\<close>
  and in \<open>handleRequest\<close>.\<close>

definition address_response ::
  "dhcp6_config \<Rightarrow> buffer \<Rightarrow> nat \<Rightarrow> buffer \<Rightarrow> string \<Rightarrow> string \<Rightarrow> string \<Rightarrow> js_error + buffer" where
  "address_response cfg srv msgType txId duid iaid ip =
     bindE (ipv6ToBuffer ip) (\<lambda>ipb.
     bindE (buildIaAddr ipb (preferredLifetime cfg) (validLifetime cfg)) (\<lambda>iaAddrOpt.
     bindE (buildIaNa (unhex iaid) (validLifetime cfg div 2) (validLifetime cfg * 7 div 8) iaAddrOpt) (\<lambda>iaNaOpt.
     bindE (buildOption SERVERID srv) (\<lambda>o1.
     bindE (buildOption CLIENTID (unhex duid)) (\<lambda>o2.
     bindE (dns_option cfg) (\<lambda>dns.
       Inr (buildDhcp6Response msgType txId ([o1, o2, iaNaOpt] @ dns))))))))"

definition status_response ::
  "buffer \<Rightarrow> nat \<Rightarrow> buffer \<Rightarrow> string \<Rightarrow> string \<Rightarrow> nat \<Rightarrow> string \<Rightarrow> js_error + buffer" where
  "status_response srv msgType txId duid iaid code msg =
     bindE (buildStatusCode code msg) (\<lambda>st.
     bindE (buildIaNa (unhex iaid) 0 0 st) (\<lambda>iaNaOpt.
     bindE (buildOption SERVERID srv) (\<lambda>o1.
     bindE (buildOption CLIENTID (unhex duid)) (\<lambda>o2.
       Inr (buildDhcp6Response msgType txId [o1, o2, iaNaOpt])))))"

definition reply6 :: "rinfo6 \<Rightarrow> dhcp6_out list \<Rightarrow> dhcp6_state \<Rightarrow> js_error + buffer \<Rightarrow> handled6" where
  "reply6 ri outs s resp =
     (case resp of Inl e \<Rightarrow> (s, outs, Some e) | Inr b \<Rightarrow> (s, outs @ [Send6 b (port6 ri) (address6 ri)], None))"

definition given :: "string option \<Rightarrow> bool" where
  "given x = (case x of None \<Rightarrow> False | Some t \<Rightarrow> t \<noteq> [])"

definition handleSolicit :: "dhcp6_packet \<Rightarrow> rinfo6 \<Rightarrow> dhcp6_state \<Rightarrow> handled6 option" where
  "handleSolicit packet ri s =
     (if \<not> given (q_clientDuid packet) \<or> \<not> given (q_iaid packet) then Some (s, [], None)
      else
        (case allocateIp6 s (the (q_clientDuid packet)) of
           None \<Rightarrow> None
         | Some (Inl e) \<Rightarrow> Some (s, [], Some e)
         | Some (Inr None) \<Rightarrow> Some (s, [], None)
         | Some (Inr (Some ip)) \<Rightarrow>
             (case config6 s of
                None \<Rightarrow> Some (s, [], Some TypeError)
              | Some cfg \<Rightarrow>
                  Some (reply6 ri [] s
                    (address_response cfg (serverDuid s) 2 (q_txId packet)
                       (the (q_clientDuid packet)) (the (q_iaid packet)) ip)))))"

text \<open>Recording the lease and answering, the part of \<open>handleRequest\<close> after the address
  has been chosen.\<close>

definition record_lease6 :: "int \<Rightarrow> dhcp6_config \<Rightarrow> string \<Rightarrow> string \<Rightarrow> string \<Rightarrow> dhcp6_state \<Rightarrow> dhcp6_state \<times> dhcp6_out" where
  "record_lease6 now cfg duid iaid ip s =
     (case lease6_of s duid of
        Some l \<Rightarrow>
          let l' = renew6 now (preferredLifetime cfg) (validLifetime cfg) l
          in (s\<lparr>leaseMap6 := AList.update duid l' (leaseMap6 s)\<rparr>, LeaseEvent6 ''update'' (getInfo6 now l'))
      | None \<Rightarrow>
          let l = new_Dhcp6Lease now duid ip iaid (preferredLifetime cfg) (validLifetime cfg)
          in (add_lease6 duid l s, LeaseEvent6 ''add'' (getInfo6 now l)))"

definition grant6 :: "int \<Rightarrow> dhcp6_packet \<Rightarrow> rinfo6 \<Rightarrow> string \<Rightarrow> dhcp6_state \<Rightarrow> handled6" where
  "grant6 now packet ri ip s =
     (case config6 s of
        None \<Rightarrow> (s, [], Some TypeError)
      | Some cfg \<Rightarrow>
          (let duid = the (q_clientDuid packet); iaid = the (q_iaid packet);
               (s1, ev) = record_lease6 now cfg duid iaid ip s
           in reply6 ri [ev] s1 (address_response cfg (serverDuid s) 7 (q_txId packet) duid iaid ip)))"

definition handleRequest6 :: "int \<Rightarrow> dhcp6_packet \<Rightarrow> rinfo6 \<Rightarrow> dhcp6_state \<Rightarrow> handled6 option" where
  "handleRequest6 now packet ri s =
     (if \<not> given (q_clientDuid packet) \<or> \<not> given (q_iaid packet) then Some (s, [], None)
      else if given (q_serverDuid packet) \<and> q_serverDuid packet \<noteq> Some (hex (serverDuid s)) then Some (s, [], None)
      else if given (q_requestedIp packet) then Some (grant6 now packet ri (the (q_requestedIp packet)) s)
      else
        (case allocateIp6 s (the (q_clientDuid packet)) of
           None \<Rightarrow> None
         | Some (Inl e) \<Rightarrow> Some (s, [], Some e)
         | Some (Inr (Some ip)) \<Rightarrow> Some (grant6 now packet ri ip s)
         | Some (Inr None) \<Rightarrow>
             Some (reply6 ri [] s
               (status_response (serverDuid s) 7 (q_txId packet) (the (q_clientDuid packet))
                  (the (q_iaid packet)) 2 ''No addresses available''))))"

definition removed_event6 :: "dhcp6_state \<Rightarrow> string \<Rightarrow> dhcp6_out list" where
  "removed_event6 s duid = (case lease6_of s duid of None \<Rightarrow> [] | Some l \<Rightarrow> [LeaseRemoved6 duid (m_ip l)])"

definition handleRelease6 :: "dhcp6_packet \<Rightarrow> rinfo6 \<Rightarrow> dhcp6_state \<Rightarrow> handled6" where
  "handleRelease6 packet ri s =
     (if \<not> given (q_clientDuid packet) then (s, [], None)
      else
        let duid = the (q_clientDuid packet);
            s1 = remove_lease6 duid s;
            outs = removed_event6 s duid
        in if given (q_iaid packet)
           then reply6 ri outs s1
                  (status_response (serverDuid s) 7 (q_txId packet) duid (the (q_iaid packet)) 0 ''Released'')
           else (s1, outs, None))"

definition releaseLease6 :: "nat \<Rightarrow> string \<Rightarrow> dhcp6_state \<Rightarrow> dhcp6_state \<times> dhcp6_out list" where
  "releaseLease6 messageId duid s =
     (case lease6_of s duid of
        Some l \<Rightarrow> (remove_lease6 duid s, [LeaseRemoved6 duid (m_ip l), SuccessResponse6 messageId])
      | None \<Rightarrow> (s, [ErrorResponse6 messageId]))"

definition expired_duids :: "int \<Rightarrow> dhcp6_state \<Rightarrow> string list" where
  "expired_duids now s = map fst (filter (\<lambda>(duid, l). isExpired6 now l) (leaseMap6 s))"

fun expire_all6 :: "string list \<Rightarrow> dhcp6_state \<Rightarrow> dhcp6_state \<times> dhcp6_out list" where
  "expire_all6 [] s = (s, [])"
| "expire_all6 (duid # duids) s =
     (let (s', outs) = expire_all6 duids (remove_lease6 duid s) in (s', removed_event6 s duid @ outs))"

definition checkExpiredLeases6 :: "int \<Rightarrow> dhcp6_state \<Rightarrow> dhcp6_state \<times> dhcp6_out list" where
  "checkExpiredLeases6 now s = expire_all6 (expired_duids now s) s"

definition getLeaseList6 :: "int \<Rightarrow> nat \<Rightarrow> dhcp6_state \<Rightarrow> dhcp6_out list" where
  "getLeaseList6 now messageId s = [LeaseList6 messageId (map (getInfo6 now \<circ> snd) (leaseMap6 s))]"

section \<open>Receiving, starting and stopping\<close>

definition on_message6 :: "int \<Rightarrow> buffer \<Rightarrow> rinfo6 \<Rightarrow> dhcp6_state \<Rightarrow> (dhcp6_state \<times> dhcp6_out list) option" where
  "on_message6 now msg ri s =
     (case parseDhcp6Packet msg of
        Inr (Some packet) \<Rightarrow>
          map_option (\<lambda>(s', outs, e). (s', outs))
            (if q_msgType packet = 1 then handleSolicit packet ri s
             else if q_msgType packet \<in> {3, 5, 6, 4} then handleRequest6 now packet ri s
             else if q_msgType packet = 8 then Some (handleRelease6 packet ri s)
             else Some (s, [], None))
      | _ \<Rightarrow> Some (s, []))"

text \<open>\<open>cleanupFailedStart(server)\<close> forgets \<open>this.server\<close> only when it is the given socket.\<close>

definition cleanupFailedStart :: "bool \<Rightarrow> dhcp6_state \<Rightarrow> dhcp6_state" where
  "cleanupFailedStart same_socket s =
     s\<lparr>leaseTimer6 := False, server6 := (if same_socket then False else server6 s), leaseMap6 := [], ipToClient := [], config6 := None,
       poolStartBuf := None, poolEndBuf := None\<rparr>"

definition startDhcp6 :: "nat \<Rightarrow> dhcp6_config \<Rightarrow> dhcp6_state \<Rightarrow> dhcp6_state \<times> dhcp6_out list" where
  "startDhcp6 messageId cfg s =
     (case bindE (ipv6ToBuffer (g_poolStart cfg)) (\<lambda>a. bindE (ipv6ToBuffer (g_poolEnd cfg)) (\<lambda>z. Inr (a, z))) of
        Inl e \<Rightarrow> (cleanupFailedStart False s, [ErrorResponse6 messageId])
      | Inr (a, z) \<Rightarrow>
          (s\<lparr>config6 := Some cfg, poolStartBuf := Some a, poolEndBuf := Some z, server6 := True\<rparr>, []))"

definition on_bound6 :: "nat \<Rightarrow> dhcp6_state \<Rightarrow> dhcp6_state \<times> dhcp6_out list" where
  "on_bound6 messageId s = (s\<lparr>leaseTimer6 := True\<rparr>, [SuccessResponse6 messageId])"

definition on_start_error6 :: "nat \<Rightarrow> dhcp6_state \<Rightarrow> dhcp6_state \<times> dhcp6_out list" where
  "on_start_error6 messageId s = (cleanupFailedStart True s, [ErrorResponse6 messageId])"

definition stopDhcp6 :: "nat \<Rightarrow> dhcp6_state \<Rightarrow> dhcp6_state \<times> dhcp6_out list" where
  "stopDhcp6 messageId s = (cleanupFailedStart True s, [SuccessResponse6 messageId])"

section \<open>Allocation\<close>

lemma alloc_loop_out: "\<not> buf_le cur z \<Longrightarrow> alloc_loop owners z cur = Some None"
  by (simp add: alloc_loop.simps)

text \<open>The contract of the search in a range of address numbers: the lowest address nobody
  holds, or nothing when all are held.\<close>

definition held :: "(string \<times> string) list \<Rightarrow> nat \<Rightarrow> bool" where
  "held owners n \<longleftrightarrow> (\<forall>d. length d = 16 \<and> buf_val d = n \<longrightarrow> map_of owners (bufferToIpv6 d) \<noteq> None)"

definition lowest_free :: "(string \<times> string) list \<Rightarrow> nat \<Rightarrow> nat \<Rightarrow> string option \<Rightarrow> bool" where
  "lowest_free owners lo hi res \<longleftrightarrow>
     (case res of
        Some ip \<Rightarrow> \<exists>c. length c = 16 \<and> lo \<le> buf_val c \<and> buf_val c \<le> hi \<and> ip = bufferToIpv6 c \<and>
          map_of owners ip = None \<and> (\<forall>n. lo \<le> n \<and> n < buf_val c \<longrightarrow> held owners n)
      | None \<Rightarrow> \<forall>n. lo \<le> n \<and> n \<le> hi \<longrightarrow> held owners n)"

lemma held_iff: "length a = 16 \<Longrightarrow> held owners (buf_val a) \<longleftrightarrow> map_of owners (bufferToIpv6 a) \<noteq> None"
  unfolding held_def using buf_val_inj by metis

lemma lowest_free_step:
  assumes "held owners lo" "lowest_free owners (lo + 1) hi res"
  shows "lowest_free owners lo hi res"
proof -
  have "lo \<le> n \<longleftrightarrow> n = lo \<or> lo + 1 \<le> n" for n :: nat by auto
  then show ?thesis using assms by (auto simp: lowest_free_def split: option.splits)
qed

lemma alloc_loop_spec:
  assumes "length a = 16" "length z = 16" "buf_val z + 1 < 256 ^ 16"
  shows "\<exists>res. alloc_loop owners z a = Some res \<and> lowest_free owners (buf_val a) (buf_val z) res"
  using assms
proof (induction "buf_val z + 1 - buf_val a" arbitrary: a rule: less_induct)
  case less
  have le: "buf_le a z \<longleftrightarrow> buf_val a \<le> buf_val z" using less.prems by (simp add: buf_le_val)
  note h = held_iff [OF less.prems(1), of owners]
  show ?case
  proof (cases "buf_val a \<le> buf_val z \<and> held owners (buf_val a)")
    case True
    then have v: "buf_val (incrementIpv6 a) = buf_val a + 1"
      using less.prems by (simp add: incrementIpv6_val)
    have eq: "alloc_loop owners z a = alloc_loop owners z (incrementIpv6 a)"
      using True le h by (auto simp: alloc_loop.simps [of owners z a])
    have "\<exists>res. alloc_loop owners z (incrementIpv6 a) = Some res \<and>
        lowest_free owners (buf_val (incrementIpv6 a)) (buf_val z) res"
      using less.prems True v by (intro less.hyps) auto
    then show ?thesis using eq v True lowest_free_step by auto
  next
    case False
    then show ?thesis
      using less.prems le h
      by (cases "buf_val a \<le> buf_val z") (auto simp: alloc_loop.simps [of owners z a] lowest_free_def)
  qed
qed

section \<open>The lease table\<close>

interpretation v6: lease_table lease6_of client_of m_ip add_lease6 remove_lease6
  by unfold_locales
     (auto simp: lease6_of_def client_of_def add_lease6_def remove_lease6_def fun_eq_iff split: option.splits)

definition agrees6 :: "dhcp6_state \<Rightarrow> bool" where
  "agrees6 s \<longleftrightarrow> table_agrees m_ip (lease6_of s) (client_of s)"

lemma agrees6_remove: "agrees6 s \<Longrightarrow> agrees6 (remove_lease6 duid s)"
  unfolding agrees6_def by (rule v6.agrees_unbind)

lemma reply6_state [simp]: "fst (reply6 ri outs s r) = s"
  by (simp add: reply6_def split: sum.splits)

lemma lookup6_simps [simp]:
  "lease6_of (s\<lparr>leaseMap6 := AList.update duid l (leaseMap6 s)\<rparr>) = (lease6_of s)(duid \<mapsto> l)"
  "client_of (s\<lparr>leaseMap6 := y\<rparr>) = client_of s"
  by (auto simp: lease6_of_def client_of_def)

lemma agrees6_record:
  assumes "agrees6 s" "client_of s ip = None \<or> client_of s ip = Some duid"
  shows "agrees6 (fst (record_lease6 now cfg duid iaid ip s))"
proof (cases "lease6_of s duid")
  case (Some l)
  then show ?thesis
    using assms(1) v6.agrees_renew [of s duid l "renew6 now (preferredLifetime cfg) (validLifetime cfg) l"]
    by (simp add: record_lease6_def agrees6_def renew6_def Let_def)
next
  case None
  let ?l = "new_Dhcp6Lease now duid ip iaid (preferredLifetime cfg) (validLifetime cfg)"
  have "client_of s ip \<noteq> Some duid"
    using assms(1) None table_agrees_owner unfolding agrees6_def by fastforce
  then have "client_of s (m_ip ?l) = None" using assms(2) by (simp add: new_Dhcp6Lease_def)
  then have "agrees6 (add_lease6 duid ?l s)"
    using v6.agrees_bind [of s duid ?l] assms(1) None by (simp add: agrees6_def)
  then show ?thesis using None by (simp add: record_lease6_def Let_def)
qed

lemma agrees6_grant:
  assumes "agrees6 s" "client_of s ip = None \<or> client_of s ip = q_clientDuid packet" "q_clientDuid packet \<noteq> None"
  shows "agrees6 (fst (grant6 now packet ri ip s))"
proof (cases "config6 s")
  case (Some cfg)
  then show ?thesis
    using agrees6_record [OF assms(1), of ip "the (q_clientDuid packet)"] assms(2,3)
    by (auto simp: grant6_def Let_def case_prod_unfold)
qed (simp add: grant6_def assms)

lemma alloc_loop_free: "alloc_loop owners z a = Some (Some ip) \<Longrightarrow> map_of owners ip = None"
proof -
  have "\<forall>ip. y = Some ip \<longrightarrow> map_of owners ip = None" if "alloc_loop owners z a = Some y" for y
    by (rule alloc_loop.raw_induct [OF _ that, where P = "\<lambda>owners z a y. \<forall>ip. y = Some ip \<longrightarrow> map_of owners ip = None"])
       (auto split: if_splits)
  then show "alloc_loop owners z a = Some (Some ip) \<Longrightarrow> map_of owners ip = None" by simp
qed

lemma allocateIp6_free:
  assumes "agrees6 s" "allocateIp6 s duid = Some (Inr (Some ip))"
  shows "client_of s ip = None \<or> client_of s ip = Some duid"
proof (cases "lease6_of s duid")
  case None
  with assms(2) show ?thesis
    by (auto simp: allocateIp6_def client_of_def split: option.splits dest: alloc_loop_free)
next
  case (Some l)
  with assms table_agrees_lease show ?thesis by (fastforce simp: allocateIp6_def agrees6_def)
qed

lemma agrees6_request:
  assumes "agrees6 s" "handleRequest6 now packet ri s = Some r"
    and "\<And>ip c. q_requestedIp packet = Some ip \<Longrightarrow> client_of s ip = Some c \<Longrightarrow> q_clientDuid packet = Some c"
  shows "agrees6 (fst r)"
proof (cases "given (q_clientDuid packet) \<and> given (q_requestedIp packet)")
  case True
  then obtain duid ip where d: "q_clientDuid packet = Some duid" "q_requestedIp packet = Some ip"
    by (auto simp: given_def split: option.splits)
  have "agrees6 (fst (grant6 now packet ri ip s))"
    using assms(1) assms(3) [of ip] d by (intro agrees6_grant) (cases "client_of s ip"; auto)+
  then show ?thesis using assms(1,2) d True by (auto simp: handleRequest6_def split: if_splits)
next
  case False
  show ?thesis
  proof (cases "given (q_clientDuid packet)")
    case True
    then obtain duid where d: "q_clientDuid packet = Some duid" by (auto simp: given_def split: option.splits)
    have "agrees6 (fst (grant6 now packet ri ip s))" if "allocateIp6 s duid = Some (Inr (Some ip))" for ip
      using allocateIp6_free [OF assms(1) that] d assms(1) by (intro agrees6_grant) auto
    then show ?thesis
      using assms(1,2) d False True by (auto simp: handleRequest6_def split: if_splits option.splits sum.splits)
  next
    case none: False
    with assms(1,2) show ?thesis by (auto simp: handleRequest6_def)
  qed
qed

lemma agrees6_solicit: "handleSolicit packet ri s = Some r \<Longrightarrow> fst r = s"
  by (auto simp: handleSolicit_def split: if_splits option.splits sum.splits)

lemma agrees6_release: "agrees6 s \<Longrightarrow> agrees6 (fst (handleRelease6 packet ri s))"
  by (simp add: handleRelease6_def Let_def agrees6_remove)

lemma expire_all6_state: "fst (expire_all6 duids s) = fold remove_lease6 duids s"
  by (induction duids arbitrary: s) (simp_all add: case_prod_unfold)

lemma agrees6_expire: "agrees6 s \<Longrightarrow> agrees6 (fst (checkExpiredLeases6 now s))"
  unfolding agrees6_def checkExpiredLeases6_def expire_all6_state by (rule v6.agrees_unbind_fold)

section \<open>The wire form of a response\<close>

definition tlv6 :: "nat \<times> buffer \<Rightarrow> buffer" where
  "tlv6 = (\<lambda>(code, v). enc16 code @ enc16 (length v) @ v)"

lemma buildOption_Inr: "buildOption code v = Inr o1 \<longleftrightarrow> length v < 65536 \<and> o1 = tlv6 (code, v)"
  by (auto simp: buildOption_def tlv6_def)

lemma parse6_options_tlvs:
  assumes "\<forall>(code, v) \<in> set ts. code < 65536 \<and> length v < 65536"
  shows "parse6_options (pre @ concat (map tlv6 ts)) (length pre) opts =
    fold (\<lambda>(code, v) m. m(code \<mapsto> v)) ts opts"
  using assms
proof (induction ts arbitrary: pre opts)
  case Nil
  show ?case by (simp add: parse6_options.simps)
next
  case (Cons t ts)
  obtain code v where t: "t = (code, v)" by (cases t)
  with Cons.prems have cv: "code < 65536" "length v < 65536" by auto
  define b where "b = (pre @ tlv6 t) @ concat (map tlv6 ts)"
  have bt: "pre @ concat (map tlv6 (t # ts)) = b" by (simp add: b_def)
  have len: "length (pre @ tlv6 t) = length pre + 4 + length v" by (simp add: t tlv6_def)
  have "be16 b (length pre) = code" "be16 b (length pre + 2) = length v"
    "subarray b (length pre + 4) (length pre + 4 + length v) = v"
    using cv by (simp_all add: b_def t tlv6_def buf_simps)
  moreover have "length pre + 4 + length v \<le> length b" by (simp add: b_def t tlv6_def)
  ultimately have "parse6_options b (length pre) opts = parse6_options b (length (pre @ tlv6 t)) (opts(code \<mapsto> v))"
    unfolding len by (subst parse6_options.simps) (simp add: Let_def)
  also have "\<dots> = fold (\<lambda>(code, v) m. m(code \<mapsto> v)) ts (opts(code \<mapsto> v))"
    using Cons.IH [of "pre @ tlv6 t" "opts(code \<mapsto> v)"] Cons.prems by (simp add: b_def del: fun_upd_apply)
  finally show ?case using bt t by (simp del: fun_upd_apply)
qed

lemma buildIaAddr_Inr:
  assumes "length ipb = 16" "buildIaAddr ipb p v = Inr o1"
  shows "\<exists>x. length x = 8 \<and> o1 = tlv6 (IAADDR, ipb @ x)"
proof -
  obtain a b where ab: "writeUInt32 p = Inr a" "writeUInt32 v = Inr b"
    and o1: "buildOption IAADDR (put (put (put (alloc 24) 0 ipb) 16 a) 20 b) = Inr o1"
    using assms(2) by (auto simp: buildIaAddr_def bindE_Inr_iff)
  have len: "length a = 4" "length b = 4" using ab by (auto simp: writeUInt32_def split: if_splits)
  have "put (alloc 24) 0 ipb = ipb @ alloc 8" using assms(1) by (simp add: put_alloc)
  moreover have "put (ipb @ alloc 8) 16 a = (ipb @ a) @ alloc 4" using assms(1) len by (simp add: buf_simps)
  moreover have "put ((ipb @ a) @ alloc 4) 20 b = ipb @ a @ b"
    using assms(1) len put_append [of 20 "ipb @ a" b "alloc 4"] by (simp add: buf_simps)
  ultimately show ?thesis using o1 len by (auto simp: buildOption_Inr intro!: exI [of _ "a @ b"])
qed

lemma buildIaNa_Inr:
  assumes "length iaid = 4" "buildIaNa iaid t1 t2 st = Inr o1"
  shows "\<exists>x. length x = 8 \<and> length (iaid @ x @ st) < 65536 \<and> o1 = tlv6 (IA_NA, iaid @ x @ st)"
proof -
  obtain a b where ab: "writeUInt32 t1 = Inr a" "writeUInt32 t2 = Inr b"
    and o1: "buildOption IA_NA
      (put (put (put (put (alloc (12 + length st)) 0 iaid) 4 a) 8 b) 12 st) = Inr o1"
    using assms(2) by (auto simp: buildIaNa_def bindE_Inr_iff)
  have len: "length a = 4" "length b = 4" using ab by (auto simp: writeUInt32_def split: if_splits)
  have "put (alloc (12 + length st)) 0 iaid = iaid @ alloc (8 + length st)"
    using assms(1) by (simp add: put_alloc)
  moreover have "put (iaid @ alloc (8 + length st)) 4 a = (iaid @ a) @ alloc (4 + length st)"
    using assms(1) len by (simp add: buf_simps)
  moreover have "put ((iaid @ a) @ alloc (4 + length st)) 8 b = (iaid @ a @ b) @ alloc (length st)"
    using assms(1) len put_append [of 8 "iaid @ a" b "alloc (4 + length st)"] by (simp add: buf_simps)
  moreover have "put ((iaid @ a @ b) @ alloc (length st)) 12 st = iaid @ a @ b @ st"
    using assms(1) len put_append [of 12 "iaid @ a @ b" st "alloc (length st)"] by (simp add: buf_simps)
  ultimately show ?thesis using o1 len by (auto simp: buildOption_Inr intro!: exI [of _ "a @ b"])
qed

lemma parse_iana_addr:
  assumes "length ipb = 16" "length x = 8" "length pre = 12"
  shows "parse_iana (pre @ tlv6 (IAADDR, ipb @ x)) 12 None = Inr (Some (bufferToIpv6 ipb))"
proof -
  let ?b = "pre @ tlv6 (IAADDR, ipb @ x)"
  have "be16 ?b 12 = IAADDR" "be16 ?b 14 = 24" "subarray ?b 16 32 = ipb" "length ?b = 40"
    using assms by (simp_all add: tlv6_def buf_simps IAADDR_def)
  then have "parse_iana ?b 12 None = parse_iana ?b 40 (Some (bufferToIpv6 ipb))"
    using assms(1) by (subst parse_iana.simps) simp
  also have "\<dots> = Inr (Some (bufferToIpv6 ipb))"
    using \<open>length ?b = 40\<close> by (subst parse_iana.simps) simp
  finally show ?thesis .
qed

lemma dns_option_Inr:
  "dns_option cfg = Inr dns \<Longrightarrow>
   \<exists>ts. dns = map tlv6 ts \<and> (\<forall>(code, v) \<in> set ts. code = DNS_SERVERS \<and> length v < 65536)"
  by (auto simp: dns_option_def bindE_Inr_iff buildOption_Inr split: list.splits if_splits
      intro: exI [of _ "[]"] exI [of _ "[x]" for x])

lemma response_fields:
  assumes "length txId = 3" "msgType < 256"
    and "b = buildDhcp6Response msgType txId (map tlv6 ts)"
    and "\<forall>(code, v) \<in> set ts. code < 65536 \<and> length v < 65536"
  shows "4 \<le> length b" "unat (b ! 0) = msgType" "subarray b 1 4 = txId"
    "parse6_options b 4 Map.empty = fold (\<lambda>(code, v) m. m(code \<mapsto> v)) ts Map.empty"
proof -
  have "put (alloc 4) 0 (enc8 msgType) = enc8 msgType @ alloc 3" by (simp add: put_alloc)
  moreover have "put (enc8 msgType @ alloc 3) 1 txId = enc8 msgType @ txId"
    using assms(1) by (simp add: buf_simps)
  ultimately have b: "b = (enc8 msgType @ txId) @ concat (map tlv6 ts)"
    by (simp add: assms(3) buildDhcp6Response_def)
  show "4 \<le> length b" "unat (b ! 0) = msgType" "subarray b 1 4 = txId"
    using assms(1,2) by (simp_all add: b buf_simps) (simp add: enc8_def)
  show "parse6_options b 4 Map.empty = fold (\<lambda>(code, v) m. m(code \<mapsto> v)) ts Map.empty"
    using parse6_options_tlvs [OF assms(4), of "enc8 msgType @ txId" Map.empty] assms(1)
    by (simp add: b del: fun_upd_apply)
qed

lemma fold_upd_none: "\<forall>(code, v) \<in> set ts. code \<noteq> c \<Longrightarrow> fold (\<lambda>(code, v) m. m(code \<mapsto> v)) ts m c = m c"
  by (induction ts arbitrary: m) auto

section \<open>A small server for concrete runs\<close>

definition demo6_config :: dhcp6_config where
  "demo6_config = \<lparr>g_serverPort = None, g_poolStart = ''::1'', g_poolEnd = ''::9'', preferredLifetime = 60,
     validLifetime = 60, g_dns1 = [], g_dns2 = []\<rparr>"

definition demo6_state :: dhcp6_state where
  "demo6_state = (new_Dhcp6Worker (alloc 6))\<lparr>config6 := Some demo6_config\<rparr>"

definition demo6_rinfo :: rinfo6 where
  "demo6_rinfo = \<lparr>address6 = ''fe80::9'', port6 = 546\<rparr>"

definition demo6_request :: "string \<Rightarrow> dhcp6_packet" where
  "demo6_request c = \<lparr>q_msgType = 3, q_txId = [0, 0, 1], q_options = Map.empty, q_clientDuid = Some c,
     q_serverDuid = None, q_iaid = Some ''00000001'', q_requestedIp = Some ''fe80::1''\<rparr>"

section \<open>Properties of the DHCPv6 server\<close>

text \<open>C31. An IPv6 address printed by \<open>bufferToIpv6\<close>, with its longest run of zero groups
  compressed, is accepted by \<open>ipv6ToBuffer\<close> and read back as the same sixteen bytes.\<close>

theorem ipv6_text_roundtrip:
  assumes "length b = 16"
  shows "isIPv6 (bufferToIpv6 b) \<and> ipv6ToBuffer (bufferToIpv6 b) = Inr b"
  using ipv6ToBuffer_bufferToIpv6 [OF assms] by (auto simp: ipv6ToBuffer_def split: if_splits)

theorem ipv6_text_roundtrip_witness:
  "ipv6ToBuffer (bufferToIpv6 (enc16 0x2001 @ enc16 0xdb8 @ alloc 10 @ enc16 0x100)) =
   Inr (enc16 0x2001 @ enc16 0xdb8 @ alloc 10 @ enc16 0x100)"
  using ipv6_text_roundtrip [of "enc16 0x2001 @ enc16 0xdb8 @ alloc 10 @ enc16 0x100"] by simp

text \<open>C26. \<open>allocateIp\<close> of the DHCPv6 server always returns when the pool does not end at
  the last address of all: a client with a lease gets its own address, any other client
  the lowest address of the pool that nobody holds, and null exactly when all are held.\<close>

theorem dhcp6_allocateIp:
  assumes "poolStartBuf s = Some a" "poolEndBuf s = Some z" "length a = 16" "length z = 16"
    and "buf_val z + 1 < 256 ^ 16"
  shows "\<exists>res. allocateIp6 s duid = Some (Inr res) \<and>
    (case lease6_of s duid of
       Some l \<Rightarrow> res = Some (m_ip l)
     | None \<Rightarrow> lowest_free (ipToClient s) (buf_val a) (buf_val z) res)"
  using assms alloc_loop_spec [OF assms(3-5), of "ipToClient s"]
  by (auto simp: allocateIp6_def split: option.splits)

theorem dhcp6_allocateIp_witness:
  "\<exists>res. allocateIp6 ((new_Dhcp6Worker (alloc 6))\<lparr>poolStartBuf := Some (alloc 16), poolEndBuf := Some (alloc 16)\<rparr>)
      ''01'' = Some (Inr res) \<and> lowest_free [] (buf_val (alloc 16)) (buf_val (alloc 16)) res"
proof -
  have "val_rev (replicate n 0) = 0" for n by (induction n) simp_all
  then have "buf_val (alloc 16) = 0" by (simp add: buf_val_def alloc_def)
  then show ?thesis
    using dhcp6_allocateIp [of "(new_Dhcp6Worker (alloc 6))\<lparr>poolStartBuf := Some (alloc 16), poolEndBuf := Some (alloc 16)\<rparr>"
        "alloc 16" "alloc 16" "''01''"]
    by (simp add: lease6_of_def new_Dhcp6Worker_def)
qed



text \<open>C32. A defect: a request names its own address and the server checks it neither
  against the pool nor against the leases.  Two clients without a lease that ask for the
  same address, whatever it is, both get a lease of it.\<close>

theorem dhcp6_duplicate_lease:
  assumes "config6 s = Some cfg" "lease6_of s c = None" "lease6_of s c' = None" "c \<noteq> c'" "c \<noteq> []" "c' \<noteq> []"
    and "q_clientDuid p = Some c" "q_clientDuid p' = Some c'" "given (q_iaid p)" "given (q_iaid p')"
    and "q_serverDuid p = None" "q_serverDuid p' = None"
    and "q_requestedIp p = Some ip" "q_requestedIp p' = Some ip" "ip \<noteq> []"
  shows "\<exists>s1 outs e s2 outs' e' l l'.
    handleRequest6 now p ri s = Some (s1, outs, e) \<and> handleRequest6 now' p' ri' s1 = Some (s2, outs', e') \<and>
    lease6_of s2 c = Some l \<and> lease6_of s2 c' = Some l' \<and> m_ip l = ip \<and> m_ip l' = ip"
proof -
  define s1 where "s1 = fst (record_lease6 now cfg c (the (q_iaid p)) ip s)"
  define s2 where "s2 = fst (record_lease6 now' cfg c' (the (q_iaid p')) ip s1)"
  have "fst (grant6 now p ri ip s) = s1"
    using assms by (simp add: grant6_def s1_def case_prod_unfold Let_def)
  then obtain outs e where g: "grant6 now p ri ip s = (s1, outs, e)" by (metis prod.collapse)
  have l1: "lease6_of s1 c = Some (new_Dhcp6Lease now c ip (the (q_iaid p)) (preferredLifetime cfg) (validLifetime cfg))"
    "lease6_of s1 c' = None" "config6 s1 = Some cfg"
    using assms by (simp_all add: s1_def record_lease6_def Let_def v6.lease_bind) (simp add: add_lease6_def)
  have "fst (grant6 now' p' ri' ip s1) = s2"
    using assms l1 by (simp add: grant6_def s2_def case_prod_unfold Let_def)
  then obtain outs' e' where g': "grant6 now' p' ri' ip s1 = (s2, outs', e')" by (metis prod.collapse)
  have "lease6_of s2 c = lease6_of s1 c"
    "lease6_of s2 c' = Some (new_Dhcp6Lease now' c' ip (the (q_iaid p')) (preferredLifetime cfg) (validLifetime cfg))"
    using l1 assms(4) by (simp_all add: s2_def record_lease6_def Let_def v6.lease_bind)
  with g g' l1 assms show ?thesis
    by (simp add: handleRequest6_def given_def new_Dhcp6Lease_def)
qed

theorem dhcp6_duplicate_lease_witness:
  "\<exists>s1 outs e s2 outs' e' l l'.
    handleRequest6 0 (demo6_request ''01'') demo6_rinfo demo6_state = Some (s1, outs, e) \<and>
    handleRequest6 0 (demo6_request ''02'') demo6_rinfo s1 = Some (s2, outs', e') \<and>
    lease6_of s2 ''01'' = Some l \<and> lease6_of s2 ''02'' = Some l' \<and> m_ip l = ''fe80::1'' \<and> m_ip l' = ''fe80::1''"
  by (rule dhcp6_duplicate_lease [of demo6_state demo6_config])
     (simp_all add: demo6_state_def demo6_request_def lease6_of_def new_Dhcp6Worker_def given_def)

text \<open>Every ADVERTISE or REPLY that carries an address parses again: the message type,
  the transaction id, both identifiers, the IAID and the address are the ones it was built
  from.\<close>

theorem dhcp6_response_parses:
  assumes "address_response cfg srv msgType txId (hex duid) (hex iaid) (bufferToIpv6 ipb) = Inr resp"
    and "length txId = 3" "length iaid = 4" "length ipb = 16" "msgType < 256"
  shows "\<exists>q. parseDhcp6Packet resp = Inr (Some q) \<and> q_msgType q = msgType \<and> q_txId q = txId \<and>
    q_clientDuid q = Some (hex duid) \<and> q_serverDuid q = Some (hex srv) \<and> q_iaid q = Some (hex iaid) \<and>
    q_requestedIp q = Some (bufferToIpv6 ipb)"
proof -
  obtain iaAddr iaNa o1 o2 dns where parts:
      "buildIaAddr ipb (preferredLifetime cfg) (validLifetime cfg) = Inr iaAddr"
      "buildIaNa iaid (validLifetime cfg div 2) (validLifetime cfg * 7 div 8) iaAddr = Inr iaNa"
      "buildOption SERVERID srv = Inr o1" "buildOption CLIENTID duid = Inr o2" "dns_option cfg = Inr dns"
    and resp: "resp = buildDhcp6Response msgType txId ([o1, o2, iaNa] @ dns)"
    using assms(1) ipv6ToBuffer_bufferToIpv6 [OF assms(4)]
    by (auto simp: address_response_def bindE_Inr_iff unhex_hex)
  obtain x where x: "length x = 8" "iaAddr = tlv6 (IAADDR, ipb @ x)"
    using buildIaAddr_Inr [OF assms(4) parts(1)] by blast
  obtain y where y: "length y = 8" "length (iaid @ y @ iaAddr) < 65536" "iaNa = tlv6 (IA_NA, iaid @ y @ iaAddr)"
    using buildIaNa_Inr [OF assms(3) parts(2)] by blast
  obtain ds where ds: "dns = map tlv6 ds" "\<forall>(code, v) \<in> set ds. code = DNS_SERVERS \<and> length v < 65536"
    using dns_option_Inr [OF parts(5)] by blast
  define ts where "ts = [(SERVERID, srv), (CLIENTID, duid), (IA_NA, iaid @ y @ iaAddr)] @ ds"
  have r: "resp = buildDhcp6Response msgType txId (map tlv6 ts)"
    using parts(3,4) y ds by (simp add: resp ts_def buildOption_Inr)
  have ok: "\<forall>(code, v) \<in> set ts. code < 65536 \<and> length v < 65536"
    using parts(3,4) y(2) ds(2)
    by (auto simp: ts_def buildOption_Inr SERVERID_def CLIENTID_def IA_NA_def DNS_SERVERS_def)
  note f = response_fields [OF assms(2,5) r ok]
  have o3: "parse6_options resp 4 Map.empty c =
      fold (\<lambda>(code, v) m. m(code \<mapsto> v)) [(SERVERID, srv), (CLIENTID, duid), (IA_NA, iaid @ y @ iaAddr)] Map.empty c"
    if "c \<noteq> DNS_SERVERS" for c
    using fold_upd_none [of ds c] ds(2) that unfolding f(4) ts_def by (fastforce simp del: fun_upd_apply)
  have look: "parse6_options resp 4 Map.empty CLIENTID = Some duid"
    "parse6_options resp 4 Map.empty SERVERID = Some srv"
    "parse6_options resp 4 Map.empty IA_NA = Some (iaid @ y @ iaAddr)"
    using o3 by (simp_all add: SERVERID_def CLIENTID_def IA_NA_def DNS_SERVERS_def)
  have "parse_iana ((iaid @ y) @ iaAddr) 12 None = Inr (Some (bufferToIpv6 ipb))"
    using parse_iana_addr [OF assms(4) x(1), of "iaid @ y"] assms(3) y(1) x(2) by simp
  then show ?thesis
    using f look assms(3) y(1) by (simp add: parseDhcp6Packet_def Let_def buf_simps)
qed

theorem dhcp6_response_parses_witness:
  "\<exists>resp q. address_response demo6_config [0, 3] 7 [0, 0, 1] (hex [1]) (hex [0, 0, 0, 1]) (bufferToIpv6 (alloc 16)) = Inr resp \<and>
     parseDhcp6Packet resp = Inr (Some q) \<and> q_requestedIp q = Some (bufferToIpv6 (alloc 16))"
proof -
  have "\<exists>resp. address_response demo6_config [0, 3] 7 [0, 0, 1] (hex [1]) (hex [0, 0, 0, 1]) (bufferToIpv6 (alloc 16)) = Inr resp"
    by (simp add: address_response_def ipv6ToBuffer_bufferToIpv6 buildIaAddr_def buildIaNa_def writeUInt32_def
        buildOption_def demo6_config_def dns_option_def unhex_hex)
  then obtain resp where r: "address_response demo6_config [0, 3] 7 [0, 0, 1] (hex [1]) (hex [0, 0, 0, 1])
    (bufferToIpv6 (alloc 16)) = Inr resp" by blast
  then show ?thesis using dhcp6_response_parses [OF r] by auto
qed

end
