(* ===== verification/Tftp_Session.thy ===== *)
theory Tftp_Session
  imports Posix_Path
begin

text \<open>
  One TFTP transfer: \<^verbatim>\<open>electron/worker/transfer/tftpSession.js\<close>.  The session object
  is the record \<open>tftp_session\<close>; its methods return the changed object and the effects:
  datagrams sent from the session's socket, updates reported to the worker, file system
  requests.  What comes back later (the result of a file operation, the end of a send, a
  timer) is an event of its own, \<open>tftp_event\<close>.  Paths are POSIX paths as lists of
  segments.  The texts of the error messages are lists of UTF-16 units, because
  \<open>Buffer.from(text, 'ascii')\<close> keeps the low byte of each.  The \<open>message\<close> texts of
  the updates are left out.
\<close>

section \<open>Constants\<close>

definition RRQ :: nat where "RRQ = 1"
definition WRQ :: nat where "WRQ = 2"
definition DATA :: nat where "DATA = 3"
definition TFTP_ACK :: nat where "TFTP_ACK = 4"
definition TFTP_ERROR :: nat where "TFTP_ERROR = 5"
definition OACK :: nat where "OACK = 6"

definition FILE_NOT_FOUND :: nat where "FILE_NOT_FOUND = 1"
definition ACCESS_VIOLATION :: nat where "ACCESS_VIOLATION = 2"
definition DISK_FULL :: nat where "DISK_FULL = 3"
definition UNKNOWN_TID :: nat where "UNKNOWN_TID = 5"

definition BLOCK_MIN :: nat where "BLOCK_MIN = 8"
definition BLOCK_MAX :: nat where "BLOCK_MAX = 65464"
definition BLOCK_DEFAULT :: nat where "BLOCK_DEFAULT = 512"

type_synonym utf16 = "nat list"

definition latin :: "string \<Rightarrow> utf16" where
  "latin s = map of_char s"

section \<open>Requests\<close>

text \<open>The strings that end in a zero byte, from the given offset; a last string without the
  zero byte is dropped.\<close>

fun zero_strings :: "buffer \<Rightarrow> buffer \<Rightarrow> string list" where
  "zero_strings [] cur = []"
| "zero_strings (w # ws) cur =
     (if w = 0 then ascii_text (rev cur) # zero_strings ws [] else zero_strings ws (w # cur))"

definition lower_char :: "char \<Rightarrow> char" where
  "lower_char c = (let n = (of_char c :: nat) in if 65 \<le> n \<and> n \<le> 90 then char_of (n + 32) else c)"

definition toLowerCase :: "string \<Rightarrow> string" where
  "toLowerCase s = map lower_char s"

fun option_pairs :: "string list \<Rightarrow> (string \<rightharpoonup> string) \<Rightarrow> (string \<rightharpoonup> string)" where
  "option_pairs (k # v # rest) m = option_pairs rest (m(toLowerCase k \<mapsto> v))"
| "option_pairs _ m = m"

record tftp_request =
  r_filename :: "string option"
  r_mode :: string
  r_options :: "string \<rightharpoonup> string"

definition parseRequest :: "buffer \<Rightarrow> tftp_request" where
  "parseRequest b =
     (let parts = zero_strings (drop 2 b) [];
          mode = (if 1 < length parts \<and> parts ! 1 \<noteq> [] then parts ! 1 else ''octet'')
      in \<lparr>r_filename = (if parts = [] then None else Some (hd parts)), r_mode = toLowerCase mode,
          r_options = option_pairs (drop 2 parts) Map.empty\<rparr>)"

section \<open>Building packets\<close>

definition buildData :: "nat \<Rightarrow> buffer \<Rightarrow> buffer" where
  "buildData blockNumber data = enc16 DATA @ enc16 (blockNumber mod 65536) @ data"

definition buildAck :: "nat \<Rightarrow> buffer" where
  "buildAck blockNumber = enc16 TFTP_ACK @ enc16 (blockNumber mod 65536)"

definition buildError :: "nat \<Rightarrow> utf16 \<Rightarrow> buffer" where
  "buildError code message = enc16 TFTP_ERROR @ enc16 code @ map word_of_nat message @ [0]"

definition buildOack :: "(string \<times> string) list \<Rightarrow> buffer" where
  "buildOack options =
     enc16 OACK @ concat (map (\<lambda>(k, v). ascii_bytes k @ [0] @ ascii_bytes v @ [0]) options)"

section \<open>Paths\<close>

definition resolveSafePath :: "string list \<Rightarrow> string option \<Rightarrow> string list option" where
  "resolveSafePath rootDir filename =
     (let name = (case filename of None \<Rightarrow> ''undefined'' | Some f \<Rightarrow> f);
          target = path_resolve rootDir (''./'' @ name);
          rel = join ''/'' (path_relative rootDir target)
      in if rel = [] \<or> starts_with_dots rel \<or> isAbsolute rel then None else Some target)"

section \<open>The session\<close>

datatype transfer_type = ReadT | WriteT

record tftp_config =
  rootDir :: "string list"
  cfg_timeout :: nat
  cfg_retries :: nat
  allowRead :: bool
  allowWrite :: bool

text \<open>What a finished send triggers: \<open>fail\<close> after an error packet, \<open>complete\<close> after the
  last ACK of an upload.\<close>

datatype after_send = ThenFail | ThenComplete

record tftp_session =
  tcfg :: tftp_config
  sock :: bool
  clientAddress :: string
  clientPort :: nat
  ttype :: "transfer_type option"
  filename :: "string option"
  mode :: string
  blockSize :: nat
  timeoutMs :: int
  maxRetries :: nat
  fileBuffer :: buffer
  writePath :: "string list"
  writeChunks :: "buffer list"
  totalSize :: int
  bytes :: int
  blockNumber :: nat
  finalBlock :: nat
  expectOackAck :: bool
  lastSent :: "buffer option"
  retries :: nat
  timer :: bool
  pendings :: "after_send list"
  flushes :: "(nat \<times> buffer) list"
  closed :: bool

definition new_TftpSession :: "tftp_config \<Rightarrow> tftp_session" where
  "new_TftpSession cfg =
     \<lparr>tcfg = cfg, sock = False, clientAddress = [], clientPort = 0, ttype = None, filename = None,
      mode = ''octet'', blockSize = BLOCK_DEFAULT,
      timeoutMs = (if cfg_timeout cfg = 0 then 3 else int (cfg_timeout cfg)) * 1000,
      maxRetries = cfg_retries cfg, fileBuffer = [], writePath = [], writeChunks = [], totalSize = 0,
      bytes = 0, blockNumber = 0, finalBlock = 0, expectOackAck = False, lastSent = None, retries = 0,
      timer = False, pendings = [], flushes = [], closed = False\<rparr>"

datatype transfer_status = TRANSFERRING | COMPLETED | ERROR

record update_patch =
  u_status :: "transfer_status option"
  u_bytes :: "int option"
  u_blocks :: "nat option"
  u_totalSize :: "int option"

definition no_patch :: update_patch where
  "no_patch = \<lparr>u_status = None, u_bytes = None, u_blocks = None, u_totalSize = None\<rparr>"

datatype tftp_out =
    SendTo buffer nat string
  | Update update_patch
  | ReadFile "string list"
  | WriteFile "string list" buffer
  | OnClose

type_synonym stepped = "tftp_session \<times> tftp_out list"

definition cleanup :: "tftp_session \<Rightarrow> stepped" where
  "cleanup s =
     (s\<lparr>closed := True, timer := False, sock := False, fileBuffer := [], writeChunks := []\<rparr>, [OnClose])"

definition complete :: "tftp_session \<Rightarrow> stepped" where
  "complete s =
     (if closed s then (s, [])
      else let (s', outs) = cleanup s
           in (s', Update (no_patch\<lparr>u_status := Some COMPLETED, u_bytes := Some (totalSize s)\<rparr>) # outs))"

definition fail_session :: "tftp_session \<Rightarrow> stepped" where
  "fail_session s =
     (if closed s then (s, [])
      else let (s', outs) = cleanup s in (s', Update (no_patch\<lparr>u_status := Some ERROR\<rparr>) # outs))"

definition to_client :: "tftp_session \<Rightarrow> buffer \<Rightarrow> tftp_out" where
  "to_client s b = SendTo b (clientPort s) (clientAddress s)"

definition sendPacket :: "buffer \<Rightarrow> tftp_session \<Rightarrow> stepped" where
  "sendPacket b s =
     (if closed s \<or> \<not> sock s then (s, []) else (s\<lparr>lastSent := Some b, timer := True\<rparr>, [to_client s b]))"

definition sendError :: "nat \<Rightarrow> utf16 \<Rightarrow> tftp_session \<Rightarrow> stepped" where
  "sendError code message s =
     (if sock s \<and> \<not> closed s
      then (s\<lparr>pendings := pendings s @ [ThenFail]\<rparr>, [to_client s (buildError code message)])
      else fail_session s)"

section \<open>Option negotiation\<close>

definition finite_number :: "int option \<Rightarrow> int option" where
  "finite_number x = (case x of None \<Rightarrow> None | Some n \<Rightarrow> if abs n < 2 ^ 1024 - 2 ^ 970 then Some n else None)"

definition int_text :: "int \<Rightarrow> string" where
  "int_text n = (if n < 0 then CHR ''-'' # dec (nat (- n)) else dec (nat n))"

text \<open>The size argument: null, or the value of \<open>parseInt\<close>, which may be \<open>NaN\<close>.\<close>

datatype size_arg = NullSize | NaNSize | Size int

definition negotiateOptions ::
  "(string \<rightharpoonup> string) \<Rightarrow> size_arg \<Rightarrow> tftp_session \<Rightarrow> tftp_session \<times> (string \<times> string) list" where
  "negotiateOptions requested fileSize s =
     (let (s, acc) =
        (case requested ''blksize'' of
           None \<Rightarrow> (s, [])
         | Some v \<Rightarrow>
             (case finite_number (parseInt10 v) of
                None \<Rightarrow> (s, [])
              | Some n \<Rightarrow> let b = max (int BLOCK_MIN) (min (int BLOCK_MAX) n)
                          in (s\<lparr>blockSize := nat b\<rparr>, [(''blksize'', int_text b)])));
          (s, acc) =
        (case requested ''timeout'' of
           None \<Rightarrow> (s, acc)
         | Some v \<Rightarrow>
             (case finite_number (parseInt10 v) of
                None \<Rightarrow> (s, acc)
              | Some t \<Rightarrow> if 1 \<le> t \<and> t \<le> 255
                          then (s\<lparr>timeoutMs := t * 1000\<rparr>, acc @ [(''timeout'', int_text t)]) else (s, acc)))
      in (case requested ''tsize'' of
            None \<Rightarrow> (s, acc)
          | Some v \<Rightarrow>
              (s, acc @ [(''tsize'', case fileSize of NullSize \<Rightarrow> v | NaNSize \<Rightarrow> ''NaN'' | Size n \<Rightarrow> int_text n)])))"

section \<open>Reading\<close>

text \<open>The texts of the error packets: reading forbidden, writing forbidden, illegal path, file
  not found, file not readable, write failed.\<close>

definition MSG_NO_READ :: utf16 where "MSG_NO_READ = [0x670D, 0x52A1, 0x5668, 0x7981, 0x6B62, 0x8BFB, 0x53D6]"
definition MSG_NO_WRITE :: utf16 where "MSG_NO_WRITE = [0x670D, 0x52A1, 0x5668, 0x7981, 0x6B62, 0x5199, 0x5165]"
definition MSG_BAD_PATH :: utf16 where "MSG_BAD_PATH = [0x975E, 0x6CD5, 0x7684, 0x6587, 0x4EF6, 0x8DEF, 0x5F84]"
definition MSG_NO_FILE :: utf16 where "MSG_NO_FILE = [0x6587, 0x4EF6, 0x4E0D, 0x5B58, 0x5728]"
definition MSG_UNREADABLE :: utf16 where "MSG_UNREADABLE = [0x6587, 0x4EF6, 0x4E0D, 0x53EF, 0x8BFB]"
definition MSG_WRITE_FAILED :: utf16 where "MSG_WRITE_FAILED = [0x5199, 0x5165, 0x6587, 0x4EF6, 0x5931, 0x8D25]"

datatype io_error = ENOENT | ENOSPC | OtherIo

definition beginRead :: "string option \<Rightarrow> tftp_session \<Rightarrow> stepped" where
  "beginRead fname s =
     (if \<not> allowRead (tcfg s) then sendError ACCESS_VIOLATION MSG_NO_READ s
      else
        (case resolveSafePath (rootDir (tcfg s)) fname of
           None \<Rightarrow> sendError ACCESS_VIOLATION MSG_BAD_PATH s
         | Some fullPath \<Rightarrow> (s, [ReadFile fullPath])))"

definition sendDataBlock :: "nat \<Rightarrow> tftp_session \<Rightarrow> stepped" where
  "sendDataBlock block s =
     (let offset = (block - 1) * blockSize s;
          end_off = min (offset + blockSize s) (nat (totalSize s));
          chunk = subarray (fileBuffer s) offset end_off
      in sendPacket (buildData block chunk) (s\<lparr>blockNumber := block\<rparr>))"

text \<open>The callback of \<open>fs.readFile\<close>.\<close>

definition on_read_file :: "(string \<rightharpoonup> string) \<Rightarrow> io_error + buffer \<Rightarrow> tftp_session \<Rightarrow> stepped" where
  "on_read_file options res s =
     (if closed s then (s, [])
      else
        (case res of
           Inl e \<Rightarrow>
             (if e = ENOENT then sendError FILE_NOT_FOUND MSG_NO_FILE s
              else sendError ACCESS_VIOLATION MSG_UNREADABLE s)
         | Inr data \<Rightarrow>
             (let s1 = s\<lparr>fileBuffer := data, totalSize := int (length data)\<rparr>;
                  up = Update (no_patch\<lparr>u_totalSize := Some (int (length data))\<rparr>);
                  (s2, accepted) = negotiateOptions options (Size (int (length data))) s1;
                  s3 = s2\<lparr>finalBlock := length data div blockSize s2 + 1\<rparr>;
                  (s4, outs) = (if 0 < length accepted
                                then sendPacket (buildOack accepted) (s3\<lparr>expectOackAck := True\<rparr>)
                                else sendDataBlock 1 s3)
              in (s4, up # outs))))"

section \<open>Writing\<close>

definition declared_size :: "(string \<rightharpoonup> string) \<Rightarrow> size_arg" where
  "declared_size options =
     (case options ''tsize'' of
        None \<Rightarrow> NullSize
      | Some v \<Rightarrow> (case finite_number (parseInt10 v) of None \<Rightarrow> NaNSize | Some n \<Rightarrow> Size n))"

definition beginWrite :: "string option \<Rightarrow> (string \<rightharpoonup> string) \<Rightarrow> tftp_session \<Rightarrow> stepped" where
  "beginWrite fname options s =
     (if \<not> allowWrite (tcfg s) then sendError ACCESS_VIOLATION MSG_NO_WRITE s
      else
        (case resolveSafePath (rootDir (tcfg s)) fname of
           None \<Rightarrow> sendError ACCESS_VIOLATION MSG_BAD_PATH s
         | Some fullPath \<Rightarrow>
             (let s1 = s\<lparr>writePath := fullPath, writeChunks := [], bytes := 0, blockNumber := 0\<rparr>;
                  (s2, ups) = (case declared_size options of
                                 Size n \<Rightarrow> (s1\<lparr>totalSize := n\<rparr>, [Update (no_patch\<lparr>u_totalSize := Some n\<rparr>)])
                               | _ \<Rightarrow> (s1, []));
                  (s3, accepted) = negotiateOptions options (declared_size options) s2;
                  (s4, outs) = sendPacket (if 0 < length accepted then buildOack accepted else buildAck 0) s3
              in (s4, ups @ outs))))"

section \<open>Messages\<close>

definition handleReadAck :: "buffer \<Rightarrow> nat \<Rightarrow> tftp_session \<Rightarrow> stepped" where
  "handleReadAck msg opcode s =
     (if opcode \<noteq> TFTP_ACK \<or> length msg < 4 then (s, [])
      else
        (let acked = be16 msg 2
         in if expectOackAck s
            then (if acked = 0 then sendDataBlock 1 (s\<lparr>expectOackAck := False, timer := False\<rparr>) else (s, []))
            else if acked \<noteq> blockNumber s then (s, [])
            else
              let s1 = s\<lparr>timer := False, retries := 0, bytes := min (int (acked * blockSize s)) (totalSize s)\<rparr>
              in if acked \<ge> finalBlock s1 then complete s1
                 else let (s2, outs) = sendDataBlock (acked + 1) s1
                      in (s2, Update (no_patch\<lparr>u_bytes := Some (bytes s1), u_blocks := Some acked\<rparr>) # outs)))"

definition flushWriteFile :: "nat \<Rightarrow> tftp_session \<Rightarrow> stepped" where
  "flushWriteFile lastBlock s =
     (let content = concat (writeChunks s)
      in (s\<lparr>flushes := flushes s @ [(lastBlock, content)]\<rparr>, [WriteFile (writePath s) content]))"

definition handleWriteData :: "buffer \<Rightarrow> nat \<Rightarrow> tftp_session \<Rightarrow> stepped" where
  "handleWriteData msg opcode s =
     (if opcode \<noteq> DATA \<or> length msg < 4 then (s, [])
      else
        (let block = be16 msg 2;
             data = drop 4 msg;
             expected = (blockNumber s + 1) mod 65536
         in if block = expected
            then let s1 = s\<lparr>writeChunks := writeChunks s @ [data], bytes := bytes s + int (length data),
                            blockNumber := block, timer := False, retries := 0\<rparr>
                 in if length data < blockSize s1 then flushWriteFile block s1
                    else let (s2, outs) = sendPacket (buildAck block) s1
                         in (s2, outs @ [Update (no_patch\<lparr>u_bytes := Some (bytes s1), u_blocks := Some block\<rparr>)])
            else if block = blockNumber s then (s, [to_client s (buildAck block)])
            else (s, [])))"

text \<open>The callback of \<open>fs.writeFile\<close>; \<open>flushes\<close> holds what the pending calls close over.\<close>

definition on_write_file :: "io_error option \<Rightarrow> tftp_session \<Rightarrow> stepped" where
  "on_write_file err s =
     (case flushes s of
        [] \<Rightarrow> (s, [])
      | (lastBlock, content) # rest \<Rightarrow>
          (let s = s\<lparr>flushes := rest\<rparr>
           in if closed s then (s, [])
              else
                (case err of
                   Some e \<Rightarrow> sendError (if e = ENOSPC then DISK_FULL else ACCESS_VIOLATION) MSG_WRITE_FAILED s
                 | None \<Rightarrow>
                     let s1 = s\<lparr>totalSize := int (length content)\<rparr>
                     in if sock s1
                        then (s1\<lparr>pendings := pendings s1 @ [ThenComplete]\<rparr>, [to_client s1 (buildAck lastBlock)])
                        else complete s1)))"

definition onSocketMessage :: "buffer \<Rightarrow> string \<Rightarrow> nat \<Rightarrow> tftp_session \<Rightarrow> stepped" where
  "onSocketMessage msg addr prt s =
     (if closed s then (s, [])
      else if addr \<noteq> clientAddress s \<or> prt \<noteq> clientPort s
      then (s, [SendTo (buildError UNKNOWN_TID (latin ''Unknown transfer ID'')) prt addr])
      else if length msg < 2 then (s, [])
      else
        (let opcode = be16 msg 0
         in if opcode = TFTP_ERROR then fail_session s
            else (case ttype s of
                    Some ReadT \<Rightarrow> handleReadAck msg opcode s
                  | Some WriteT \<Rightarrow> handleWriteData msg opcode s
                  | None \<Rightarrow> (s, []))))"

definition onTimeout :: "tftp_session \<Rightarrow> stepped" where
  "onTimeout s =
     (if closed s then (s, [])
      else if retries s \<ge> maxRetries s then fail_session s
      else (s\<lparr>retries := retries s + 1, timer := True\<rparr>,
            case lastSent s of Some b \<Rightarrow> if sock s then [to_client s b] else [] | None \<Rightarrow> []))"

definition on_sent :: "tftp_session \<Rightarrow> stepped" where
  "on_sent s =
     (case pendings s of
        [] \<Rightarrow> (s, [])
      | ThenFail # rest \<Rightarrow> fail_session (s\<lparr>pendings := rest\<rparr>)
      | ThenComplete # rest \<Rightarrow> complete (s\<lparr>pendings := rest\<rparr>))"

text \<open>\<open>start\<close>, and its callback once the socket is bound.\<close>

definition start :: "nat \<Rightarrow> buffer \<Rightarrow> string \<Rightarrow> nat \<Rightarrow> tftp_session \<Rightarrow> stepped" where
  "start opcode req addr prt s =
     (let r = parseRequest req
      in (s\<lparr>clientAddress := addr, clientPort := prt, filename := r_filename r, mode := r_mode r, sock := True\<rparr>,
          [Update (no_patch\<lparr>u_status := Some TRANSFERRING\<rparr>)]))"

definition on_bound_session :: "nat \<Rightarrow> buffer \<Rightarrow> tftp_session \<Rightarrow> stepped" where
  "on_bound_session opcode req s =
     (let r = parseRequest req
      in if opcode = RRQ then beginRead (r_filename r) (s\<lparr>ttype := Some ReadT\<rparr>)
         else beginWrite (r_filename r) (r_options r) (s\<lparr>ttype := Some WriteT\<rparr>))"

datatype tftp_event =
    Bound nat buffer
  | Datagram buffer string nat
  | FileRead "string \<rightharpoonup> string" "io_error + buffer"
  | FileWritten "io_error option"
  | Sent
  | TimerFired
  | SocketError

fun session_step :: "tftp_event \<Rightarrow> tftp_session \<Rightarrow> stepped" where
  "session_step (Bound opcode req) s = on_bound_session opcode req s"
| "session_step (Datagram msg addr prt) s = (if sock s then onSocketMessage msg addr prt s else (s, []))"
| "session_step (FileRead options res) s = on_read_file options res s"
| "session_step (FileWritten err) s = on_write_file err s"
| "session_step Sent s = on_sent s"
| "session_step TimerFired s = (if timer s then onTimeout (s\<lparr>timer := False\<rparr>) else (s, []))"
| "session_step SocketError s = fail_session s"

fun session_run :: "tftp_event list \<Rightarrow> tftp_session \<Rightarrow> stepped" where
  "session_run [] s = (s, [])"
| "session_run (ev # evs) s =
     (let (s1, outs) = session_step ev s; (s2, outs') = session_run evs s1 in (s2, outs @ outs'))"

section \<open>Lemmas on paths\<close>

lemma join_dots: "starts_with_dots (join ''/'' (replicate (Suc n) ''..'' @ zs))"
  by (cases "replicate n ''..'' @ zs") (simp_all add: starts_with_dots_def)

lemma safe_path:
  assumes "\<forall>p\<in>set root. good_seg p" "resolveSafePath root fname = Some target"
  shows "\<exists>rest. target = root @ rest \<and> rest \<noteq> [] \<and> (\<forall>p\<in>set rest. good_seg p)"
proof -
  define name where "name = (case fname of None \<Rightarrow> ''undefined'' | Some f \<Rightarrow> f)"
  have target: "target = path_resolve root (''./'' @ name)"
    and rel: "join ''/'' (path_relative root target) \<noteq> []"
      "\<not> starts_with_dots (join ''/'' (path_relative root target))"
    using assms(2) by (auto simp: resolveSafePath_def Let_def name_def split: if_splits)
  obtain n zs where n: "path_relative root target = replicate n ''..'' @ zs" "n = 0 \<longrightarrow> target = root @ zs"
    using path_relative_split by blast
  have n0: "n = 0"
  proof (cases n)
    case (Suc m)
    then show ?thesis using join_dots [of m zs] n(1) rel(2) by simp
  qed
  then have "target = root @ zs" "zs \<noteq> []" using n rel(1) by auto
  moreover have "\<forall>p\<in>set target. good_seg p"
    unfolding target path_resolve_def using assms(1) by (intro walk_good) (auto dest: split_on_no_sep)
  ultimately show ?thesis by auto
qed

section \<open>Lemmas on downloads\<close>

definition block_of :: "nat \<Rightarrow> buffer \<Rightarrow> nat \<Rightarrow> buffer" where
  "block_of bs data k = take bs (drop ((k - 1) * bs) data)"

lemma subarray_block:
  "subarray data off (min (off + bs) (length data)) = take bs (drop off data)"
  by (simp add: subarray_def min_def)

lemma blocks_concat:
  "concat (map (block_of bs data) [1..<k + 1]) = take (k * bs) data"
proof (induction k)
  case (Suc k)
  have "take (Suc k * bs) data = take (k * bs) data @ take bs (drop (k * bs) data)"
    by (metis add.commute mult_Suc take_add)
  with Suc show ?case by (simp add: block_of_def)
qed simp

lemma sendDataBlock_eq:
  assumes "sock s" "\<not> closed s" "totalSize s = int (length (fileBuffer s))"
  shows "sendDataBlock k s =
    (s\<lparr>blockNumber := k, lastSent := Some (buildData k (block_of (blockSize s) (fileBuffer s) k)), timer := True\<rparr>,
     [to_client s (buildData k (block_of (blockSize s) (fileBuffer s) k))])"
  using assms by (simp add: sendDataBlock_def sendPacket_def Let_def subarray_block block_of_def to_client_def)

lemma buildAck_fields: "n < 65536 \<Longrightarrow> length (buildAck n) = 4 \<and> be16 (buildAck n) 0 = TFTP_ACK \<and> be16 (buildAck n) 2 = n"
  by (simp add: buildAck_def buf_simps TFTP_ACK_def)

definition ack_event :: "tftp_session \<Rightarrow> nat \<Rightarrow> tftp_event" where
  "ack_event s k = Datagram (buildAck k) (clientAddress s) (clientPort s)"

text \<open>A download in progress: block \<open>k\<close> is out and not yet acknowledged.\<close>

definition downloading :: "buffer \<Rightarrow> nat \<Rightarrow> tftp_session \<Rightarrow> bool" where
  "downloading data k s \<longleftrightarrow> sock s \<and> \<not> closed s \<and> ttype s = Some ReadT \<and> \<not> expectOackAck s \<and>
     fileBuffer s = data \<and> totalSize s = int (length data) \<and> 0 < blockSize s \<and>
     finalBlock s = length data div blockSize s + 1 \<and> blockNumber s = k"

lemma ack_advances:
  assumes "downloading data k s" "k < finalBlock s" "k < 65536"
  shows "\<exists>s' up. session_step (ack_event s k) s =
      (s', [Update up, to_client s (buildData (k + 1) (block_of (blockSize s) data (k + 1)))]) \<and>
    downloading data (k + 1) s' \<and> blockSize s' = blockSize s \<and> clientAddress s' = clientAddress s \<and>
    clientPort s' = clientPort s \<and> finalBlock s' = finalBlock s"
  using assms buildAck_fields [OF assms(3)]
  by (simp add: ack_event_def onSocketMessage_def handleReadAck_def downloading_def sendDataBlock_eq Let_def
      TFTP_ACK_def TFTP_ERROR_def to_client_def)

lemma ack_final:
  assumes "downloading data k s" "k = finalBlock s" "k < 65536"
  shows "\<exists>s'. session_step (ack_event s k) s =
      (s', [Update (no_patch\<lparr>u_status := Some COMPLETED, u_bytes := Some (int (length data))\<rparr>), OnClose]) \<and> closed s'"
  using assms buildAck_fields [OF assms(3)]
  by (simp add: ack_event_def onSocketMessage_def handleReadAck_def downloading_def complete_def cleanup_def Let_def
      TFTP_ACK_def TFTP_ERROR_def)

text \<open>The payloads of the DATA packets among the effects.\<close>

fun payloads :: "tftp_out list \<Rightarrow> buffer list" where
  "payloads [] = []"
| "payloads (SendTo b p a # outs) = (if be16 b 0 = DATA then drop 4 b # payloads outs else payloads outs)"
| "payloads (_ # outs) = payloads outs"

lemma payloads_append [simp]: "payloads (a @ b) = payloads a @ payloads b"
  by (induction a rule: payloads.induct) auto

lemma payload_data [simp]: "payloads (to_client s (buildData k d) # outs) = d # payloads outs"
  by (simp add: to_client_def buildData_def buf_simps DATA_def)

lemma download_run:
  assumes "downloading data k s" "k \<le> finalBlock s" "finalBlock s < 65536"
  shows "\<exists>s' outs. session_run (map (ack_event s) [k..<finalBlock s + 1]) s = (s', outs) \<and> closed s' \<and>
    payloads outs = map (block_of (blockSize s) data) [k + 1..<finalBlock s + 1] \<and>
    Update (no_patch\<lparr>u_status := Some COMPLETED, u_bytes := Some (int (length data))\<rparr>) \<in> set outs"
  using assms
proof (induction "finalBlock s - k" arbitrary: k s)
  case 0
  then have k: "k = finalBlock s" by simp
  then obtain s' where "session_step (ack_event s k) s =
      (s', [Update (no_patch\<lparr>u_status := Some COMPLETED, u_bytes := Some (int (length data))\<rparr>), OnClose])" "closed s'"
    using ack_final [of data k s] 0 by auto
  then show ?case using k by simp
next
  case (Suc n)
  then have k: "k < finalBlock s" "k < 65536" by auto
  obtain s1 up where s1: "session_step (ack_event s k) s =
      (s1, [Update up, to_client s (buildData (k + 1) (block_of (blockSize s) data (k + 1)))])"
    "downloading data (k + 1) s1" "blockSize s1 = blockSize s" "clientAddress s1 = clientAddress s"
    "clientPort s1 = clientPort s" "finalBlock s1 = finalBlock s"
    using ack_advances [OF Suc.prems(1) k] by blast
  have ev: "ack_event s = ack_event s1" using s1 by (auto simp: ack_event_def)
  have "n = finalBlock s1 - (k + 1)" using Suc.hyps(2) s1(6) by simp
  then obtain s' outs where r: "session_run (map (ack_event s1) [k + 1..<finalBlock s1 + 1]) s1 = (s', outs)" "closed s'"
    "payloads outs = map (block_of (blockSize s1) data) [k + 1 + 1..<finalBlock s1 + 1]"
    "Update (no_patch\<lparr>u_status := Some COMPLETED, u_bytes := Some (int (length data))\<rparr>) \<in> set outs"
    using Suc.hyps(1) [of s1 "k + 1"] s1 Suc.prems k by auto
  have lists: "[k..<finalBlock s + 1] = k # [k + 1..<finalBlock s + 1]"
    "[k + 1..<finalBlock s + 1] = (k + 1) # [k + 1 + 1..<finalBlock s + 1]"
    using k(1) by (simp_all add: upt_conv_Cons del: upt_Suc)
  have "session_run (map (ack_event s) [k..<finalBlock s + 1]) s =
      (s', [Update up, to_client s (buildData (k + 1) (block_of (blockSize s) data (k + 1)))] @ outs)"
    unfolding lists(1) list.map session_run.simps s1(1) using r(1) ev s1(6) by (simp del: upt_Suc)
  moreover have "payloads ([Update up, to_client s (buildData (k + 1) (block_of (blockSize s) data (k + 1)))] @ outs) =
      map (block_of (blockSize s) data) [k + 1..<finalBlock s + 1]"
    unfolding lists(2) using r(3) s1(3,6) payload_data by (simp del: upt_Suc)
  ultimately show ?case using r(2,4) by auto
qed

section \<open>Lemmas on uploads\<close>

definition data_event :: "tftp_session \<Rightarrow> nat \<Rightarrow> buffer \<Rightarrow> tftp_event" where
  "data_event s k d = Datagram (buildData k d) (clientAddress s) (clientPort s)"

definition uploading :: "nat \<Rightarrow> buffer list \<Rightarrow> tftp_session \<Rightarrow> bool" where
  "uploading n ds s \<longleftrightarrow> sock s \<and> \<not> closed s \<and> ttype s = Some WriteT \<and> writeChunks s = ds \<and>
     blockNumber s = n mod 65536"

lemma buildData_fields:
  "4 \<le> length (buildData k d) \<and> be16 (buildData k d) 0 = DATA \<and> be16 (buildData k d) 2 = k mod 65536 \<and>
   drop 4 (buildData k d) = d"
  by (simp add: buildData_def buf_simps DATA_def)

lemma data_received:
  assumes "uploading n ds s"
  shows "session_step (data_event s (n + 1) d) s =
    (let s1 = s\<lparr>writeChunks := ds @ [d], bytes := bytes s + int (length d), blockNumber := (n + 1) mod 65536,
                timer := False, retries := 0\<rparr>
     in if length d < blockSize s then flushWriteFile ((n + 1) mod 65536) s1
        else (s1\<lparr>lastSent := Some (buildAck ((n + 1) mod 65536)), timer := True\<rparr>,
              [to_client s (buildAck (n + 1)),
               Update (no_patch\<lparr>u_bytes := Some (bytes s + int (length d)), u_blocks := Some ((n + 1) mod 65536)\<rparr>)]))"
proof -
  have e: "(n mod 65536 + 1) mod 65536 = (n + 1) mod 65536" by (simp add: mod_Suc_eq)
  have "onSocketMessage (buildData (n + 1) d) (clientAddress s) (clientPort s) s =
      handleWriteData (buildData (n + 1) d) DATA s"
    using assms buildData_fields [of "n + 1" d]
    by (simp add: onSocketMessage_def uploading_def Let_def DATA_def TFTP_ERROR_def)
  also have "\<dots> = (let s1 = s\<lparr>writeChunks := ds @ [d], bytes := bytes s + int (length d),
        blockNumber := (n + 1) mod 65536, timer := False, retries := 0\<rparr>
     in if length d < blockSize s then flushWriteFile ((n + 1) mod 65536) s1
        else (s1\<lparr>lastSent := Some (buildAck ((n + 1) mod 65536)), timer := True\<rparr>,
              [to_client s (buildAck (n + 1)),
               Update (no_patch\<lparr>u_bytes := Some (bytes s + int (length d)), u_blocks := Some ((n + 1) mod 65536)\<rparr>)]))"
    using assms buildData_fields [of "n + 1" d] e
    by (simp add: handleWriteData_def uploading_def Let_def sendPacket_def to_client_def buildAck_def)
  finally show ?thesis using assms by (simp add: data_event_def uploading_def)
qed

lemma data_full:
  assumes "uploading n ds s" "length d = blockSize s"
  shows "\<exists>s' up. session_step (data_event s (n + 1) d) s = (s', [to_client s (buildAck (n + 1)), Update up]) \<and>
    uploading (n + 1) (ds @ [d]) s' \<and> blockSize s' = blockSize s \<and> writePath s' = writePath s \<and>
    clientAddress s' = clientAddress s \<and> clientPort s' = clientPort s \<and> flushes s' = flushes s"
  using assms data_received [OF assms(1), of d] by (simp add: uploading_def Let_def)

lemma data_last:
  assumes "uploading n ds s" "length d < blockSize s"
  shows "\<exists>s'. session_step (data_event s (n + 1) d) s = (s', [WriteFile (writePath s) (concat (ds @ [d]))]) \<and>
    uploading (n + 1) (ds @ [d]) s' \<and> clientAddress s' = clientAddress s \<and> clientPort s' = clientPort s \<and>
    flushes s' = flushes s @ [((n + 1) mod 65536, concat (ds @ [d]))]"
  using assms data_received [OF assms(1), of d] by (simp add: uploading_def Let_def flushWriteFile_def)

lemma data_duplicate:
  assumes "uploading n ds s"
  shows "session_step (data_event s n d) s = (s, [to_client s (buildAck n)])"
proof -
  have "n mod 65536 \<noteq> (n mod 65536 + 1) mod 65536" by (auto simp: mod_Suc)
  then show ?thesis
    using assms buildData_fields [of n d]
    by (simp add: data_event_def onSocketMessage_def uploading_def handleWriteData_def Let_def DATA_def TFTP_ERROR_def
        to_client_def buildAck_def)
qed

definition data_events :: "tftp_session \<Rightarrow> nat \<Rightarrow> buffer list \<Rightarrow> tftp_event list" where
  "data_events s n ds = map (\<lambda>(k, d). data_event s k d) (enumerate (n + 1) ds)"

lemma upload_run:
  assumes "uploading n cs s" "\<forall>d\<in>set ds. length d = blockSize s" "length d < blockSize s"
  shows "\<exists>s' outs. session_run (data_events s n (ds @ [d])) s =
      (s', outs @ [WriteFile (writePath s) (concat (cs @ ds @ [d]))]) \<and>
    uploading (n + length ds + 1) (cs @ ds @ [d]) s' \<and>
    flushes s' = flushes s @ [((n + length ds + 1) mod 65536, concat (cs @ ds @ [d]))] \<and>
    (\<forall>path c. WriteFile path c \<notin> set outs)"
  using assms
proof (induction ds arbitrary: n cs s)
  case Nil
  then show ?case using data_last [of n cs s d] by (auto simp: data_events_def)
next
  case (Cons e ds)
  obtain s1 up where s1: "session_step (data_event s (n + 1) e) s = (s1, [to_client s (buildAck (n + 1)), Update up])"
    "uploading (n + 1) (cs @ [e]) s1" "blockSize s1 = blockSize s" "writePath s1 = writePath s"
    "clientAddress s1 = clientAddress s" "clientPort s1 = clientPort s" "flushes s1 = flushes s"
    using data_full [OF Cons.prems(1), of e] Cons.prems(2) by auto
  have ev: "data_events s n (e # ds @ [d]) = data_event s (n + 1) e # data_events s1 (n + 1) (ds @ [d])"
    using s1(5,6) by (simp add: data_events_def data_event_def)
  obtain s' outs where r: "session_run (data_events s1 (n + 1) (ds @ [d])) s1 =
      (s', outs @ [WriteFile (writePath s1) (concat ((cs @ [e]) @ ds @ [d]))])"
    "uploading (n + 1 + length ds + 1) ((cs @ [e]) @ ds @ [d]) s'"
    "flushes s' = flushes s1 @ [((n + 1 + length ds + 1) mod 65536, concat ((cs @ [e]) @ ds @ [d]))]"
    "\<forall>path c. WriteFile path c \<notin> set outs"
    using Cons.IH [OF s1(2)] Cons.prems(2,3) s1(3) by auto
  show ?case
    using r s1 ev by (intro exI [of _ s'] exI [of _ "[to_client s (buildAck (n + 1)), Update up] @ outs"])
      (simp add: to_client_def)
qed

lemma timeouts_close:
  assumes "timer s" "\<not> closed s" "n = maxRetries s - retries s"
  shows "\<exists>s' outs. session_run (replicate (n + 1) TimerFired) s = (s', outs) \<and> closed s' \<and>
    Update (no_patch\<lparr>u_status := Some ERROR\<rparr>) \<in> set outs \<and>
    length (filter (\<lambda>x. case x of SendTo b p a \<Rightarrow> True | _ \<Rightarrow> False) outs) \<le> n"
  using assms
proof (induction n arbitrary: s)
  case 0
  then show ?case by (simp add: onTimeout_def fail_session_def cleanup_def)
next
  case (Suc n)
  define s1 where "s1 = s\<lparr>retries := retries s + 1, timer := True\<rparr>"
  define o1 where "o1 = (case lastSent s of None \<Rightarrow> [] | Some b \<Rightarrow> if sock s then [to_client s b] else [])"
  have "\<not> maxRetries s \<le> retries s" using Suc.prems(3) by simp
  then have o1: "session_step TimerFired s = (s1, o1)"
    "length (filter (\<lambda>x. case x of SendTo b p a \<Rightarrow> True | _ \<Rightarrow> False) o1) \<le> 1"
    using Suc.prems by (simp_all add: onTimeout_def s1_def o1_def to_client_def split: option.splits)
  have p: "timer s1" "\<not> closed s1" "n = maxRetries s1 - retries s1" using Suc.prems by (simp_all add: s1_def)
  obtain s' outs where r: "session_run (replicate (n + 1) TimerFired) s1 = (s', outs)" "closed s'"
    "Update (no_patch\<lparr>u_status := Some ERROR\<rparr>) \<in> set outs"
    "length (filter (\<lambda>x. case x of SendTo b p a \<Rightarrow> True | _ \<Rightarrow> False) outs) \<le> n"
    using Suc.IH [OF p] by blast
  have "session_run (replicate (Suc n + 1) TimerFired) s = (s', o1 @ outs)"
    using o1(1) r(1) by simp
  with o1 r show ?case by auto
qed

section \<open>A small session for concrete runs\<close>

definition demo_tftp :: "transfer_type \<Rightarrow> tftp_session" where
  "demo_tftp t = (new_TftpSession \<lparr>rootDir = [''srv''], cfg_timeout = 3, cfg_retries = 5, allowRead = True,
     allowWrite = True\<rparr>)\<lparr>sock := True, ttype := Some t, clientAddress := ''10.0.0.7'', clientPort := 2000\<rparr>"

lemma demo_tftp_simps [simp]:
  "sock (demo_tftp t)" "\<not> closed (demo_tftp t)" "ttype (demo_tftp t) = Some t" "\<not> expectOackAck (demo_tftp t)"
  "blockSize (demo_tftp t) = 512" "maxRetries (demo_tftp t) = 5" "retries (demo_tftp t) = 0"
  by (simp_all add: demo_tftp_def new_TftpSession_def BLOCK_DEFAULT_def)

lemma demo_uploading: "uploading 0 [] (demo_tftp WriteT)"
  by (simp add: uploading_def) (simp add: demo_tftp_def new_TftpSession_def)

section \<open>Properties of a transfer\<close>

text \<open>C13. No request leaves the root directory: when \<open>resolveSafePath\<close> accepts a file name,
  whatever bytes it has, the path is the root directory followed by at least one segment,
  and none of these is empty, a dot, a double dot or contains a slash.\<close>

theorem tftp_path_inside_root:
  assumes "\<forall>p\<in>set root. good_seg p" "resolveSafePath root fname = Some target"
  shows "\<exists>rest. target = root @ rest \<and> rest \<noteq> [] \<and>
    (\<forall>p\<in>set rest. p \<noteq> [] \<and> p \<noteq> ''.'' \<and> p \<noteq> ''..'' \<and> CHR ''/'' \<notin> set p)"
  using safe_path [OF assms] by (simp add: good_seg_def)

theorem tftp_path_inside_root_witness:
  "\<exists>rest. [''srv'', ''tftp'', ''a''] = [''srv'', ''tftp''] @ rest \<and> rest \<noteq> [] \<and>
    resolveSafePath [''srv'', ''tftp''] (Some ''../tftp/./a'') = Some [''srv'', ''tftp'', ''a'']"
proof -
  have r: "resolveSafePath [''srv'', ''tftp''] (Some ''../tftp/./a'') = Some [''srv'', ''tftp'', ''a'']"
    by (simp add: resolveSafePath_def path_resolve_def starts_with_dots_def isAbsolute_def Let_def)
  have "\<forall>p\<in>set [''srv'', ''tftp'']. good_seg p" by (simp add: good_seg_def)
  from tftp_path_inside_root [OF this r] r show ?thesis by auto
qed



text \<open>C33. A defect: the block counter is kept unbounded and compared with the 16-bit number of
  an ACK.  When a file has more than 65535 blocks, the packet after block 65535 goes out
  with number 0, and from then on no datagram of the client changes the session, except an
  ERROR packet that ends it: the download can only time out.\<close>

theorem tftp_large_download_stuck:
  assumes "downloading data 65535 s" "65535 < finalBlock s"
  shows "\<exists>s' up. session_step (ack_event s 65535) s =
      (s', [Update up, to_client s (buildData 65536 (block_of (blockSize s) data 65536))]) \<and>
    be16 (buildData 65536 (block_of (blockSize s) data 65536)) 2 = 0 \<and>
    (\<forall>msg. be16 msg 0 \<noteq> TFTP_ERROR \<longrightarrow>
       session_step (Datagram msg (clientAddress s') (clientPort s')) s' = (s', []))"
proof -
  obtain s' up where s': "session_step (ack_event s 65535) s =
      (s', [Update up, to_client s (buildData (65535 + 1) (block_of (blockSize s) data (65535 + 1)))])"
    "downloading data (65535 + 1) s'"
    using ack_advances [OF assms] by auto
  have "session_step (Datagram msg (clientAddress s') (clientPort s')) s' = (s', [])" if "be16 msg 0 \<noteq> TFTP_ERROR" for msg
  proof -
    have "be16 msg 2 \<noteq> 65536" using be16_less [of msg 2] by linarith
    with s'(2) that show ?thesis
      by (simp add: downloading_def onSocketMessage_def handleReadAck_def Let_def)
  qed
  moreover have "be16 (buildData 65536 (block_of (blockSize s) data 65536)) 2 = 0"
    using buildData_fields [of 65536] by simp
  ultimately show ?thesis using s'(1) by auto
qed

theorem tftp_large_download_stuck_witness:
  "\<exists>s s' up. session_step (ack_event s 65535) s =
      (s', [Update up, to_client s (buildData 65536 (block_of 512 (alloc 33553920) 65536))]) \<and>
    session_step (Datagram (buildAck 0) (clientAddress s') (clientPort s')) s' = (s', [])"
proof -
  define s where "s = (demo_tftp ReadT)\<lparr>fileBuffer := alloc 33553920, totalSize := 33553920, finalBlock := 65536,
    blockNumber := 65535\<rparr>"
  have "downloading (alloc 33553920) 65535 s" "65535 < finalBlock s" "blockSize s = 512"
    by (simp_all add: s_def downloading_def)
  moreover have "be16 (buildAck 0) 0 \<noteq> TFTP_ERROR"
    using buildAck_fields [of 0] by (simp add: TFTP_ACK_def TFTP_ERROR_def)
  ultimately show ?thesis using tftp_large_download_stuck [of "alloc 33553920" s] by metis
qed

text \<open>C9. An upload: a client that sends full blocks and then a shorter one, numbered from the
  next expected number with wrap-around at 65536, makes the server write exactly the
  received bytes to the file, once and at the end.\<close>

theorem tftp_upload:
  assumes "uploading n [] s" "\<forall>d\<in>set ds. length d = blockSize s" "length d < blockSize s"
  shows "\<exists>s' outs. session_run (data_events s n (ds @ [d])) s =
      (s', outs @ [WriteFile (writePath s) (concat ds @ d)]) \<and>
    (\<forall>path c. WriteFile path c \<notin> set outs) \<and> \<not> closed s'"
  using upload_run [OF assms] by (auto simp: uploading_def)

theorem tftp_upload_witness:
  "\<exists>s' outs. session_run (data_events (demo_tftp WriteT) 0 [alloc 512, [1, 2]]) (demo_tftp WriteT) =
      (s', outs @ [WriteFile (writePath (demo_tftp WriteT)) (alloc 512 @ [1, 2])]) \<and> \<not> closed s'"
  using tftp_upload [OF demo_uploading, of "[alloc 512]" "[1, 2]"] by auto

text \<open>A defect: the comment of \<open>handleWriteData\<close> promises that the last ACK is sent only
  when the data is on disk, but a retransmitted last block is acknowledged at once, while
  the write is still pending and may yet fail.\<close>

theorem tftp_early_ack:
  assumes "uploading n ds s" "length d < blockSize s"
  shows "\<exists>s'. session_run [data_event s (n + 1) d, data_event s (n + 1) d] s =
      (s', [WriteFile (writePath s) (concat (ds @ [d])), to_client s (buildAck (n + 1))]) \<and>
    flushes s' = flushes s @ [((n + 1) mod 65536, concat (ds @ [d]))]"
proof -
  obtain s1 where s1: "session_step (data_event s (n + 1) d) s = (s1, [WriteFile (writePath s) (concat (ds @ [d]))])"
    "uploading (n + 1) (ds @ [d]) s1" "clientAddress s1 = clientAddress s" "clientPort s1 = clientPort s"
    "flushes s1 = flushes s @ [((n + 1) mod 65536, concat (ds @ [d]))]"
    using data_last [OF assms] by blast
  have "data_event s (n + 1) d = data_event s1 (n + 1) d" using s1(3,4) by (simp add: data_event_def)
  then have "session_step (data_event s (n + 1) d) s1 = (s1, [to_client s (buildAck (n + 1))])"
    using data_duplicate [OF s1(2), of d] s1(3,4) by (simp add: to_client_def)
  then show ?thesis using s1 by simp
qed

theorem tftp_early_ack_witness:
  "\<exists>s'. session_run [data_event (demo_tftp WriteT) 1 [7], data_event (demo_tftp WriteT) 1 [7]] (demo_tftp WriteT) =
      (s', [WriteFile (writePath (demo_tftp WriteT)) [7], to_client (demo_tftp WriteT) (buildAck 1)])"
  using tftp_early_ack [OF demo_uploading, of "[7]"] by auto

text \<open>A silent peer does not hold a session: when nothing arrives, the retransmission timer
  fires at most \<open>maxRetries - retries + 1\<close> times, resends at most that many packets less
  one, and then closes the session with an error.\<close>

theorem tftp_timeouts_close:
  assumes "timer s" "\<not> closed s"
  shows "\<exists>s' outs. session_run (replicate (maxRetries s - retries s + 1) TimerFired) s = (s', outs) \<and> closed s' \<and>
    Update (no_patch\<lparr>u_status := Some ERROR\<rparr>) \<in> set outs \<and>
    length (filter (\<lambda>x. case x of SendTo b p a \<Rightarrow> True | _ \<Rightarrow> False) outs) \<le> maxRetries s - retries s"
  using timeouts_close [OF assms refl] .

theorem tftp_timeouts_close_witness:
  "\<exists>s' outs. session_run (replicate 6 TimerFired) ((demo_tftp WriteT)\<lparr>timer := True\<rparr>) = (s', outs) \<and> closed s'"
  using tftp_timeouts_close [of "(demo_tftp WriteT)\<lparr>timer := True\<rparr>"] by auto

end
