(* ===== verification/Tftp_Worker.thy ===== *)
theory Tftp_Worker
  imports Tftp_Session
begin

text \<open>
  The TFTP server: \<^verbatim>\<open>electron/worker/transfer/tftpWorker.js\<close>.  It checks the
  configuration, opens a session for every request on the listening socket and keeps the
  log of the transfers.  A log record is shared by the list and the map of the worker; the
  model keeps the records in the map and the list holds their ids.  Sessions are kept
  under their transfer id.
\<close>

section \<open>Configuration\<close>

text \<open>The numeric settings after \<open>Number(...)\<close>; \<open>None\<close> is a value that is not an integer.
  The directory check of the file system is an argument.\<close>

record raw_config =
  raw_port :: "int option"
  raw_blockSize :: "int option"
  raw_timeout :: "int option"
  raw_retries :: "int option"
  raw_rootDir :: string

datatype dir_check = NoSuchDir | NotADir | IsDir

datatype config_error =
    BadPort | BadBlockSize | BadTimeout | BadRetries | NoRootDir | MissingDir | NotDirectory

definition int_between :: "int option \<Rightarrow> int \<Rightarrow> int \<Rightarrow> bool" where
  "int_between x lo hi = (case x of None \<Rightarrow> False | Some n \<Rightarrow> lo \<le> n \<and> n \<le> hi)"

definition validateConfig :: "(string \<Rightarrow> dir_check) \<Rightarrow> raw_config \<Rightarrow> config_error + unit" where
  "validateConfig stat cfg =
     (if \<not> int_between (raw_port cfg) 1 65535 then Inl BadPort
      else if \<not> int_between (raw_blockSize cfg) (int BLOCK_MIN) (int BLOCK_MAX) then Inl BadBlockSize
      else if \<not> int_between (raw_timeout cfg) 1 255 then Inl BadTimeout
      else if \<not> int_between (raw_retries cfg) 0 20 then Inl BadRetries
      else if raw_rootDir cfg = [] then Inl NoRootDir
      else (case stat (raw_rootDir cfg) of
              NoSuchDir \<Rightarrow> Inl MissingDir
            | NotADir \<Rightarrow> Inl NotDirectory
            | IsDir \<Rightarrow> Inr ()))"

section \<open>The worker\<close>

record transfer_record =
  x_id :: nat
  x_bytes :: int
  x_totalSize :: int
  x_blocks :: nat
  x_status :: transfer_status

record tftp_worker =
  w_running :: bool
  w_config :: "tftp_config option"
  sessions :: "(nat \<times> tftp_session) list"
  transferHistory :: "nat list"
  transferMap :: "nat \<rightharpoonup> transfer_record"
  transferCounter :: nat
  historyLimit :: nat

definition new_TftpWorker :: tftp_worker where
  "new_TftpWorker = \<lparr>w_running = False, w_config = None, sessions = [], transferHistory = [],
     transferMap = Map.empty, transferCounter = 0, historyLimit = 200\<rparr>"

text \<open>\<open>Object.assign(record, patch)\<close>; the fields that only repeat the session are left out.\<close>

definition assign_patch :: "update_patch \<Rightarrow> transfer_record \<Rightarrow> transfer_record" where
  "assign_patch p r =
     r\<lparr>x_bytes := (case u_bytes p of None \<Rightarrow> x_bytes r | Some n \<Rightarrow> n),
       x_totalSize := (case u_totalSize p of None \<Rightarrow> x_totalSize r | Some n \<Rightarrow> n),
       x_blocks := (case u_blocks p of None \<Rightarrow> x_blocks r | Some n \<Rightarrow> n),
       x_status := (case u_status p of None \<Rightarrow> x_status r | Some st \<Rightarrow> st)\<rparr>"

definition new_record :: "nat \<Rightarrow> transfer_record" where
  "new_record i = \<lparr>x_id = i, x_bytes = 0, x_totalSize = 0, x_blocks = 0, x_status = TRANSFERRING\<rparr>"

text \<open>Creating a record may push the oldest one out of the list and the map; the record
  itself is patched in any case.\<close>

definition recordTransfer :: "nat \<Rightarrow> update_patch \<Rightarrow> tftp_worker \<Rightarrow> tftp_worker" where
  "recordTransfer i patch w =
     (case transferMap w i of
        Some r \<Rightarrow> w\<lparr>transferMap := (transferMap w)(i \<mapsto> assign_patch patch r)\<rparr>
      | None \<Rightarrow>
          (let h = i # transferHistory w;
               m = (transferMap w)(i \<mapsto> assign_patch patch (new_record i))
           in if historyLimit w < length h
              then w\<lparr>transferHistory := butlast h, transferMap := m(last h := None)\<rparr>
              else w\<lparr>transferHistory := h, transferMap := m\<rparr>))"

fun apply_outs :: "nat \<Rightarrow> tftp_out list \<Rightarrow> tftp_worker \<Rightarrow> tftp_worker" where
  "apply_outs i [] w = w"
| "apply_outs i (Update p # outs) w = apply_outs i outs (recordTransfer i p w)"
| "apply_outs i (OnClose # outs) w = apply_outs i outs (w\<lparr>sessions := AList.delete i (sessions w)\<rparr>)"
| "apply_outs i (_ # outs) w = apply_outs i outs w"

definition handleRequest :: "buffer \<Rightarrow> string \<Rightarrow> nat \<Rightarrow> tftp_worker \<Rightarrow> tftp_worker" where
  "handleRequest msg addr prt w =
     (if length msg < 2 then w
      else
        (let opcode = be16 msg 0
         in if opcode \<noteq> RRQ \<and> opcode \<noteq> WRQ then w
            else
              (case w_config w of
                 None \<Rightarrow> w\<lparr>transferCounter := transferCounter w + 1\<rparr>
               | Some cfg \<Rightarrow>
                   (let i = transferCounter w + 1;
                        (s, outs) = start opcode msg addr prt (new_TftpSession cfg)
                    in apply_outs i outs (w\<lparr>transferCounter := i, sessions := AList.update i s (sessions w)\<rparr>)))))"

text \<open>An event of the session with the given id.\<close>

definition session_event :: "nat \<Rightarrow> tftp_event \<Rightarrow> tftp_worker \<Rightarrow> tftp_worker \<times> tftp_out list" where
  "session_event i ev w =
     (case map_of (sessions w) i of
        None \<Rightarrow> (w, [])
      | Some s \<Rightarrow>
          (let (s', outs) = session_step ev s
           in (apply_outs i outs (w\<lparr>sessions := AList.update i s' (sessions w)\<rparr>), outs)))"

definition clearTransferHistory :: "tftp_worker \<Rightarrow> tftp_worker" where
  "clearTransferHistory w = w\<lparr>transferHistory := [], transferMap := Map.empty\<rparr>"

definition getTransferList :: "tftp_worker \<Rightarrow> transfer_record list" where
  "getTransferList w = map (\<lambda>i. the (transferMap w i)) (transferHistory w)"

definition startTftp :: "(string \<Rightarrow> dir_check) \<Rightarrow> raw_config \<Rightarrow> tftp_config \<Rightarrow> tftp_worker \<Rightarrow> tftp_worker \<times> config_error option" where
  "startTftp stat raw cfg w =
     (let w1 = w\<lparr>w_config := Some cfg\<rparr>
      in case validateConfig stat raw of
           Inl e \<Rightarrow> (w1\<lparr>w_running := False\<rparr>, Some e)
         | Inr _ \<Rightarrow>
             (w1\<lparr>transferHistory := [], transferMap := Map.empty, transferCounter := 0, w_running := True\<rparr>, None))"

definition abortSessions :: "tftp_worker \<Rightarrow> tftp_worker" where
  "abortSessions w = w\<lparr>sessions := []\<rparr>"

definition stopTftp :: "tftp_worker \<Rightarrow> tftp_worker" where
  "stopTftp w =
     (abortSessions w)\<lparr>w_running := False, transferHistory := [], transferMap := Map.empty, w_config := None\<rparr>"

datatype worker_event =
    Request buffer string nat
  | SessionEvent nat tftp_event
  | ClearHistory
  | Stop

fun worker_step :: "worker_event \<Rightarrow> tftp_worker \<Rightarrow> tftp_worker" where
  "worker_step (Request msg addr prt) w = (if w_running w then handleRequest msg addr prt w else w)"
| "worker_step (SessionEvent i ev) w = fst (session_event i ev w)"
| "worker_step ClearHistory w = clearTransferHistory w"
| "worker_step Stop w = stopTftp w"

section \<open>The transfer log\<close>

definition log_ok :: "tftp_worker \<Rightarrow> bool" where
  "log_ok w \<longleftrightarrow> distinct (transferHistory w) \<and> dom (transferMap w) = set (transferHistory w) \<and>
     length (transferHistory w) \<le> historyLimit w \<and> 0 < historyLimit w \<and>
     (\<forall>i r. transferMap w i = Some r \<longrightarrow> x_id r = i)"

lemma assign_patch_id [simp]: "x_id (assign_patch p r) = x_id r" "x_id (new_record i) = i"
  by (simp_all add: assign_patch_def new_record_def)

lemma log_ok_record: "log_ok w \<Longrightarrow> log_ok (recordTransfer i p w)"
proof (cases "transferMap w i")
  case (Some r)
  assume "log_ok w"
  with Some show ?thesis by (auto simp: log_ok_def recordTransfer_def dom_def split: if_splits)
next
  case None
  assume ok: "log_ok w"
  let ?h = "i # transferHistory w"
  let ?m = "(transferMap w)(i \<mapsto> assign_patch p (new_record i))"
  have i: "i \<notin> set (transferHistory w)" using ok None by (auto simp: log_ok_def)
  then have h: "distinct ?h" "dom ?m = set ?h" using ok by (auto simp: log_ok_def)
  have ids: "\<forall>j r. ?m j = Some r \<longrightarrow> x_id r = j" using ok by (simp add: log_ok_def)
  show ?thesis
  proof (cases "historyLimit w < length ?h")
    case True
    have b: "?h = butlast ?h @ [last ?h]" by (rule append_butlast_last_id [symmetric]) simp
    then have "distinct (butlast ?h @ [last ?h])" using h(1) by simp
    then have d: "distinct (butlast ?h)" "last ?h \<notin> set (butlast ?h)" by simp_all
    have "dom (?m(last ?h := None)) = dom ?m - {last ?h}" by simp
    also have "\<dots> = set (butlast ?h @ [last ?h]) - {last ?h}"
      unfolding h(2) by (rule arg_cong [OF b])
    also have "\<dots> = set (butlast ?h)" using d(2) by auto
    finally have "dom (?m(last ?h := None)) = set (butlast ?h)" .
    moreover have "length (butlast ?h) \<le> historyLimit w" using ok by (simp add: log_ok_def)
    ultimately show ?thesis
      using d ids True None ok by (auto simp: log_ok_def recordTransfer_def Let_def)
  next
    case False
    then show ?thesis using h ids None ok by (auto simp: log_ok_def recordTransfer_def Let_def)
  qed
qed

lemma log_ok_sessions [simp]:
  "log_ok (w\<lparr>sessions := x\<rparr>) = log_ok w" "log_ok (w\<lparr>transferCounter := n\<rparr>) = log_ok w"
  by (simp_all add: log_ok_def)

lemma log_ok_outs: "log_ok w \<Longrightarrow> log_ok (apply_outs i outs w)"
  by (induction i outs w rule: apply_outs.induct) (simp_all add: log_ok_record)

lemma log_ok_step: "log_ok w \<Longrightarrow> log_ok (worker_step ev w)"
proof (cases ev)
  case (Request msg addr prt)
  assume "log_ok w"
  then show ?thesis
    using Request by (simp add: handleRequest_def Let_def case_prod_unfold log_ok_outs split: option.splits)
next
  case (SessionEvent i e)
  assume "log_ok w"
  then show ?thesis
    using SessionEvent by (simp add: session_event_def Let_def case_prod_unfold log_ok_outs split: option.splits)
qed (auto simp: log_ok_def clearTransferHistory_def stopTftp_def abortSessions_def)

lemma log_ok_run: "log_ok w \<Longrightarrow> log_ok (fold worker_step evs w)"
  by (induction evs arbitrary: w) (simp_all add: log_ok_step)

section \<open>Properties of the server\<close>

text \<open>C34. The transfer log: after any sequence of requests, session events and clear or stop
  commands, the list and the map of the worker hold the same transfers, each once, at most
  \<open>historyLimit\<close> of them, and every record is filed under its own id.\<close>

theorem tftp_log_consistent:
  assumes "startTftp stat raw cfg new_TftpWorker = (w0, None)" "w = fold worker_step evs w0"
  shows "distinct (transferHistory w) \<and> dom (transferMap w) = set (transferHistory w) \<and>
    length (transferHistory w) \<le> 200 \<and> map x_id (getTransferList w) = transferHistory w"
proof -
  have "log_ok w0"
    using assms(1) by (auto simp: startTftp_def Let_def new_TftpWorker_def log_ok_def split: sum.splits)
  then have ok: "log_ok w" unfolding assms(2) by (rule log_ok_run)
  have lim: "historyLimit (worker_step e v) = historyLimit v" for e v
  proof -
    have r: "historyLimit (recordTransfer i p v) = historyLimit v" for i p v
      by (simp add: recordTransfer_def Let_def split: option.splits)
    have o: "historyLimit (apply_outs i outs v) = historyLimit v" for i outs v
      by (induction i outs v rule: apply_outs.induct) (simp_all add: r)
    show ?thesis
      by (cases e) (auto simp: handleRequest_def session_event_def Let_def case_prod_unfold o clearTransferHistory_def
          stopTftp_def abortSessions_def split: option.splits)
  qed
  have "historyLimit w = historyLimit w0" unfolding assms(2) by (induction evs arbitrary: w0) (simp_all add: lim)
  also have "\<dots> = 200"
    using assms(1) by (auto simp: startTftp_def Let_def new_TftpWorker_def split: sum.splits)
  finally have "length (transferHistory w) \<le> 200" using ok by (simp add: log_ok_def)
  moreover have "map x_id (getTransferList w) = transferHistory w"
  proof -
    have "x_id (the (transferMap w i)) = i" if "i \<in> set (transferHistory w)" for i
    proof -
      have "i \<in> dom (transferMap w)" using that ok by (simp add: log_ok_def)
      then obtain r where "transferMap w i = Some r" by blast
      then show ?thesis using ok by (simp add: log_ok_def)
    qed
    then show ?thesis by (simp add: getTransferList_def map_idI)
  qed
  ultimately show ?thesis using ok by (simp add: log_ok_def)
qed

theorem tftp_log_consistent_witness:
  "\<exists>w0. startTftp (\<lambda>_. IsDir) \<lparr>raw_port = Some 69, raw_blockSize = Some 512, raw_timeout = Some 3,
       raw_retries = Some 5, raw_rootDir = ''/srv''\<rparr>
       \<lparr>rootDir = [''srv''], cfg_timeout = 3, cfg_retries = 5, allowRead = True, allowWrite = True\<rparr>
       new_TftpWorker = (w0, None) \<and>
     map x_id (getTransferList (fold worker_step [Request [0, 1, 97, 0] ''10.0.0.7'' 2000] w0)) =
     transferHistory (fold worker_step [Request [0, 1, 97, 0] ''10.0.0.7'' 2000] w0)"
proof -
  have "\<exists>w0. startTftp (\<lambda>_. IsDir) \<lparr>raw_port = Some 69, raw_blockSize = Some 512, raw_timeout = Some 3,
       raw_retries = Some 5, raw_rootDir = ''/srv''\<rparr>
       \<lparr>rootDir = [''srv''], cfg_timeout = 3, cfg_retries = 5, allowRead = True, allowWrite = True\<rparr>
       new_TftpWorker = (w0, None)"
    by (simp add: startTftp_def validateConfig_def int_between_def BLOCK_MIN_def BLOCK_MAX_def)
  then show ?thesis using tftp_log_consistent [OF _ refl] by blast
qed

end
