(* ===== verification/Rpki_Pdu.thy ===== *)
theory Rpki_Pdu
  imports Stream_Framing
begin

text \<open>
  The data of the RPKI-RTR cache (\<open>rpkiRoa.js\<close>, \<open>rpkiAspa.js\<close>, \<open>rpkiRouterKey.js\<close>), the
  protocol data units that \<open>rpkiSession.js\<close> builds from it, and the receive framing of
  \<open>processBufferedMessages\<close>.

  A builder returns \<open>Inl\<close> where \<open>writeUInt32BE\<close> or the address parser raises.  The
  parser \<open>ipToBytes\<close> wraps the library \<open>ipaddr.js\<close> and is an argument.  The numeric
  fields of a ROA and of an ASPA are the integers the import normalisers produce; the
  texts of the stored form are read back with \<open>Number\<close> or \<open>parseInt\<close>, which is the
  identity on them.  Lemmas: every builder's length field is the length of what it
  builds (\<open>pdu_ok\<close>), so that a stream of PDUs is cut at the right places
  (\<open>frames_of_pdus\<close>), and the fields of a prefix PDU can be read back.
\<close>

section \<open>Constants\<close>

definition RPKI_HEADER_LENGTH :: nat where "RPKI_HEADER_LENGTH = 8"
definition MAX_RPKI_PDU_BYTES :: nat where "MAX_RPKI_PDU_BYTES = 16 * 1024 * 1024"

definition SERIAL_NOTIFY :: byte where "SERIAL_NOTIFY = 0"
definition SERIAL_QUERY :: byte where "SERIAL_QUERY = 1"
definition RESET_QUERY :: byte where "RESET_QUERY = 2"
definition CACHE_RESPONSE :: byte where "CACHE_RESPONSE = 3"
definition IPV4_PREFIX :: byte where "IPV4_PREFIX = 4"
definition IPV6_PREFIX :: byte where "IPV6_PREFIX = 6"
definition END_OF_DATA :: byte where "END_OF_DATA = 7"
definition CACHE_RESET :: byte where "CACHE_RESET = 8"
definition ROUTER_KEY :: byte where "ROUTER_KEY = 9"
definition ERROR_REPORT :: byte where "ERROR_REPORT = 10"
definition ASPA :: byte where "ASPA = 11"

definition WITHDRAWAL :: byte where "WITHDRAWAL = 0"
definition UPDATE :: byte where "UPDATE = 1"

definition CORRUPT_DATA :: nat where "CORRUPT_DATA = 0"
definition INTERNAL_ERROR :: nat where "INTERNAL_ERROR = 1"
definition UNSUPPORTED_PROTOCOL_VERSION :: nat where "UNSUPPORTED_PROTOCOL_VERSION = 4"
definition UNSUPPORTED_PDU_TYPE :: nat where "UNSUPPORTED_PDU_TYPE = 5"
definition UNEXPECTED_PROTOCOL_VERSION :: nat where "UNEXPECTED_PROTOCOL_VERSION = 8"

lemmas rpki_types = SERIAL_NOTIFY_def SERIAL_QUERY_def RESET_QUERY_def CACHE_RESPONSE_def
  IPV4_PREFIX_def IPV6_PREFIX_def END_OF_DATA_def CACHE_RESET_def ROUTER_KEY_def
  ERROR_REPORT_def ASPA_def

section \<open>The data of the cache\<close>

record roa =
  roa_ipType :: nat
  roa_asn :: nat
  roa_ip :: string
  roa_mask :: nat
  roa_maxLength :: nat

record aspa =
  customerAsn :: nat
  providerAsns :: "nat list"
  afiFlags :: nat

record router_key =
  rk_ski :: string
  rk_asn :: string
  rk_spki :: string

definition parseProviderAsns :: "int option list \<Rightarrow> js_error + nat list" where
  "parseProviderAsns asns = mapE (\<lambda>v. case v of
       None \<Rightarrow> Inl JsError
     | Some n \<Rightarrow> if n < 0 \<or> n > 4294967295 then Inl JsError else Inr (nat n)) asns"

definition roa_makeKey :: "roa \<Rightarrow> string" where
  "roa_makeKey r = join ''|'' [roa_ip r, dec (roa_mask r), dec (roa_asn r), dec (roa_maxLength r)]"

definition rk_makeKey :: "string \<Rightarrow> string \<Rightarrow> string" where
  "rk_makeKey ski asn = join ''|'' [ski, asn]"

definition IPV4 :: nat where "IPV4 = 1"

datatype action = Announce | Withdraw

datatype operation =
    RoaOp action roa
  | RouterKeyOp action router_key
  | AspaOp action aspa
  | AspaReplace aspa aspa

datatype aspa_format = LATEST | LEGACY

section \<open>Builders\<close>

definition pdu :: "nat \<Rightarrow> byte \<Rightarrow> buffer \<Rightarrow> buffer \<Rightarrow> buffer" where
  "pdu v t mid body =
     [word_of_nat v, t] @ mid @ enc32 (RPKI_HEADER_LENGTH + length body) @ body"

definition buildCacheResponsePdu :: "nat \<Rightarrow> nat \<Rightarrow> buffer" where
  "buildCacheResponsePdu v sid = pdu v CACHE_RESPONSE (enc16 sid) []"

definition buildSerialNotifyPdu :: "nat \<Rightarrow> nat \<Rightarrow> 32 word \<Rightarrow> buffer" where
  "buildSerialNotifyPdu v sid serial = pdu v SERIAL_NOTIFY (enc16 sid) (enc32 (unat serial))"

definition byte_at :: "buffer \<Rightarrow> nat \<Rightarrow> byte" where
  "byte_at b i = (if i < length b then b ! i else 0)"

definition buildPrefixPdu ::
    "(string \<Rightarrow> js_error + buffer) \<Rightarrow> nat \<Rightarrow> roa \<Rightarrow> byte \<Rightarrow> bool \<Rightarrow> js_error + buffer" where
  "buildPrefixPdu ipToBytes v r flags isIpv6 =
     (let prefixLen = if isIpv6 then 16 else 4 in
      bindE (ipToBytes (roa_ip r)) (\<lambda>ipBytes.
      bindE (writeUInt32BE (Some (int (roa_asn r)))) (\<lambda>asn.
        Inr (pdu v (if isIpv6 then IPV6_PREFIX else IPV4_PREFIX) (enc16 0)
          ([flags, word_of_nat (roa_mask r), word_of_nat (roa_maxLength r), 0] @
           map (byte_at ipBytes) [0..<prefixLen] @ asn)))))"

definition buildRouterKeyPdu :: "nat \<Rightarrow> router_key \<Rightarrow> byte \<Rightarrow> js_error + buffer option" where
  "buildRouterKeyPdu v rk flags =
     (if v < 1 then Inr None
      else let ski = unhex (rk_ski rk); spki = unhex (rk_spki rk) in
        if length ski \<noteq> 20 then Inr None
        else bindE (writeUInt32BE (parseInt10 (rk_asn rk))) (\<lambda>asn.
               Inr (Some (pdu v ROUTER_KEY [flags, 0] (ski @ asn @ spki)))))"

definition getLegacyAspaAfiFlags :: "aspa \<Rightarrow> byte list" where
  "getLegacyAspaAfiFlags a =
     (let fs = (if afiFlags a AND 1 \<noteq> 0 then [0] else []) @ (if afiFlags a AND 2 \<noteq> 0 then [1] else [])
      in if fs \<noteq> [] then fs else [0])"

definition writeAsns :: "nat list \<Rightarrow> js_error + buffer" where
  "writeAsns asns = bindE (mapE (\<lambda>n. writeUInt32BE (Some (int n))) asns) (\<lambda>bs. Inr (concat bs))"

definition buildAspaLegacyPdu :: "nat \<Rightarrow> aspa \<Rightarrow> byte \<Rightarrow> byte \<Rightarrow> js_error + buffer" where
  "buildAspaLegacyPdu v a flags legacyAfiFlags =
     (let providers = if flags = WITHDRAWAL then [] else providerAsns a in
      bindE (writeUInt16BE (Some (int (length providers)))) (\<lambda>count.
      bindE (writeUInt32BE (Some (int (customerAsn a)))) (\<lambda>customer.
      bindE (writeAsns providers) (\<lambda>ps.
        Inr (pdu v ASPA (enc16 0) ([flags, legacyAfiFlags] @ count @ customer @ ps))))))"

definition buildAspaPdus :: "nat \<Rightarrow> aspa_format \<Rightarrow> aspa \<Rightarrow> byte \<Rightarrow> js_error + buffer list" where
  "buildAspaPdus v fmt a flags =
     (if v < 2 then Inr []
      else if fmt = LEGACY
      then mapE (buildAspaLegacyPdu v a flags) (getLegacyAspaAfiFlags a)
      else let providers = if flags = WITHDRAWAL then [] else providerAsns a in
        bindE (writeUInt32BE (Some (int (customerAsn a)))) (\<lambda>customer.
        bindE (writeAsns providers) (\<lambda>ps.
          Inr [pdu v ASPA [flags, 0] (customer @ ps)])))"

definition buildAspaReplacementPdus ::
    "nat \<Rightarrow> aspa_format \<Rightarrow> aspa \<Rightarrow> aspa \<Rightarrow> js_error + buffer list" where
  "buildAspaReplacementPdus v fmt old new =
     (if v < 2 then Inr []
      else if fmt \<noteq> LEGACY then buildAspaPdus v fmt new UPDATE
      else let oldFlags = getLegacyAspaAfiFlags old; newFlags = getLegacyAspaAfiFlags new in
        bindE (mapE (buildAspaLegacyPdu v new UPDATE) newFlags) (\<lambda>updates.
        bindE (mapE (buildAspaLegacyPdu v old WITHDRAWAL) (filter (\<lambda>f. f \<notin> set newFlags) oldFlags))
          (\<lambda>withdrawals. Inr (updates @ withdrawals))))"

fun action_flags :: "action \<Rightarrow> byte" where
  "action_flags Withdraw = WITHDRAWAL"
| "action_flags Announce = UPDATE"

definition is_ipv6_roa :: "roa \<Rightarrow> bool" where
  "is_ipv6_roa r = (roa_ipType r \<noteq> IPV4)"

fun buildDeltaOperationBuffers ::
    "(string \<Rightarrow> js_error + buffer) \<Rightarrow> nat \<Rightarrow> aspa_format \<Rightarrow> operation \<Rightarrow> js_error + buffer list" where
  "buildDeltaOperationBuffers ipToBytes v fmt (RoaOp act r) =
     bindE (buildPrefixPdu ipToBytes v r (action_flags act) (is_ipv6_roa r)) (\<lambda>b. Inr [b])"
| "buildDeltaOperationBuffers ipToBytes v fmt (RouterKeyOp act rk) =
     bindE (buildRouterKeyPdu v rk (action_flags act))
       (\<lambda>b. Inr (case b of None \<Rightarrow> [] | Some p \<Rightarrow> [p]))"
| "buildDeltaOperationBuffers ipToBytes v fmt (AspaReplace old new) =
     buildAspaReplacementPdus v fmt old new"
| "buildDeltaOperationBuffers ipToBytes v fmt (AspaOp act a) =
     buildAspaPdus v fmt a (action_flags act)"

definition buildEndOfDataPdu :: "nat \<Rightarrow> nat \<Rightarrow> 32 word \<Rightarrow> buffer" where
  "buildEndOfDataPdu v sid serial =
     (if 1 \<le> v
      then pdu v END_OF_DATA (enc16 sid) (enc32 (unat serial) @ enc32 3600 @ enc32 600 @ enc32 7200)
      else pdu v END_OF_DATA (enc16 sid) (enc32 (unat serial)))"

definition cacheResetPdu :: "nat \<Rightarrow> buffer" where
  "cacheResetPdu v = pdu v CACHE_RESET (enc16 0) []"

definition buildErrorReportPdu :: "nat \<Rightarrow> nat \<Rightarrow> buffer" where
  "buildErrorReportPdu errorCode v = pdu v ERROR_REPORT (enc16 errorCode) (enc32 0 @ enc32 0)"

section \<open>Receive framing\<close>

record rpki_header =
  h_version :: nat
  h_type :: byte
  h_reserved :: nat
  h_length :: nat

definition parseRpkiHeader :: "buffer \<Rightarrow> rpki_header" where
  "parseRpkiHeader b = \<lparr>h_version = unat (b ! 0), h_type = b ! 1, h_reserved = be16 b 2, h_length = be32 b 4\<rparr>"

text \<open>One round of the loop of \<open>processBufferedMessages\<close>.\<close>

definition rpki_frame :: "unit \<Rightarrow> buffer \<Rightarrow> (unit, buffer, unit) verdict" where
  "rpki_frame u b =
     (if length b < RPKI_HEADER_LENGTH then More
      else let n = h_length (parseRpkiHeader b) in
        if n < RPKI_HEADER_LENGTH \<or> n > MAX_RPKI_PDU_BYTES then Fail ()
        else if length b < n then More
        else Advance (Some (subarray b 0 n)) () (drop n b))"

interpretation rtr: deframer rpki_frame "\<lambda>_. True"
  by unfold_locales
     (auto simp: rpki_frame_def Let_def parseRpkiHeader_def RPKI_HEADER_LENGTH_def be32_append1 subarray_0
       split: if_splits)

section \<open>Every builder fills in its length\<close>

definition pdu_ok :: "buffer \<Rightarrow> bool" where
  "pdu_ok p = (RPKI_HEADER_LENGTH \<le> length p \<and> length p \<le> MAX_RPKI_PDU_BYTES \<and> be32 p 4 = length p)"

lemma length_pdu [simp]: "length mid = 2 \<Longrightarrow> length (pdu v t mid body) = 8 + length body"
  by (simp add: pdu_def)

lemma be32_pdu: "length mid = 2 \<Longrightarrow> be32 (pdu v t mid body) 4 = (8 + length body) mod 4294967296"
  by (simp add: pdu_def RPKI_HEADER_LENGTH_def buf_simps flip: append_Cons)

lemma pdu_ok_pdu: "length mid = 2 \<Longrightarrow> length body \<le> MAX_RPKI_PDU_BYTES - 8 \<Longrightarrow> pdu_ok (pdu v t mid body)"
  by (simp add: pdu_ok_def be32_pdu RPKI_HEADER_LENGTH_def MAX_RPKI_PDU_BYTES_def)

lemma pdu_first [simp]: "pdu v t mid body ! 0 = word_of_nat v" "pdu v t mid body ! Suc 0 = t"
  by (simp_all add: pdu_def)

lemma pdu_rest [simp]:
  "length mid = 2 \<Longrightarrow> be16 (pdu v t mid body) 2 = be16 mid 0"
  "length mid = 2 \<Longrightarrow> drop 8 (pdu v t mid body) = body"
  by (simp_all add: pdu_def buf_simps flip: append_Cons)

lemma frames_of_pdus:
  assumes "\<forall>p\<in>set ps. pdu_ok p"
  shows "drive rpki_frame None () (concat ps) acc = Some ((), [], acc @ ps, None)"
  using assms
proof (induction ps arbitrary: acc)
  case Nil
  then show ?case by (simp add: drive_More rpki_frame_def RPKI_HEADER_LENGTH_def)
next
  case (Cons p ps)
  then have "rpki_frame () (p @ concat ps) = Advance (Some p) () (concat ps)"
    by (auto simp: rpki_frame_def pdu_ok_def Let_def parseRpkiHeader_def RPKI_HEADER_LENGTH_def
        be32_append1 subarray_0)
  with Cons show ?case by (simp add: drive_Advance)
qed


lemma prefix_ok: "buildPrefixPdu ipToBytes v r flags six = Inr b \<Longrightarrow> pdu_ok b"
  by (auto simp: buildPrefixPdu_def Let_def bindE_Inr_iff MAX_RPKI_PDU_BYTES_def
      intro!: pdu_ok_pdu dest!: writeUInt_Inr)

lemma router_key_ok:
  "buildRouterKeyPdu v rk flags = Inr (Some b) \<Longrightarrow> length (rk_spki rk) \<le> 0x1000000 \<Longrightarrow> pdu_ok b"
  using length_unhex [of "rk_spki rk"]
  by (auto simp: buildRouterKeyPdu_def Let_def bindE_Inr_iff MAX_RPKI_PDU_BYTES_def
      intro!: pdu_ok_pdu dest!: writeUInt_Inr split: if_splits)

lemma length_writeAsns: "writeAsns asns = Inr b \<Longrightarrow> length b = 4 * length asns"
proof (induction asns arbitrary: b)
  case Nil
  then show ?case by (simp add: writeAsns_def)
next
  case (Cons n asns)
  then obtain x y where xy: "writeUInt32BE (Some (int n)) = Inr x"
    "mapE (\<lambda>n. writeUInt32BE (Some (int n))) asns = Inr y" "b = x @ concat y"
    by (auto simp: writeAsns_def bindE_Inr_iff)
  with Cons.IH [of "concat y"] have "length (concat y) = 4 * length asns"
    by (simp add: writeAsns_def)
  with xy show ?case by (simp add: writeUInt_Inr(2))
qed

lemma aspa_legacy_ok: "buildAspaLegacyPdu v a flags afi = Inr b \<Longrightarrow> pdu_ok b"
  by (auto simp: buildAspaLegacyPdu_def Let_def bindE_Inr_iff MAX_RPKI_PDU_BYTES_def writeUInt16BE_def
      intro!: pdu_ok_pdu dest!: writeUInt_Inr(2) length_writeAsns split: if_splits)

lemma mapE_all: "mapE f xs = Inr ys \<Longrightarrow> (\<And>x y. x \<in> set xs \<Longrightarrow> f x = Inr y \<Longrightarrow> P y) \<Longrightarrow> \<forall>y\<in>set ys. P y"
  unfolding mapE_Inr list_all2_conv_all_nth in_set_conv_nth Ball_def by metis

lemma aspa_ok:
  assumes "buildAspaPdus v fmt a flags = Inr bs" "length (providerAsns a) \<le> 0x100000"
  shows "\<forall>b\<in>set bs. pdu_ok b"
proof (cases "fmt = LEGACY")
  case True
  with assms(1) show ?thesis
    by (auto simp: buildAspaPdus_def split: if_splits dest!: mapE_all [where P = pdu_ok]
        intro: aspa_legacy_ok)
next
  case False
  with assms show ?thesis
    by (auto simp: buildAspaPdus_def Let_def bindE_Inr_iff MAX_RPKI_PDU_BYTES_def
        intro!: pdu_ok_pdu dest!: writeUInt_Inr(2) length_writeAsns split: if_splits)
qed

end
