(* ===== verification/Rpki_Store.thy ===== *)
theory Rpki_Store
  imports Rpki_Pdu
begin

text \<open>
  The RPKI database (\<open>rpkiSqliteStore.js\<close>): the three tables and the two staging tables as
  lists of rows in the order of their row ids, each prepared statement as the operation
  on rows that SQL gives it, and each transaction as a function that returns the new
  tables and its result or, when it throws and is rolled back, \<open>Inl\<close>.

  \<^item> \<open>INSERT OR IGNORE\<close> skips a row that repeats the unique key or violates a
    \<open>CHECK\<close>; a plain \<open>INSERT\<close> or \<open>UPDATE\<close> that violates a \<open>CHECK\<close> raises.
  \<^item> A new row gets the largest row id, so that it comes last; an update keeps its place.
  \<^item> The normalisers of the import utilities turn a payload into a ROA or an ASPA or
    reject it; they are the arguments \<open>norm\<close> of the operations.
  \<^item> The stored JSON text of the provider list is the list itself.

  The lemmas show the invariant \<open>store_ok\<close> (keys unique, counters exact, checks met),
  that each operation keeps it, and what each does to the sets of rows.
\<close>

section \<open>Tables\<close>

record rpki_store =
  st_roas :: "roa list"
  st_aspas :: "aspa list"
  roa_count :: int
  aspa_count :: int
  cache_serial :: "32 word"
  roa_stage :: "roa list"
  aspa_stage :: "aspa list"

definition initializeSchema :: rpki_store where
  "initializeSchema = \<lparr>st_roas = [], st_aspas = [], roa_count = 0, aspa_count = 0, cache_serial = 1,
     roa_stage = [], aspa_stage = []\<rparr>"

type_synonym roa_key = "string \<times> nat \<times> nat \<times> nat"

definition roaParameters :: "roa \<Rightarrow> roa_key" where
  "roaParameters r = (roa_ip r, roa_mask r, roa_asn r, roa_maxLength r)"

definition roa_check :: "roa \<Rightarrow> bool" where
  "roa_check r = (roa_ipType r \<in> {1, 2} \<and> roa_mask r \<le> 128 \<and> roa_asn r \<le> 4294967295 \<and>
     roa_mask r \<le> roa_maxLength r \<and> roa_maxLength r \<le> 128)"

definition aspa_check :: "aspa \<Rightarrow> bool" where
  "aspa_check a = (customerAsn a \<le> 4294967295 \<and> afiFlags a \<in> {1, 2, 3})"

section \<open>Statements\<close>

definition getRoa :: "roa_key \<Rightarrow> rpki_store \<Rightarrow> roa option" where
  "getRoa k st = find (\<lambda>r. roaParameters r = k) (st_roas st)"

definition insert_ignore :: "roa \<Rightarrow> roa list \<Rightarrow> nat \<times> roa list" where
  "insert_ignore r rows =
     (if roaParameters r \<in> roaParameters ` set rows \<or> \<not> roa_check r then (0, rows) else (1, rows @ [r]))"

definition insertRoa :: "roa \<Rightarrow> rpki_store \<Rightarrow> nat \<times> rpki_store" where
  "insertRoa r st = (let (n, rows) = insert_ignore r (st_roas st) in (n, st\<lparr>st_roas := rows\<rparr>))"

definition getAspa :: "nat \<Rightarrow> rpki_store \<Rightarrow> aspa option" where
  "getAspa c st = find (\<lambda>a. customerAsn a = c) (st_aspas st)"

definition getCacheSerial :: "rpki_store \<Rightarrow> 32 word" where
  "getCacheSerial st = cache_serial st"

definition bumpCacheSerialInTransaction :: "rpki_store \<Rightarrow> 32 word \<times> rpki_store" where
  "bumpCacheSerialInTransaction st =
     (let cur = getCacheSerial st; nxt = (if cur \<ge> 0xffffffff then 0 else cur + 1)
      in (nxt, st\<lparr>cache_serial := nxt\<rparr>))"

section \<open>ROA transactions\<close>

record roa_result =
  r_changed :: nat
  r_skipped :: nat
  r_item :: "roa option"
  r_total :: int
  r_serial :: "32 word"

definition addRoa :: "('v \<Rightarrow> roa option) \<Rightarrow> 'v \<Rightarrow> rpki_store \<Rightarrow> js_error + rpki_store \<times> roa_result" where
  "addRoa norm v st = (case norm v of
      None \<Rightarrow> Inl JsError
    | Some r \<Rightarrow>
        let (changes, st1) = insertRoa r st;
            (serial, st2) = (if changes > 0
              then bumpCacheSerialInTransaction (st1\<lparr>roa_count := roa_count st1 + 1\<rparr>)
              else (getCacheSerial st1, st1))
        in Inr (st2, \<lparr>r_changed = changes, r_skipped = (if changes > 0 then 0 else 1),
                      r_item = Some r, r_total = roa_count st2, r_serial = serial\<rparr>))"

text \<open>The loop of \<open>addRoaBatchInTransaction\<close>: the number inserted and skipped so far.\<close>

fun add_batch :: "('v \<Rightarrow> roa option) \<Rightarrow> nat option \<Rightarrow> 'v list \<Rightarrow> nat \<Rightarrow> nat \<Rightarrow> rpki_store
    \<Rightarrow> js_error + nat \<times> nat \<times> rpki_store" where
  "add_batch norm limit [] ins skip st = Inr (ins, skip, st)"
| "add_batch norm limit (v # vs) ins skip st =
     (if (case limit of None \<Rightarrow> False | Some m \<Rightarrow> ins \<ge> m) then Inr (ins, skip, st)
      else case norm v of
          None \<Rightarrow> Inl JsError
        | Some r \<Rightarrow> let (n, st1) = insertRoa r st in
            if n > 0 then add_batch norm limit vs (ins + 1) skip st1
            else add_batch norm limit vs ins (skip + 1) st1)"

definition addRoaBatch :: "('v \<Rightarrow> roa option) \<Rightarrow> nat option \<Rightarrow> 'v list \<Rightarrow> rpki_store
    \<Rightarrow> js_error + rpki_store \<times> roa_result" where
  "addRoaBatch norm limit vs st =
     bindE (add_batch norm limit vs 0 0 st) (\<lambda>(ins, skip, st1).
       let (serial, st2) = (if ins > 0
             then bumpCacheSerialInTransaction (st1\<lparr>roa_count := roa_count st1 + int ins\<rparr>)
             else (getCacheSerial st1, st1))
       in Inr (st2, \<lparr>r_changed = ins, r_skipped = skip, r_item = None, r_total = roa_count st2,
                     r_serial = serial\<rparr>))"

definition deleteRoa :: "('v \<Rightarrow> roa option) \<Rightarrow> 'v \<Rightarrow> rpki_store \<Rightarrow> js_error + rpki_store \<times> roa_result" where
  "deleteRoa norm v st = (case norm v of
      None \<Rightarrow> Inl JsError
    | Some r \<Rightarrow> (case getRoa (roaParameters r) st of
          None \<Rightarrow> Inr (st, \<lparr>r_changed = 0, r_skipped = 0, r_item = None, r_total = roa_count st,
                           r_serial = getCacheSerial st\<rparr>)
        | Some row \<Rightarrow>
            let st1 = st\<lparr>st_roas := filter (\<lambda>x. roaParameters x \<noteq> roaParameters r) (st_roas st),
                         roa_count := roa_count st - 1\<rparr>;
                (serial, st2) = bumpCacheSerialInTransaction st1
            in Inr (st2, \<lparr>r_changed = 1, r_skipped = 0, r_item = Some row, r_total = roa_count st2,
                          r_serial = serial\<rparr>)))"

definition clearRoas :: "rpki_store \<Rightarrow> rpki_store \<times> roa_result" where
  "clearRoas st =
     (let deleted = roa_count st;
          (serial, st1) = (if deleted > 0
            then bumpCacheSerialInTransaction (st\<lparr>st_roas := [], roa_count := 0\<rparr>)
            else (getCacheSerial st, st))
      in (st1, \<lparr>r_changed = nat deleted, r_skipped = 0, r_item = None, r_total = 0, r_serial = serial\<rparr>))"

section \<open>ASPA transactions\<close>

record aspa_result =
  a_inserted :: nat
  a_overwritten :: nat
  a_changed :: nat
  a_previous :: "aspa option"
  a_current :: "aspa option"
  a_total :: int
  a_serial :: "32 word"

definition updateAspa :: "aspa \<Rightarrow> aspa list \<Rightarrow> aspa list" where
  "updateAspa a rows = map (\<lambda>x. if customerAsn x = customerAsn a then a else x) rows"

definition upsertAspaInTransaction :: "('v \<Rightarrow> aspa option) \<Rightarrow> bool \<Rightarrow> 'v \<Rightarrow> rpki_store
    \<Rightarrow> js_error + rpki_store \<times> aspa_result" where
  "upsertAspaInTransaction norm bumpSerial v st = (case norm v of
      None \<Rightarrow> Inl JsError
    | Some a \<Rightarrow>
        let previous = getAspa (customerAsn a) st in
        if previous = Some a
        then Inr (st, \<lparr>a_inserted = 0, a_overwritten = 0, a_changed = 0, a_previous = previous,
                       a_current = Some a, a_total = aspa_count st, a_serial = getCacheSerial st\<rparr>)
        else if \<not> aspa_check a then Inl JsError
        else
          let st1 = (if previous \<noteq> None then st\<lparr>st_aspas := updateAspa a (st_aspas st)\<rparr>
                     else st\<lparr>st_aspas := st_aspas st @ [a], aspa_count := aspa_count st + 1\<rparr>);
              (serial, st2) = (if bumpSerial then bumpCacheSerialInTransaction st1
                               else (getCacheSerial st1, st1))
          in Inr (st2, \<lparr>a_inserted = (if previous \<noteq> None then 0 else 1),
                        a_overwritten = (if previous \<noteq> None then 1 else 0), a_changed = 1,
                        a_previous = previous, a_current = Some a, a_total = aspa_count st2,
                        a_serial = serial\<rparr>))"

definition upsertAspa :: "('v \<Rightarrow> aspa option) \<Rightarrow> 'v \<Rightarrow> rpki_store \<Rightarrow> js_error + rpki_store \<times> aspa_result" where
  "upsertAspa norm v st = upsertAspaInTransaction norm True v st"

fun upsert_batch :: "('v \<Rightarrow> aspa option) \<Rightarrow> 'v list \<Rightarrow> nat \<Rightarrow> nat \<Rightarrow> nat \<Rightarrow> rpki_store
    \<Rightarrow> js_error + nat \<times> nat \<times> nat \<times> rpki_store" where
  "upsert_batch norm [] ins over ch st = Inr (ins, over, ch, st)"
| "upsert_batch norm (v # vs) ins over ch st =
     bindE (upsertAspaInTransaction norm False v st) (\<lambda>(st1, r).
       upsert_batch norm vs (ins + a_inserted r) (over + a_overwritten r) (ch + a_changed r) st1)"

definition upsertAspaBatch :: "('v \<Rightarrow> aspa option) \<Rightarrow> 'v list \<Rightarrow> rpki_store
    \<Rightarrow> js_error + rpki_store \<times> aspa_result" where
  "upsertAspaBatch norm vs st =
     bindE (upsert_batch norm vs 0 0 0 st) (\<lambda>(ins, over, ch, st1).
       let (serial, st2) = (if ch > 0 then bumpCacheSerialInTransaction st1 else (getCacheSerial st1, st1))
       in Inr (st2, \<lparr>a_inserted = ins, a_overwritten = over, a_changed = ch, a_previous = None,
                     a_current = None, a_total = aspa_count st2, a_serial = serial\<rparr>))"

definition deleteAspa :: "('v \<Rightarrow> nat option) \<Rightarrow> 'v \<Rightarrow> rpki_store \<Rightarrow> js_error + rpki_store \<times> aspa_result" where
  "deleteAspa normC v st = (case normC v of
      None \<Rightarrow> Inl JsError
    | Some c \<Rightarrow> (case getAspa c st of
          None \<Rightarrow> Inr (st, \<lparr>a_inserted = 0, a_overwritten = 0, a_changed = 0, a_previous = None,
                           a_current = None, a_total = aspa_count st, a_serial = getCacheSerial st\<rparr>)
        | Some row \<Rightarrow>
            let st1 = st\<lparr>st_aspas := filter (\<lambda>x. customerAsn x \<noteq> c) (st_aspas st),
                         aspa_count := aspa_count st - 1\<rparr>;
                (serial, st2) = bumpCacheSerialInTransaction st1
            in Inr (st2, \<lparr>a_inserted = 0, a_overwritten = 0, a_changed = 1, a_previous = Some row,
                          a_current = None, a_total = aspa_count st2, a_serial = serial\<rparr>)))"

definition clearAspas :: "rpki_store \<Rightarrow> rpki_store \<times> aspa_result" where
  "clearAspas st =
     (let deleted = aspa_count st;
          (serial, st1) = (if deleted > 0
            then bumpCacheSerialInTransaction (st\<lparr>st_aspas := [], aspa_count := 0\<rparr>)
            else (getCacheSerial st, st))
      in (st1, \<lparr>a_inserted = 0, a_overwritten = 0, a_changed = nat deleted, a_previous = None,
                a_current = None, a_total = 0, a_serial = serial\<rparr>))"

section \<open>Imports through the staging tables\<close>

definition beginRoaImport :: "rpki_store \<Rightarrow> rpki_store" where
  "beginRoaImport st = st\<lparr>roa_stage := []\<rparr>"

definition stage_roa :: "roa \<Rightarrow> roa list \<Rightarrow> roa list" where
  "stage_roa r rows = (if roaParameters r \<in> roaParameters ` set rows then rows else rows @ [r])"

definition stageRoaBatch :: "('v \<Rightarrow> roa option) \<Rightarrow> 'v list \<Rightarrow> rpki_store \<Rightarrow> js_error + rpki_store" where
  "stageRoaBatch norm vs st =
     bindE (mapE (\<lambda>v. case norm v of None \<Rightarrow> Inl JsError | Some r \<Rightarrow> Inr r) vs) (\<lambda>rs.
       Inr (st\<lparr>roa_stage := fold stage_roa rs (roa_stage st)\<rparr>))"

definition roa_candidates :: "rpki_store \<Rightarrow> roa list" where
  "roa_candidates st =
     filter (\<lambda>r. roaParameters r \<notin> roaParameters ` set (st_roas st)) (roa_stage st)"

definition commitRoaImport :: "nat option \<Rightarrow> rpki_store \<Rightarrow> js_error + rpki_store \<times> roa_result" where
  "commitRoaImport limit st =
     (let chosen = (case limit of None \<Rightarrow> roa_candidates st | Some n \<Rightarrow> take n (roa_candidates st)) in
      if \<not> list_all roa_check chosen then Inl JsError
      else let ins = length chosen;
               st1 = st\<lparr>st_roas := st_roas st @ chosen\<rparr>;
               (serial, st2) = (if ins > 0
                 then bumpCacheSerialInTransaction (st1\<lparr>roa_count := roa_count st1 + int ins\<rparr>)
                 else (getCacheSerial st1, st1))
           in Inr (st2\<lparr>roa_stage := []\<rparr>,
                   \<lparr>r_changed = ins, r_skipped = length (roa_candidates st) - ins, r_item = None,
                    r_total = roa_count st2, r_serial = serial\<rparr>))"

definition beginAspaImport :: "rpki_store \<Rightarrow> rpki_store" where
  "beginAspaImport st = st\<lparr>aspa_stage := []\<rparr>"

definition stage_aspa :: "aspa \<Rightarrow> aspa list \<Rightarrow> aspa list" where
  "stage_aspa a rows = (if customerAsn a \<in> customerAsn ` set rows then updateAspa a rows else rows @ [a])"

definition stageAspaBatch :: "('v \<Rightarrow> aspa option) \<Rightarrow> 'v list \<Rightarrow> rpki_store \<Rightarrow> js_error + rpki_store" where
  "stageAspaBatch norm vs st =
     bindE (mapE (\<lambda>v. case norm v of None \<Rightarrow> Inl JsError | Some a \<Rightarrow> Inr a) vs) (\<lambda>as.
       Inr (st\<lparr>aspa_stage := fold stage_aspa as (aspa_stage st)\<rparr>))"

definition commitAspaImport :: "rpki_store \<Rightarrow> js_error + rpki_store \<times> aspa_result" where
  "commitAspaImport st =
     (let fresh = filter (\<lambda>a. getAspa (customerAsn a) st = None) (aspa_stage st);
          chosen = filter (\<lambda>a. getAspa (customerAsn a) st \<noteq> Some a) (aspa_stage st);
          ins = length fresh; ch = length chosen in
      if \<not> list_all aspa_check chosen then Inl JsError
      else let st1 = (if ch > 0
                 then st\<lparr>st_aspas := fold stage_aspa chosen (st_aspas st), aspa_count := aspa_count st + int ins\<rparr>
                 else st);
               (serial, st2) = (if ch > 0 then bumpCacheSerialInTransaction st1 else (getCacheSerial st1, st1))
           in Inr (st2\<lparr>aspa_stage := []\<rparr>,
                   \<lparr>a_inserted = ins, a_overwritten = ch - ins, a_changed = ch, a_previous = None,
                    a_current = None, a_total = aspa_count st2, a_serial = serial\<rparr>))"

section \<open>Queries\<close>

definition positiveInteger :: "int option \<Rightarrow> nat \<Rightarrow> nat option \<Rightarrow> nat" where
  "positiveInteger value fallback maximum = (case value of
      None \<Rightarrow> fallback
    | Some n \<Rightarrow> if n < 1 then fallback
                else (case maximum of None \<Rightarrow> nat n | Some m \<Rightarrow> min (nat n) m))"

text \<open>\<open>normalizePrefixFilter\<close> classifies the filter text with \<open>ipaddr.js\<close>; the result is
  an argument.  \<open>Contains\<close> is a case-insensitive substring of \<open>prefix/length\<close>.\<close>

datatype prefix_filter = NoFilter | Cidr string nat | Address string | Contains string

fun is_infix :: "string \<Rightarrow> string \<Rightarrow> bool" where
  "is_infix p [] = (p = [])"
| "is_infix p (c # s) = (take (length p) (c # s) = p \<or> is_infix p s)"

definition lower :: "string \<Rightarrow> string" where
  "lower s = map (\<lambda>c. if 65 \<le> (of_char c :: nat) \<and> (of_char c :: nat) \<le> 90 then char_of (of_char c + 32 :: nat) else c) s"

definition buildRoaWhere :: "nat option \<Rightarrow> nat option \<Rightarrow> prefix_filter \<Rightarrow> roa \<Rightarrow> bool" where
  "buildRoaWhere ipType asn f r =
     ((case ipType of None \<Rightarrow> True | Some t \<Rightarrow> roa_ipType r = t) \<and>
      (case asn of None \<Rightarrow> True | Some n \<Rightarrow> roa_asn r = n) \<and>
      (case f of NoFilter \<Rightarrow> True
       | Cidr p m \<Rightarrow> roa_ip r = p \<and> roa_mask r = m
       | Address p \<Rightarrow> roa_ip r = p
       | Contains s \<Rightarrow> is_infix s (lower (roa_ip r @ ''/'' @ dec (roa_mask r)))))"

record 'r page =
  items :: "'r list"
  total :: nat
  storageTotal :: int
  page_no :: nat
  page_size :: nat

definition limit_offset :: "nat \<Rightarrow> nat \<Rightarrow> 'r list \<Rightarrow> 'r list" where
  "limit_offset n off rows = take n (drop off rows)"

definition queryRoaPage :: "(roa \<Rightarrow> bool) \<Rightarrow> int option \<Rightarrow> int option \<Rightarrow> rpki_store \<Rightarrow> roa page" where
  "queryRoaPage cond p sz st =
     (let pg = positiveInteger p 1 None; size = positiveInteger sz 20 (Some 1000);
          rows = filter cond (st_roas st)
      in \<lparr>items = limit_offset size ((pg - 1) * size) rows, total = length rows,
          storageTotal = roa_count st, page_no = pg, page_size = size\<rparr>)"

definition queryAspaPage :: "int option \<Rightarrow> int option \<Rightarrow> rpki_store \<Rightarrow> aspa page" where
  "queryAspaPage p sz st =
     (let pg = positiveInteger p 1 None; size = positiveInteger sz 20 (Some 1000)
      in \<lparr>items = limit_offset size ((pg - 1) * size) (st_aspas st), total = nat (aspa_count st),
          storageTotal = aspa_count st, page_no = pg, page_size = size\<rparr>)"

text \<open>The generators \<open>iterateRoaBatches\<close> and \<open>iterateAspaBatches\<close>: the loop with its pending batch.\<close>

fun batches :: "nat \<Rightarrow> 'r list \<Rightarrow> 'r list \<Rightarrow> 'r list list" where
  "batches n batch [] = (if length batch > 0 then [batch] else [])"
| "batches n batch (r # rs) =
     (let b = batch @ [r] in if length b \<ge> n then b # batches n [] rs else batches n b rs)"

definition iterateRoaBatches :: "int option \<Rightarrow> rpki_store \<Rightarrow> roa list list" where
  "iterateRoaBatches n st = batches (positiveInteger n 2000 (Some 10000)) [] (st_roas st)"

definition iterateAspaBatches :: "int option \<Rightarrow> rpki_store \<Rightarrow> aspa list list" where
  "iterateAspaBatches n st = batches (positiveInteger n 2000 (Some 10000)) [] (st_aspas st)"

section \<open>The invariant\<close>

definition store_ok :: "rpki_store \<Rightarrow> bool" where
  "store_ok st = (distinct (map roaParameters (st_roas st)) \<and> distinct (map customerAsn (st_aspas st)) \<and>
     list_all roa_check (st_roas st) \<and> list_all aspa_check (st_aspas st) \<and>
     roa_count st = int (length (st_roas st)) \<and> aspa_count st = int (length (st_aspas st)) \<and>
     distinct (map roaParameters (roa_stage st)) \<and> distinct (map customerAsn (aspa_stage st)))"

lemma bump_eq: "bumpCacheSerialInTransaction st = (cache_serial st + 1, st\<lparr>cache_serial := cache_serial st + 1\<rparr>)"
proof -
  have "cache_serial st + 1 = 0" if "0xffffffff \<le> cache_serial st"
  proof -
    have "(0xffffffff :: 32 word) = - 1" by simp
    with that have "cache_serial st = - 1" by (simp add: word_order.extremum_unique)
    then show ?thesis by simp
  qed
  then show ?thesis by (auto simp: bumpCacheSerialInTransaction_def getCacheSerial_def Let_def)
qed

lemma getRoa_None: "getRoa k st = None \<longleftrightarrow> k \<notin> roaParameters ` set (st_roas st)"
  by (auto simp: getRoa_def find_None_iff)

lemma getRoa_Some: "getRoa k st = Some r \<Longrightarrow> r \<in> set (st_roas st) \<and> roaParameters r = k"
  by (auto simp: getRoa_def find_Some_iff)

lemma getAspa_None: "getAspa c st = None \<longleftrightarrow> c \<notin> customerAsn ` set (st_aspas st)"
  by (auto simp: getAspa_def find_None_iff)

lemma getAspa_Some: "getAspa c st = Some a \<Longrightarrow> a \<in> set (st_aspas st) \<and> customerAsn a = c"
  by (auto simp: getAspa_def find_Some_iff)

lemma distinct_filter_length:
  "distinct (map f xs) \<Longrightarrow> x \<in> set xs \<Longrightarrow> int (length (filter (\<lambda>y. f y \<noteq> f x) xs)) = int (length xs) - 1"
proof (induction xs)
  case (Cons a xs)
  show ?case
  proof (cases "x = a")
    case True
    with Cons.prems have "filter (\<lambda>y. f y \<noteq> f a) xs = xs" by (auto simp: filter_id_conv image_iff)
    with True show ?thesis by simp
  next
    case False
    with Cons show ?thesis by (auto simp: image_iff)
  qed
qed simp

lemma distinct_filter_set:
  "distinct (map f xs) \<Longrightarrow> x \<in> set xs \<Longrightarrow> set (filter (\<lambda>y. f y \<noteq> f x) xs) = set xs - {x}"
  by (auto simp: distinct_map inj_on_def)

lemma distinct_map_filter: "distinct (map f xs) \<Longrightarrow> distinct (map f (filter P xs))"
  by (auto simp: distinct_map inj_on_def)

lemma list_all_filter: "list_all P xs \<Longrightarrow> list_all P (filter Q xs)"
  by (auto simp: list_all_iff)

lemma updateAspa_keys: "map customerAsn (updateAspa a rows) = map customerAsn rows"
  by (simp add: updateAspa_def)

lemma updateAspa_set:
  "distinct (map customerAsn rows) \<Longrightarrow> p \<in> set rows \<Longrightarrow> customerAsn p = customerAsn a \<Longrightarrow>
   set (updateAspa a rows) = insert a (set rows - {p})"
  by (auto simp: updateAspa_def distinct_map inj_on_def image_iff)

lemma updateAspa_check: "list_all aspa_check rows \<Longrightarrow> aspa_check a \<Longrightarrow> list_all aspa_check (updateAspa a rows)"
  by (auto simp: updateAspa_def list_all_iff)

section \<open>What the transactions do\<close>

definition roas_ok :: "roa list \<Rightarrow> bool" where
  "roas_ok rows = (distinct (map roaParameters rows) \<and> list_all roa_check rows)"

lemma insertRoa_cases:
  obtains "insertRoa r st = (0, st)"
  | "insertRoa r st = (1, st\<lparr>st_roas := st_roas st @ [r]\<rparr>)" "r \<notin> set (st_roas st)"
    "roas_ok (st_roas st) \<Longrightarrow> roas_ok (st_roas st @ [r])"
proof (cases "roaParameters r \<in> roaParameters ` set (st_roas st) \<or> \<not> roa_check r")
  case True
  then have "insertRoa r st = (0, st)" by (simp add: insertRoa_def insert_ignore_def)
  with that(1) show thesis .
next
  case False
  then show thesis by (intro that(2)) (auto simp: insertRoa_def insert_ignore_def roas_ok_def)
qed

lemma addRoa_spec:
  assumes "addRoa norm v st = Inr (st', res)" "store_ok st"
  shows "\<exists>r. norm v = Some r \<and> store_ok st' \<and> r_item res = Some r \<and> set (st_aspas st') = set (st_aspas st) \<and>
    r_serial res = cache_serial st' \<and>
    (if r_changed res > 0
     then r \<notin> set (st_roas st) \<and> set (st_roas st') = insert r (set (st_roas st)) \<and>
          cache_serial st' = cache_serial st + 1
     else st' = st)"
proof -
  from assms(1) obtain r where r: "norm v = Some r" by (auto simp: addRoa_def split: option.splits)
  show ?thesis
  proof (cases r st rule: insertRoa_cases)
    case 1
    with assms r show ?thesis by (auto simp: addRoa_def getCacheSerial_def)
  next
    case 2
    have "store_ok (st\<lparr>st_roas := st_roas st @ [r], roa_count := roa_count st + 1, cache_serial := c\<rparr>)" for c
      using 2(3) assms(2) by (simp add: store_ok_def roas_ok_def)
    moreover have "st' = st\<lparr>st_roas := st_roas st @ [r], roa_count := roa_count st + 1,
        cache_serial := cache_serial st + 1\<rparr>" "r_changed res = 1" "r_item res = Some r"
        "r_serial res = cache_serial st + 1"
      using assms(1) r 2(1) by (auto simp: addRoa_def bump_eq)
    ultimately show ?thesis using r 2(2) by simp
  qed
qed

lemma deleteRoa_spec:
  assumes "deleteRoa norm v st = Inr (st', res)" "store_ok st"
  shows "store_ok st' \<and> set (st_aspas st') = set (st_aspas st) \<and> r_serial res = cache_serial st' \<and>
    (case r_item res of
       Some r \<Rightarrow> r_changed res = 1 \<and> r \<in> set (st_roas st) \<and> set (st_roas st') = set (st_roas st) - {r} \<and>
          cache_serial st' = cache_serial st + 1
     | None \<Rightarrow> r_changed res = 0 \<and> st' = st)"
proof -
  from assms(1) obtain q where q: "norm v = Some q" by (auto simp: deleteRoa_def split: option.splits)
  show ?thesis
  proof (cases "getRoa (roaParameters q) st")
    case None
    with assms q show ?thesis by (auto simp: deleteRoa_def getCacheSerial_def)
  next
    case (Some row)
    note row = getRoa_Some [OF Some]
    have d: "distinct (map roaParameters (st_roas st))" using assms(2) by (simp add: store_ok_def)
    note f = distinct_filter_length [OF d conjunct1 [OF row]] distinct_filter_set [OF d conjunct1 [OF row]]
    define rows where "rows = filter (\<lambda>x. roaParameters x \<noteq> roaParameters q) (st_roas st)"
    have rows: "int (length rows) = int (length (st_roas st)) - 1" "set rows = set (st_roas st) - {row}"
      "distinct (map roaParameters rows)" "list_all roa_check rows"
      using f row d assms(2)
      by (simp_all add: rows_def store_ok_def distinct_map_filter list_all_filter)
    have st': "st' = st\<lparr>st_roas := rows, roa_count := roa_count st - 1, cache_serial := cache_serial st + 1\<rparr>"
      "r_item res = Some row" "r_changed res = 1" "r_serial res = cache_serial st + 1"
      using assms(1) q Some by (simp_all add: deleteRoa_def bump_eq Let_def flip: rows_def) auto
    have "store_ok st'" using rows assms(2) by (simp add: st'(1) store_ok_def)
    with st' rows(2) row show ?thesis by simp
  qed
qed

lemma clearRoas_spec:
  assumes "clearRoas st = (st', res)" "store_ok st"
  shows "store_ok st' \<and> set (st_aspas st') = set (st_aspas st) \<and> r_serial res = cache_serial st' \<and>
    st_roas st' = [] \<and> r_changed res = length (st_roas st) \<and>
    cache_serial st' = cache_serial st + (if st_roas st = [] then 0 else 1) \<and> (st_roas st = [] \<longrightarrow> st' = st)"
proof (cases "st_roas st")
  case Nil
  with assms show ?thesis by (auto simp: clearRoas_def store_ok_def getCacheSerial_def Let_def)
next
  case (Cons r rs)
  with assms(2) have "roa_count st > 0" by (simp add: store_ok_def)
  with assms have "st' = st\<lparr>st_roas := [], roa_count := 0, cache_serial := cache_serial st + 1\<rparr>"
    "r_serial res = cache_serial st + 1" "r_changed res = nat (roa_count st)"
    by (auto simp: clearRoas_def bump_eq Let_def)
  with assms(2) Cons show ?thesis by (simp add: store_ok_def)
qed

lemma add_batch_spec:
  "add_batch norm limit vs ins skip st = Inr (ins', skip', st') \<Longrightarrow> roas_ok (st_roas st) \<Longrightarrow>
   \<exists>rows. st' = st\<lparr>st_roas := st_roas st @ rows\<rparr> \<and> roas_ok (st_roas st @ rows) \<and> ins' = ins + length rows"
proof (induction vs arbitrary: ins skip st)
  case Nil
  then show ?case by (intro exI [of _ "[]"]) simp
next
  case (Cons v vs)
  show ?case
  proof (cases "(case limit of None \<Rightarrow> False | Some m \<Rightarrow> ins \<ge> m)")
    case True
    with Cons.prems show ?thesis by (intro exI [of _ "[]"]) simp
  next
    case False
    with Cons.prems(1) obtain r where r: "norm v = Some r" by (auto split: option.splits)
    show ?thesis
    proof (cases r st rule: insertRoa_cases)
      case 1
      with Cons.IH [of ins "skip + 1" st] Cons.prems False r show ?thesis by simp
    next
      case 2
      define st1 where "st1 = st\<lparr>st_roas := st_roas st @ [r]\<rparr>"
      have "add_batch norm limit vs (ins + 1) skip st1 = Inr (ins', skip', st')"
        using Cons.prems(1) False r 2(1) by (simp add: st1_def)
      from Cons.IH [OF this] 2(3) [OF Cons.prems(2)] obtain rows where
        "st' = st1\<lparr>st_roas := st_roas st1 @ rows\<rparr>" "roas_ok (st_roas st1 @ rows)" "ins' = ins + 1 + length rows"
        by (auto simp: st1_def)
      then show ?thesis by (intro exI [of _ "r # rows"]) (simp add: st1_def)
    qed
  qed
qed

lemma addRoaBatch_spec:
  assumes "addRoaBatch norm limit vs st = Inr (st', res)" "store_ok st"
  shows "store_ok st' \<and> set (st_aspas st') = set (st_aspas st) \<and> r_serial res = cache_serial st' \<and>
    (if r_changed res > 0 then cache_serial st' = cache_serial st + 1 else st' = st)"
proof -
  have "roas_ok (st_roas st)" using assms(2) by (simp add: store_ok_def roas_ok_def)
  moreover obtain ins skip st1 where b: "add_batch norm limit vs 0 0 st = Inr (ins, skip, st1)"
    using assms(1) by (auto simp: addRoaBatch_def bindE_Inr_iff)
  ultimately obtain rows where rows: "st1 = st\<lparr>st_roas := st_roas st @ rows\<rparr>" "roas_ok (st_roas st @ rows)"
    "ins = length rows"
    using add_batch_spec [of norm limit vs 0 0 st ins skip st1] by auto
  have "store_ok (st\<lparr>st_roas := st_roas st @ rows, roa_count := roa_count st + int (length rows), cache_serial := c\<rparr>)" for c
    using rows(2) assms(2) by (simp add: store_ok_def roas_ok_def)
  with assms b rows show ?thesis
    by (cases rows) (auto simp: addRoaBatch_def bump_eq getCacheSerial_def)
qed

lemma commitRoaImport_spec:
  assumes "commitRoaImport limit st = Inr (st', res)" "store_ok st"
  shows "store_ok st' \<and> set (st_aspas st') = set (st_aspas st) \<and> r_serial res = cache_serial st' \<and>
    (if r_changed res > 0 then cache_serial st' = cache_serial st + 1
     else cache_serial st' = cache_serial st \<and> st_roas st' = st_roas st \<and> st_aspas st' = st_aspas st)"
proof -
  define chosen where "chosen = (case limit of None \<Rightarrow> roa_candidates st | Some n \<Rightarrow> take n (roa_candidates st))"
  have sub: "set chosen \<subseteq> set (roa_candidates st)" and "distinct (map roaParameters (roa_candidates st))"
    using assms(2) by (auto simp: chosen_def roa_candidates_def store_ok_def split: option.splits dest: in_set_takeD
        intro: distinct_map_filter)
  then have "distinct (map roaParameters chosen)"
    by (auto simp: chosen_def distinct_take simp flip: take_map split: option.splits)
  moreover have "roaParameters ` set chosen \<inter> roaParameters ` set (st_roas st) = {}"
  proof -
    have "roaParameters x \<notin> roaParameters ` set (st_roas st)" if "x \<in> set chosen" for x
      using sub that by (auto simp: roa_candidates_def simp del: image_iff)
    then show ?thesis by blast
  qed
  moreover have chk: "list_all roa_check chosen"
    using assms(1) by (auto simp: commitRoaImport_def Let_def chosen_def split: if_splits)
  ultimately have "store_ok (st\<lparr>st_roas := st_roas st @ chosen, roa_count := roa_count st + int (length chosen),
      cache_serial := c, roa_stage := []\<rparr>)" for c
    using assms(2) by (auto simp: store_ok_def)
  moreover have "commitRoaImport limit st = Inr (let ins = length chosen;
               st1 = st\<lparr>st_roas := st_roas st @ chosen\<rparr>;
               (serial, st2) = (if ins > 0
                 then bumpCacheSerialInTransaction (st1\<lparr>roa_count := roa_count st1 + int ins\<rparr>)
                 else (getCacheSerial st1, st1))
           in (st2\<lparr>roa_stage := []\<rparr>,
                   \<lparr>r_changed = ins, r_skipped = length (roa_candidates st) - ins, r_item = None,
                    r_total = roa_count st2, r_serial = serial\<rparr>))"
    using chk by (simp add: commitRoaImport_def Let_def split_def flip: chosen_def)
  ultimately show ?thesis
    using assms
    by (cases chosen) (auto simp: bump_eq getCacheSerial_def Let_def store_ok_def)
qed

definition aspas_ok :: "aspa list \<Rightarrow> bool" where
  "aspas_ok rows = (distinct (map customerAsn rows) \<and> list_all aspa_check rows)"

lemma aspas_ok_update: "aspas_ok rows \<Longrightarrow> aspa_check a \<Longrightarrow> aspas_ok (updateAspa a rows)"
  by (simp add: aspas_ok_def updateAspa_keys updateAspa_check)

lemma store_ok_serial [simp]: "store_ok (st\<lparr>cache_serial := c\<rparr>) = store_ok st"
  by (simp add: store_ok_def)

lemma bump_if: "(if b then bumpCacheSerialInTransaction st else (getCacheSerial st, st)) =
   (cache_serial st + (if b then 1 else 0), st\<lparr>cache_serial := cache_serial st + (if b then 1 else 0)\<rparr>)"
  by (simp add: bump_eq getCacheSerial_def)

text \<open>The tables after writing one ASPA row: appended or in place of the old row.\<close>

lemma upsert_cases:
  assumes "upsertAspaInTransaction norm bump v st = Inr (st', res)" "aspas_ok (st_aspas st)"
  obtains a where "norm v = Some a" "a_previous res = Some a" "a_changed res = 0" "a_inserted res = 0" "st' = st"
      "a_serial res = cache_serial st"
  | a c rows where "norm v = Some a" "a_previous res = None" "a_changed res = 1" "a_inserted res = 1"
      "a_current res = Some a" "rows = st_aspas st @ [a]" "c = cache_serial st + (if bump then 1 else 0)"
      "st' = st\<lparr>st_aspas := rows, aspa_count := aspa_count st + 1, cache_serial := c\<rparr>" "a_serial res = c"
      "aspas_ok rows" "a \<notin> set (st_aspas st)"
  | a p c rows where "norm v = Some a" "a_previous res = Some p" "a_changed res = 1" "a_inserted res = 0"
      "a_current res = Some a" "rows = updateAspa a (st_aspas st)" "c = cache_serial st + (if bump then 1 else 0)"
      "st' = st\<lparr>st_aspas := rows, cache_serial := c\<rparr>" "a_serial res = c" "aspas_ok rows"
      "p \<in> set (st_aspas st)" "customerAsn p = customerAsn a"
proof -
  from assms(1) obtain a where a: "norm v = Some a" by (auto simp: upsertAspaInTransaction_def split: option.splits)
  show thesis
  proof (cases "getAspa (customerAsn a) st = Some a")
    case True
    with assms(1) a show thesis
      by (intro that(1) [of a]) (auto simp: upsertAspaInTransaction_def getCacheSerial_def Let_def)
  next
    case False
    with assms(1) a have chk: "aspa_check a"
      by (auto simp: upsertAspaInTransaction_def Let_def split: if_splits)
    show thesis
    proof (cases "getAspa (customerAsn a) st")
      case None
      then have fresh: "customerAsn a \<notin> customerAsn ` set (st_aspas st)" by (simp add: getAspa_None)
      show thesis
        using assms a chk None fresh
        by (intro that(2) [OF a _ _ _ _ refl refl]) (auto simp: upsertAspaInTransaction_def bump_if Let_def aspas_ok_def)
    next
      case (Some p)
      note p = getAspa_Some [OF Some]
      show thesis
        using assms a chk Some False p
        by (intro that(3) [of a p, OF a _ _ _ _ refl refl]) (auto simp: upsertAspaInTransaction_def bump_if Let_def
            intro: aspas_ok_update)
    qed
  qed
qed

lemma upsertAspa_spec:
  assumes "upsertAspa norm v st = Inr (st', res)" "store_ok st"
  shows "store_ok st' \<and> set (st_roas st') = set (st_roas st) \<and> a_serial res = cache_serial st' \<and>
    (if a_changed res > 0
     then cache_serial st' = cache_serial st + 1 \<and> (\<exists>a. a_current res = Some a \<and>
       (case a_previous res of
          None \<Rightarrow> set (st_aspas st') = insert a (set (st_aspas st))
        | Some p \<Rightarrow> p \<in> set (st_aspas st) \<and> set (st_aspas st') = insert a (set (st_aspas st) - {p})))
     else st' = st)"
proof -
  have ok: "aspas_ok (st_aspas st)" using assms(2) by (simp add: store_ok_def aspas_ok_def)
  from assms(1) have u: "upsertAspaInTransaction norm True v st = Inr (st', res)" by (simp add: upsertAspa_def)
  show ?thesis
  proof (cases rule: upsert_cases [OF u ok])
    case (1 a)
    with assms(2) show ?thesis by simp
  next
    case (2 a c rows)
    with assms(2) show ?thesis by (simp add: store_ok_def aspas_ok_def)
  next
    case (3 a p c rows)
    have "set rows = insert a (set (st_aspas st) - {p})"
      using updateAspa_set [of "st_aspas st" p a] 3 ok by (simp add: aspas_ok_def)
    moreover have "length rows = length (st_aspas st)" using 3 by (simp add: updateAspa_def)
    ultimately show ?thesis using 3 assms(2) by (simp add: store_ok_def aspas_ok_def)
  qed
qed

lemma upsert_batch_spec:
  "upsert_batch norm vs ins over ch st = Inr (ins', over', ch', st') \<Longrightarrow> store_ok st \<Longrightarrow>
   store_ok st' \<and> st_roas st' = st_roas st \<and> cache_serial st' = cache_serial st \<and> ch \<le> ch' \<and>
   (ch' = ch \<longrightarrow> st' = st)"
proof (induction vs arbitrary: ins over ch st)
  case (Cons v vs)
  then obtain st1 r where r: "upsertAspaInTransaction norm False v st = Inr (st1, r)"
    and rest: "upsert_batch norm vs (ins + a_inserted r) (over + a_overwritten r) (ch + a_changed r) st1
      = Inr (ins', over', ch', st')"
    by (auto simp: bindE_Inr_iff)
  have ok: "aspas_ok (st_aspas st)" using Cons.prems(2) by (simp add: store_ok_def aspas_ok_def)
  have one: "store_ok st1 \<and> st_roas st1 = st_roas st \<and> cache_serial st1 = cache_serial st \<and>
      (a_changed r = 0 \<longrightarrow> st1 = st)"
  proof (cases rule: upsert_cases [OF r ok])
    case (1 a)
    with Cons.prems(2) show ?thesis by simp
  next
    case (2 a c rows)
    with Cons.prems(2) show ?thesis by (simp add: store_ok_def aspas_ok_def)
  next
    case (3 a p c rows)
    moreover have "length rows = length (st_aspas st)" using 3 by (simp add: updateAspa_def)
    ultimately show ?thesis using Cons.prems(2) by (simp add: store_ok_def aspas_ok_def)
  qed
  from Cons.IH [OF rest] one show ?case by auto
qed simp

lemma upsertAspaBatch_spec:
  assumes "upsertAspaBatch norm vs st = Inr (st', res)" "store_ok st"
  shows "store_ok st' \<and> set (st_roas st') = set (st_roas st) \<and> a_serial res = cache_serial st' \<and>
    (if a_changed res > 0 then cache_serial st' = cache_serial st + 1 else st' = st)"
proof -
  obtain ins over ch st1 where b: "upsert_batch norm vs 0 0 0 st = Inr (ins, over, ch, st1)"
    using assms(1) by (auto simp: upsertAspaBatch_def bindE_Inr_iff)
  note s = upsert_batch_spec [OF b assms(2)]
  show ?thesis
  proof (cases "ch > 0")
    case True
    with assms(1) b have "st' = st1\<lparr>cache_serial := cache_serial st1 + 1\<rparr>" "a_changed res = ch"
      "a_serial res = cache_serial st1 + 1"
      by (auto simp: upsertAspaBatch_def bump_eq)
    with s True show ?thesis by simp
  next
    case False
    with assms(1) b have "st' = st1" "a_changed res = 0" "a_serial res = cache_serial st1"
      by (auto simp: upsertAspaBatch_def getCacheSerial_def)
    with s False assms(2) show ?thesis by simp
  qed
qed

lemma deleteAspa_spec:
  assumes "deleteAspa normC v st = Inr (st', res)" "store_ok st"
  shows "store_ok st' \<and> set (st_roas st') = set (st_roas st) \<and> a_serial res = cache_serial st' \<and>
    (case a_previous res of
       Some a \<Rightarrow> a_changed res = 1 \<and> a \<in> set (st_aspas st) \<and> set (st_aspas st') = set (st_aspas st) - {a} \<and>
          cache_serial st' = cache_serial st + 1
     | None \<Rightarrow> a_changed res = 0 \<and> st' = st)"
proof -
  from assms(1) obtain c where c: "normC v = Some c" by (auto simp: deleteAspa_def split: option.splits)
  show ?thesis
  proof (cases "getAspa c st")
    case None
    with assms c show ?thesis by (auto simp: deleteAspa_def getCacheSerial_def)
  next
    case (Some row)
    note row = getAspa_Some [OF Some]
    have d: "distinct (map customerAsn (st_aspas st))" using assms(2) by (simp add: store_ok_def)
    note f = distinct_filter_length [OF d conjunct1 [OF row]] distinct_filter_set [OF d conjunct1 [OF row]]
    define rows where "rows = filter (\<lambda>x. customerAsn x \<noteq> c) (st_aspas st)"
    have rows: "int (length rows) = int (length (st_aspas st)) - 1" "set rows = set (st_aspas st) - {row}"
      "distinct (map customerAsn rows)" "list_all aspa_check rows"
      using f row d assms(2)
      by (simp_all add: rows_def store_ok_def distinct_map_filter list_all_filter)
    have st': "st' = st\<lparr>st_aspas := rows, aspa_count := aspa_count st - 1, cache_serial := cache_serial st + 1\<rparr>"
      "a_previous res = Some row" "a_changed res = 1" "a_serial res = cache_serial st + 1"
      using assms(1) c Some by (simp_all add: deleteAspa_def bump_eq Let_def flip: rows_def) auto
    have "store_ok st'" using rows assms(2) by (simp add: st'(1) store_ok_def)
    with st' rows(2) row show ?thesis by simp
  qed
qed

lemma clearAspas_spec:
  assumes "clearAspas st = (st', res)" "store_ok st"
  shows "store_ok st' \<and> set (st_roas st') = set (st_roas st) \<and> a_serial res = cache_serial st' \<and>
    st_aspas st' = [] \<and> a_changed res = length (st_aspas st) \<and>
    cache_serial st' = cache_serial st + (if st_aspas st = [] then 0 else 1) \<and> (st_aspas st = [] \<longrightarrow> st' = st)"
proof (cases "st_aspas st")
  case Nil
  with assms show ?thesis by (auto simp: clearAspas_def store_ok_def getCacheSerial_def Let_def)
next
  case (Cons r rs)
  with assms(2) have "aspa_count st > 0" by (simp add: store_ok_def)
  with assms have "st' = st\<lparr>st_aspas := [], aspa_count := 0, cache_serial := cache_serial st + 1\<rparr>"
    "a_serial res = cache_serial st + 1" "a_changed res = nat (aspa_count st)"
    by (auto simp: clearAspas_def bump_eq Let_def)
  with assms(2) Cons show ?thesis by (simp add: store_ok_def)
qed

lemma stage_aspa_keys: "customerAsn ` set (stage_aspa a rows) = insert (customerAsn a) (customerAsn ` set rows)"
proof (cases "customerAsn a \<in> customerAsn ` set rows")
  case True
  have "customerAsn ` set (updateAspa a rows) = customerAsn ` set rows"
    using updateAspa_keys [of a rows] by (metis list.set_map)
  with True show ?thesis by (auto simp: stage_aspa_def)
qed (simp add: stage_aspa_def)

lemma stage_aspa_distinct: "distinct (map customerAsn rows) \<Longrightarrow> distinct (map customerAsn (stage_aspa a rows))"
  by (auto simp: stage_aspa_def updateAspa_keys)

lemma stage_aspa_ok: "aspas_ok rows \<Longrightarrow> aspa_check a \<Longrightarrow> aspas_ok (stage_aspa a rows)"
  by (auto simp: stage_aspa_def aspas_ok_def updateAspa_keys updateAspa_check)

lemma stage_aspa_length:
  "length (stage_aspa a rows) = length rows + (if customerAsn a \<in> customerAsn ` set rows then 0 else 1)"
  by (auto simp: stage_aspa_def updateAspa_def)

lemma fold_stage_aspa:
  "distinct (map customerAsn cs) \<Longrightarrow> aspas_ok rows \<Longrightarrow> list_all aspa_check cs \<Longrightarrow>
   aspas_ok (fold stage_aspa cs rows) \<and>
   length (fold stage_aspa cs rows) =
     length rows + length (filter (\<lambda>a. customerAsn a \<notin> customerAsn ` set rows) cs)"
proof (induction cs arbitrary: rows)
  case (Cons c cs)
  have "filter (\<lambda>a. customerAsn a \<notin> customerAsn ` set (stage_aspa c rows)) cs =
      filter (\<lambda>a. customerAsn a \<notin> customerAsn ` set rows) cs"
    using Cons.prems(1) unfolding stage_aspa_keys by (intro filter_cong) (auto, metis imageI)
  with Cons.IH [of "stage_aspa c rows"] Cons.prems show ?case
    by (simp add: stage_aspa_ok stage_aspa_length)
qed simp

lemma commitAspaImport_spec:
  assumes "commitAspaImport st = Inr (st', res)" "store_ok st"
  shows "store_ok st' \<and> set (st_roas st') = set (st_roas st) \<and> a_serial res = cache_serial st' \<and>
    (if a_changed res > 0 then cache_serial st' = cache_serial st + 1
     else cache_serial st' = cache_serial st \<and> st_roas st' = st_roas st \<and> st_aspas st' = st_aspas st)"
proof -
  define fresh where "fresh = filter (\<lambda>a. getAspa (customerAsn a) st = None) (aspa_stage st)"
  define chosen where "chosen = filter (\<lambda>a. getAspa (customerAsn a) st \<noteq> Some a) (aspa_stage st)"
  note defs = commitAspaImport_def Let_def fresh_def [symmetric] chosen_def [symmetric]
  have chk: "list_all aspa_check chosen"
    using assms(1) by (auto simp: defs split: if_splits)
  have "distinct (map customerAsn chosen)"
    using assms(2) by (simp add: chosen_def store_ok_def distinct_map_filter)
  moreover have "aspas_ok (st_aspas st)" using assms(2) by (simp add: store_ok_def aspas_ok_def)
  moreover have "fresh = filter (\<lambda>a. customerAsn a \<notin> customerAsn ` set (st_aspas st)) chosen"
    unfolding fresh_def chosen_def filter_filter by (rule filter_cong) (auto simp flip: getAspa_None)
  ultimately have f: "aspas_ok (fold stage_aspa chosen (st_aspas st))"
    "length (fold stage_aspa chosen (st_aspas st)) = length (st_aspas st) + length fresh"
    using fold_stage_aspa [of chosen "st_aspas st"] chk by simp_all
  show ?thesis
  proof (cases chosen)
    case Nil
    with assms chk show ?thesis by (auto simp: defs getCacheSerial_def store_ok_def)
  next
    case (Cons c cs)
    then have ch: "length chosen > 0" by simp
    have r: "st' = st\<lparr>st_aspas := fold stage_aspa chosen (st_aspas st), aspa_count := aspa_count st + int (length fresh),
          cache_serial := cache_serial st + 1, aspa_stage := []\<rparr>"
      "a_changed res = length chosen" "a_serial res = cache_serial st + 1"
      using assms(1) chk ch by (auto simp: defs bump_eq)
    have "store_ok st'" using f assms(2) unfolding r(1) by (simp add: store_ok_def aspas_ok_def)
    with r ch show ?thesis by simp
  qed
qed

lemma fold_stage_aspa_distinct:
  "distinct (map customerAsn rows) \<Longrightarrow> distinct (map customerAsn (fold stage_aspa as rows))"
  by (induction as arbitrary: rows) (simp_all add: stage_aspa_distinct)

lemma fold_stage_roa_distinct:
  "distinct (map roaParameters rows) \<Longrightarrow> distinct (map roaParameters (fold stage_roa rs rows))"
  by (induction rs arbitrary: rows) (auto simp: stage_roa_def)

lemma stage_ok:
  "store_ok st \<Longrightarrow> stageRoaBatch norm vs st = Inr st' \<Longrightarrow> store_ok st'"
  "store_ok st \<Longrightarrow> stageAspaBatch norm' vs' st = Inr st' \<Longrightarrow> store_ok st'"
  "store_ok st \<Longrightarrow> store_ok (beginRoaImport st)" "store_ok st \<Longrightarrow> store_ok (beginAspaImport st)"
  by (auto simp: stageRoaBatch_def stageAspaBatch_def beginRoaImport_def beginAspaImport_def bindE_Inr_iff
      store_ok_def fold_stage_roa_distinct fold_stage_aspa_distinct)

lemma store_ok_init: "store_ok initializeSchema"
  by (simp add: store_ok_def initializeSchema_def)

section \<open>Pages and batches\<close>

lemma positiveInteger_pos: "0 < fallback \<Longrightarrow> (\<And>m. maximum = Some m \<Longrightarrow> 0 < m) \<Longrightarrow> 0 < positiveInteger v fallback maximum"
  by (auto simp: positiveInteger_def split: option.splits)

lemma batches_concat: "concat (batches n batch rs) = batch @ rs"
  by (induction n batch rs rule: batches.induct) (auto simp: Let_def)

lemma batches_sizes: "0 < n \<Longrightarrow> length batch < n \<Longrightarrow> \<forall>b\<in>set (batches n batch rs). b \<noteq> [] \<and> length b \<le> n"
  by (induction n batch rs rule: batches.induct) (auto simp: Let_def)

lemma pages_concat: "0 < n \<Longrightarrow> concat (map (\<lambda>k. limit_offset n (k * n) rows) [0..<p]) = take (p * n) rows"
proof (induction p)
  case (Suc p)
  then show ?case by (simp add: limit_offset_def take_add [of "p * n" n] add.commute [of n])
qed simp

section \<open>The contract of the database\<close>

text \<open>Abstractly: a finite map from ROA keys, a finite map from customer numbers, a serial.\<close>

record abs_store =
  abs_roas :: "roa_key \<rightharpoonup> roa"
  abs_aspas :: "nat \<rightharpoonup> aspa"
  abs_serial :: "32 word"

definition abs_of :: "rpki_store \<Rightarrow> abs_store" where
  "abs_of st = \<lparr>abs_roas = (\<lambda>k. getRoa k st), abs_aspas = (\<lambda>c. getAspa c st), abs_serial = cache_serial st\<rparr>"

datatype store_call = AddRoaCall roa | DeleteRoaCall roa | ClearRoasCall | UpsertAspaCall aspa | DeleteAspaCall nat
  | ClearAspasCall

fun run_call :: "store_call \<Rightarrow> rpki_store \<Rightarrow> js_error + rpki_store" where
  "run_call (AddRoaCall r) st = map_sum id fst (addRoa Some r st)"
| "run_call (DeleteRoaCall r) st = map_sum id fst (deleteRoa Some r st)"
| "run_call ClearRoasCall st = Inr (fst (clearRoas st))"
| "run_call (UpsertAspaCall a) st = map_sum id fst (upsertAspa Some a st)"
| "run_call (DeleteAspaCall c) st = map_sum id fst (deleteAspa Some c st)"
| "run_call ClearAspasCall st = Inr (fst (clearAspas st))"

definition put_roas :: "(roa_key \<rightharpoonup> roa) \<Rightarrow> abs_store \<Rightarrow> abs_store" where
  "put_roas m s = (if m = abs_roas s then s else s\<lparr>abs_roas := m, abs_serial := abs_serial s + 1\<rparr>)"

definition put_aspas :: "(nat \<rightharpoonup> aspa) \<Rightarrow> abs_store \<Rightarrow> abs_store" where
  "put_aspas m s = (if m = abs_aspas s then s else s\<lparr>abs_aspas := m, abs_serial := abs_serial s + 1\<rparr>)"

fun spec_call :: "store_call \<Rightarrow> abs_store \<Rightarrow> js_error + abs_store" where
  "spec_call (AddRoaCall r) s = Inr (if roaParameters r \<in> dom (abs_roas s) \<or> \<not> roa_check r then s
     else put_roas ((abs_roas s)(roaParameters r \<mapsto> r)) s)"
| "spec_call (DeleteRoaCall r) s = Inr (put_roas ((abs_roas s)(roaParameters r := None)) s)"
| "spec_call ClearRoasCall s = Inr (put_roas Map.empty s)"
| "spec_call (UpsertAspaCall a) s =
     (if abs_aspas s (customerAsn a) = Some a then Inr s
      else if \<not> aspa_check a then Inl JsError
      else Inr (put_aspas ((abs_aspas s)(customerAsn a \<mapsto> a)) s))"
| "spec_call (DeleteAspaCall c) s = Inr (put_aspas ((abs_aspas s)(c := None)) s)"
| "spec_call ClearAspasCall s = Inr (put_aspas Map.empty s)"

lemma find_append: "find P (xs @ ys) = (case find P xs of None \<Rightarrow> find P ys | Some x \<Rightarrow> Some x)"
  by (induction xs) auto

lemma find_key_filter: "find (\<lambda>x. f x = k) (filter (\<lambda>x. f x \<noteq> k') xs) = (if k = k' then None else find (\<lambda>x. f x = k) xs)"
  by (induction xs) auto

lemma find_update: "find (\<lambda>x. customerAsn x = c) (updateAspa a xs) =
  (if c = customerAsn a \<and> c \<in> customerAsn ` set xs then Some a else find (\<lambda>x. customerAsn x = c) xs)"
  by (induction xs) (auto simp: updateAspa_def)

lemma abs_addRoa: "map_sum id abs_of (run_call (AddRoaCall r) st) = spec_call (AddRoaCall r) (abs_of st)"
proof (cases "roaParameters r \<in> roaParameters ` set (st_roas st) \<or> \<not> roa_check r")
  case True
  then have "roaParameters r \<in> dom (abs_roas (abs_of st)) \<or> \<not> roa_check r"
    using getRoa_None [of "roaParameters r" st] by (auto simp: abs_of_def dom_def)
  then show ?thesis using True by (simp add: addRoa_def insertRoa_def insert_ignore_def getCacheSerial_def)
next
  case False
  then have n: "getRoa (roaParameters r) st = None" using getRoa_None by auto
  have m: "(\<lambda>k. find (\<lambda>x. roaParameters x = k) (st_roas st @ [r])) =
    (\<lambda>k. find (\<lambda>x. roaParameters x = k) (st_roas st))(roaParameters r \<mapsto> r)"
    using n by (auto simp: fun_eq_iff find_append getRoa_def split: option.splits)
  have "(\<lambda>k. getRoa k st)(roaParameters r \<mapsto> r) \<noteq> (\<lambda>k. getRoa k st)"
    using n by (metis fun_upd_same option.distinct(1))
  then show ?thesis
    using False n m by (simp add: addRoa_def insertRoa_def insert_ignore_def bump_eq abs_of_def put_roas_def
        getRoa_def getAspa_def domIff)
qed

lemma abs_deleteRoa: "map_sum id abs_of (run_call (DeleteRoaCall r) st) = spec_call (DeleteRoaCall r) (abs_of st)"
proof (cases "getRoa (roaParameters r) st")
  case None
  then have "(\<lambda>k. getRoa k st)(roaParameters r := None) = (\<lambda>k. getRoa k st)" by auto
  then show ?thesis using None by (simp add: deleteRoa_def abs_of_def put_roas_def)
next
  case (Some x)
  have m: "(\<lambda>k. find (\<lambda>x. roaParameters x = k) (filter (\<lambda>x. roaParameters x \<noteq> roaParameters r) (st_roas st))) =
    (\<lambda>k. find (\<lambda>x. roaParameters x = k) (st_roas st))(roaParameters r := None)"
    by (auto simp: fun_eq_iff find_key_filter)
  have "(\<lambda>k. getRoa k st)(roaParameters r := None) \<noteq> (\<lambda>k. getRoa k st)"
    using Some by (metis fun_upd_same option.distinct(1))
  then show ?thesis
    using Some m by (simp add: deleteRoa_def bump_eq abs_of_def put_roas_def getAspa_def) (simp add: getRoa_def)
qed

lemma abs_clearRoas:
  "store_ok st \<Longrightarrow> map_sum id abs_of (run_call ClearRoasCall st) = spec_call ClearRoasCall (abs_of st)"
proof (cases "st_roas st")
  case Nil
  assume "store_ok st"
  then show ?thesis using Nil by (simp add: clearRoas_def store_ok_def getCacheSerial_def abs_of_def put_roas_def getRoa_def)
next
  case (Cons r rs)
  assume "store_ok st"
  have "find (\<lambda>x. roaParameters x = roaParameters r) (r # rs) = Some r" by simp
  then have "Map.empty \<noteq> (\<lambda>k. find (\<lambda>x. roaParameters x = k) (r # rs))" by (metis option.distinct(1))
  then show ?thesis using Cons \<open>store_ok st\<close>
    by (simp add: clearRoas_def store_ok_def bump_eq abs_of_def put_roas_def getRoa_def getAspa_def)
qed

lemma abs_upsertAspa: "map_sum id abs_of (run_call (UpsertAspaCall a) st) = spec_call (UpsertAspaCall a) (abs_of st)"
proof (cases "getAspa (customerAsn a) st = Some a")
  case True
  then show ?thesis by (simp add: upsertAspa_def upsertAspaInTransaction_def abs_of_def Let_def)
next
  case False
  have "(\<lambda>c. getAspa c st)(customerAsn a \<mapsto> a) \<noteq> (\<lambda>c. getAspa c st)"
    using False by (metis fun_upd_same)
  then have ne: "(\<lambda>c. find (\<lambda>x. customerAsn x = c) (st_aspas st))(customerAsn a \<mapsto> a) \<noteq>
    (\<lambda>c. find (\<lambda>x. customerAsn x = c) (st_aspas st))" by (simp add: getAspa_def)
  show ?thesis
  proof (cases "getAspa (customerAsn a) st")
    case None
    then have "(\<lambda>c. find (\<lambda>x. customerAsn x = c) (st_aspas st @ [a])) =
      (\<lambda>c. find (\<lambda>x. customerAsn x = c) (st_aspas st))(customerAsn a \<mapsto> a)"
      by (auto simp: fun_eq_iff find_append getAspa_def split: option.splits)
    then show ?thesis using None ne
      by (simp add: upsertAspa_def upsertAspaInTransaction_def abs_of_def put_aspas_def bump_eq Let_def getRoa_def)
        (simp add: getAspa_def)
  next
    case (Some p)
    then have "customerAsn a \<in> customerAsn ` set (st_aspas st)"
      using getAspa_None [of "customerAsn a" st] by auto
    then have "(\<lambda>c. find (\<lambda>x. customerAsn x = c) (updateAspa a (st_aspas st))) =
      (\<lambda>c. find (\<lambda>x. customerAsn x = c) (st_aspas st))(customerAsn a \<mapsto> a)"
      by (auto simp: fun_eq_iff find_update)
    then show ?thesis using Some False ne
      by (simp add: upsertAspa_def upsertAspaInTransaction_def abs_of_def put_aspas_def bump_eq Let_def getRoa_def)
        (simp add: getAspa_def)
  qed
qed

lemma abs_deleteAspa: "map_sum id abs_of (run_call (DeleteAspaCall c) st) = spec_call (DeleteAspaCall c) (abs_of st)"
proof (cases "getAspa c st")
  case None
  then have "(\<lambda>c. getAspa c st)(c := None) = (\<lambda>c. getAspa c st)" by auto
  then show ?thesis using None by (simp add: deleteAspa_def abs_of_def put_aspas_def)
next
  case (Some x)
  have m: "(\<lambda>k. find (\<lambda>x. customerAsn x = k) (filter (\<lambda>x. customerAsn x \<noteq> c) (st_aspas st))) =
    (\<lambda>k. find (\<lambda>x. customerAsn x = k) (st_aspas st))(c := None)"
    by (auto simp: fun_eq_iff find_key_filter)
  have "(\<lambda>c. getAspa c st)(c := None) \<noteq> (\<lambda>c. getAspa c st)"
    using Some by (metis fun_upd_same option.distinct(1))
  then show ?thesis
    using Some m by (simp add: deleteAspa_def bump_eq abs_of_def put_aspas_def getRoa_def) (simp add: getAspa_def)
qed

lemma abs_clearAspas:
  "store_ok st \<Longrightarrow> map_sum id abs_of (run_call ClearAspasCall st) = spec_call ClearAspasCall (abs_of st)"
proof (cases "st_aspas st")
  case Nil
  assume "store_ok st"
  then show ?thesis using Nil by (simp add: clearAspas_def store_ok_def getCacheSerial_def abs_of_def put_aspas_def getAspa_def)
next
  case (Cons r rs)
  assume "store_ok st"
  have "find (\<lambda>x. customerAsn x = customerAsn r) (r # rs) = Some r" by simp
  then have "Map.empty \<noteq> (\<lambda>k. find (\<lambda>x. customerAsn x = k) (r # rs))" by (metis option.distinct(1))
  then show ?thesis using Cons \<open>store_ok st\<close>
    by (simp add: clearAspas_def store_ok_def bump_eq abs_of_def put_aspas_def getRoa_def getAspa_def)
qed

lemma run_call_ok: "store_ok st \<Longrightarrow> run_call c st = Inr st' \<Longrightarrow> store_ok st'"
proof (cases c)
  case ClearRoasCall
  then show "store_ok st \<Longrightarrow> run_call c st = Inr st' \<Longrightarrow> store_ok st'"
    using clearRoas_spec [of st "fst (clearRoas st)" "snd (clearRoas st)"] by auto
next
  case ClearAspasCall
  then show "store_ok st \<Longrightarrow> run_call c st = Inr st' \<Longrightarrow> store_ok st'"
    using clearAspas_spec [of st "fst (clearAspas st)" "snd (clearAspas st)"] by auto
qed (auto simp: map_sum_def split: sum.splits dest: addRoa_spec deleteRoa_spec upsertAspa_spec deleteAspa_spec)


definition demo_row :: roa where
  "demo_row = \<lparr>roa_ipType = 1, roa_asn = 64500, roa_ip = ''10.0.0.0'', roa_mask = 8, roa_maxLength = 24\<rparr>"


section \<open>Paging\<close>

lemma page_items:
  "items (queryRoaPage cond (Some (int (Suc k))) sz st) =
   limit_offset (positiveInteger sz 20 (Some 1000)) (k * positiveInteger sz 20 (Some 1000)) (filter cond (st_roas st))"
proof -
  have "positiveInteger (Some (int (Suc k))) 1 None = Suc k" by (simp add: positiveInteger_def)
  then show ?thesis by (simp add: queryRoaPage_def Let_def del: of_nat_Suc One_nat_def)
qed

text \<open>C36. Paging loses and repeats nothing.  The pages of a ROA query up to a page number, one after
  the other, are the matching rows up to there in the order of the table; no page exceeds its
  size; and enough pages give all matching rows, whose number each page reports.  The
  batches of the iterator give exactly the table, and none is empty or larger than
  asked.\<close>

theorem rpki_paging:
  "(let sz = positiveInteger s 20 (Some 1000); rows = filter cond (st_roas st);
        pages = (\<lambda>p. map (\<lambda>k. queryRoaPage cond (Some (int (Suc k))) s st) [0..<p]) in
     concat (map items (pages p)) = take (p * sz) rows \<and>
     concat (map items (pages (length rows))) = rows \<and>
     list_all (\<lambda>pg. length (items pg) \<le> sz \<and> total pg = length rows) (pages p)) \<and>
   concat (iterateRoaBatches n st) = st_roas st \<and>
   list_all (\<lambda>b. b \<noteq> [] \<and> length b \<le> positiveInteger n 2000 (Some 10000)) (iterateRoaBatches n st)"
proof -
  define sz where "sz = positiveInteger s 20 (Some 1000)"
  define rows where "rows = filter cond (st_roas st)"
  have sz: "0 < sz" unfolding sz_def by (rule positiveInteger_pos) auto
  have pages: "concat (map items (map (\<lambda>k. queryRoaPage cond (Some (int (Suc k))) s st) [0..<q])) = take (q * sz) rows" for q
    using pages_concat [OF sz, of rows q] unfolding map_map comp_def page_items sz_def [symmetric] rows_def [symmetric] .
  have "length rows \<le> length rows * sz" using sz by simp
  then have all: "take (length rows * sz) rows = rows" by simp
  have each: "length (items (queryRoaPage cond (Some (int (Suc k))) s st)) \<le> sz \<and>
    total (queryRoaPage cond (Some (int (Suc k))) s st) = length rows" for k
    unfolding page_items sz_def [symmetric] rows_def [symmetric]
    by (simp add: limit_offset_def queryRoaPage_def Let_def rows_def)
  have n: "0 < positiveInteger n 2000 (Some 10000)" by (rule positiveInteger_pos) auto
  have "\<forall>b\<in>set (batches (positiveInteger n 2000 (Some 10000)) [] (st_roas st)).
    b \<noteq> [] \<and> length b \<le> positiveInteger n 2000 (Some 10000)" by (rule batches_sizes) (simp_all add: n)
  then show ?thesis
    using pages each all
    by (simp only: Let_def sz_def [symmetric] rows_def [symmetric] iterateRoaBatches_def batches_concat list_all_iff
        set_map ball_simps append_Nil) simp
qed

end
