(* ===== verification/Rpki_Import.thy ===== *)
theory Rpki_Import
  imports Rpki_Store
begin

text \<open>
  The import of a JSON file of ROAs or ASPAs into the RPKI database
  (\<open>rpkiImportTask.js\<close>): the objects that the parser of the file delivers are collected
  into batches, each batch is staged in one transaction, and the staging table is
  committed at the end.  The argument \<open>vs\<close> is the sequence of objects the parser
  would deliver; the callback can stop the parser early, when the limit is reached.

  The batches are an optimisation, and so is stopping early: the lemmas show that the database
  ends up as if all the objects had been staged at once.
\<close>

definition DEFAULT_BATCH_SIZE :: nat where "DEFAULT_BATCH_SIZE = 5000"
definition MAX_BATCH_SIZE :: nat where "MAX_BATCH_SIZE = 100000"

text \<open>A limit is the fraction \<open>p / q\<close> that \<open>Number\<close> gives, or \<open>None\<close> when that is
  not finite.\<close>

type_synonym fraction = "int \<times> nat"

definition normalizeImportLimit :: "fraction option \<Rightarrow> nat option" where
  "normalizeImportLimit limit = (case limit of
      None \<Rightarrow> None
    | Some (p, q) \<Rightarrow> if p > 0 then Some (nat (p div int q)) else None)"

definition normalizeBatchSize :: "int option \<Rightarrow> nat" where
  "normalizeBatchSize batchSize = (case batchSize of
      None \<Rightarrow> DEFAULT_BATCH_SIZE
    | Some n \<Rightarrow> if n < 1 then DEFAULT_BATCH_SIZE else min (nat n) MAX_BATCH_SIZE)"

text \<open>A limit of zero is falsy, hence the same as no limit in the callback.\<close>

definition reached :: "nat option \<Rightarrow> nat \<Rightarrow> bool" where
  "reached limit n = (case limit of None \<Rightarrow> False | Some m \<Rightarrow> m \<noteq> 0 \<and> n \<ge> m)"

definition has_limit :: "nat option \<Rightarrow> bool" where
  "has_limit limit = (case limit of None \<Rightarrow> False | Some m \<Rightarrow> m \<noteq> 0)"

section \<open>ROAs\<close>

text \<open>\<open>flush\<close> of \<open>importRoaJson\<close>: the new store and number of candidates.\<close>

definition flush_roas :: "('v \<Rightarrow> roa option) \<Rightarrow> nat option \<Rightarrow> 'v list \<Rightarrow> nat \<Rightarrow> rpki_store
    \<Rightarrow> js_error + rpki_store \<times> nat" where
  "flush_roas norm limit batch cands st =
     (if batch = [] then Inr (st, cands)
      else bindE (stageRoaBatch norm batch st) (\<lambda>st1.
        Inr (st1, if has_limit limit then length (roa_candidates st1) else cands)))"

text \<open>The parser calls the callback for each object until it returns \<open>false\<close>.\<close>

fun parse_roas :: "('v \<Rightarrow> roa option) \<Rightarrow> nat option \<Rightarrow> nat \<Rightarrow> 'v list \<Rightarrow> 'v list \<Rightarrow> nat \<Rightarrow> rpki_store
    \<Rightarrow> js_error + rpki_store \<times> 'v list \<times> nat" where
  "parse_roas norm limit sz [] batch cands st = Inr (st, batch, cands)"
| "parse_roas norm limit sz (v # vs) batch cands st =
     (if length (batch @ [v]) \<ge> sz
      then bindE (flush_roas norm limit (batch @ [v]) cands st) (\<lambda>(st1, cands1).
        if reached limit cands1 then Inr (st1, [], cands1) else parse_roas norm limit sz vs [] cands1 st1)
      else if reached limit cands then Inr (st, batch @ [v], cands)
      else parse_roas norm limit sz vs (batch @ [v]) cands st)"

definition importRoaJson :: "('v \<Rightarrow> roa option) \<Rightarrow> fraction option \<Rightarrow> int option \<Rightarrow> 'v list \<Rightarrow> rpki_store
    \<Rightarrow> js_error + rpki_store \<times> roa_result" where
  "importRoaJson norm lim batchSize vs st =
     (let limit = normalizeImportLimit lim; sz = normalizeBatchSize batchSize in
      bindE (parse_roas norm limit sz vs [] 0 (beginRoaImport st)) (\<lambda>(st1, batch, cands).
      bindE (flush_roas norm limit batch cands st1) (\<lambda>(st2, _). commitRoaImport limit st2)))"

section \<open>ASPAs\<close>

definition flush_aspas :: "('v \<Rightarrow> aspa option) \<Rightarrow> 'v list \<Rightarrow> rpki_store \<Rightarrow> js_error + rpki_store" where
  "flush_aspas norm batch st = (if batch = [] then Inr st else stageAspaBatch norm batch st)"

fun parse_aspas :: "('v \<Rightarrow> aspa option) \<Rightarrow> nat option \<Rightarrow> nat \<Rightarrow> 'v list \<Rightarrow> 'v list \<Rightarrow> nat \<Rightarrow> rpki_store
    \<Rightarrow> js_error + rpki_store \<times> 'v list" where
  "parse_aspas norm limit sz [] batch parsed st = Inr (st, batch)"
| "parse_aspas norm limit sz (v # vs) batch parsed st =
     (if length (batch @ [v]) \<ge> sz \<or> reached limit (parsed + 1)
      then bindE (flush_aspas norm (batch @ [v]) st) (\<lambda>st1.
        if reached limit (parsed + 1) then Inr (st1, []) else parse_aspas norm limit sz vs [] (parsed + 1) st1)
      else parse_aspas norm limit sz vs (batch @ [v]) (parsed + 1) st)"

definition importAspaJson :: "('v \<Rightarrow> aspa option) \<Rightarrow> fraction option \<Rightarrow> int option \<Rightarrow> 'v list \<Rightarrow> rpki_store
    \<Rightarrow> js_error + rpki_store \<times> aspa_result" where
  "importAspaJson norm lim batchSize vs st =
     (let limit = normalizeImportLimit lim; sz = normalizeBatchSize batchSize in
      bindE (parse_aspas norm limit sz vs [] 0 (beginAspaImport st)) (\<lambda>(st1, batch).
      bindE (flush_aspas norm batch st1) commitAspaImport))"

section \<open>Staging in batches\<close>

lemma flush_aspas_eq: "flush_aspas norm batch st = stageAspaBatch norm batch st"
  by (simp add: flush_aspas_def stageAspaBatch_def)

lemma mapE_append: "mapE f (xs @ ys) = bindE (mapE f xs) (\<lambda>as. bindE (mapE f ys) (\<lambda>bs. Inr (as @ bs)))"
  by (induction xs) (auto simp: bindE_def split: sum.splits)

lemma mapE_error: "(\<And>x e. f x = Inl e \<Longrightarrow> e = d) \<Longrightarrow> mapE f xs = Inl e \<Longrightarrow> e = d"
  by (induction xs) (auto simp: bindE_def split: sum.splits)

lemma stageAspaBatch_append:
  "stageAspaBatch norm (xs @ ys) st = bindE (stageAspaBatch norm xs st) (stageAspaBatch norm ys)"
proof -
  define f where "f = (\<lambda>v. case norm v of None \<Rightarrow> Inl JsError | Some a \<Rightarrow> Inr a)"
  show ?thesis
    unfolding stageAspaBatch_def f_def [symmetric] mapE_append
    by (cases "mapE f xs"; cases "mapE f ys") auto
qed

lemma stageRoaBatch_append:
  "stageRoaBatch norm (xs @ ys) st = bindE (stageRoaBatch norm xs st) (stageRoaBatch norm ys)"
proof -
  define f where "f = (\<lambda>v. case norm v of None \<Rightarrow> Inl JsError | Some a \<Rightarrow> Inr a)"
  show ?thesis
    unfolding stageRoaBatch_def f_def [symmetric] mapE_append
    by (cases "mapE f xs"; cases "mapE f ys") auto
qed

lemma bindE_assoc: "bindE (bindE r f) g = bindE r (\<lambda>x. bindE (f x) g)"
  by (cases r) auto

definition limited :: "nat option \<Rightarrow> nat \<Rightarrow> 'v list \<Rightarrow> 'v list" where
  "limited limit parsed vs = (if has_limit limit then take (the limit - parsed) vs else vs)"

lemma limited_Nil: "limited limit parsed [] = []"
  by (simp add: limited_def)

lemma limited_Cons:
  assumes "\<not> reached limit parsed"
  shows "limited limit parsed (v # vs) = v # limited limit (parsed + 1) vs"
  using assms by (cases limit) (auto simp: limited_def has_limit_def reached_def take_Cons')

lemma limited_stop: "reached limit parsed \<Longrightarrow> limited limit parsed vs = []"
  by (cases limit) (auto simp: limited_def has_limit_def reached_def)

lemma parse_aspas_staged:
  assumes "\<not> reached limit parsed"
  shows "bindE (parse_aspas norm limit sz vs batch parsed st) (\<lambda>(st1, b). stageAspaBatch norm b st1) =
    stageAspaBatch norm (batch @ limited limit parsed vs) st"
  using assms
proof (induction vs arbitrary: batch parsed st)
  case Nil
  then show ?case by (simp add: limited_Nil)
next
  case (Cons v vs)
  have eq: "batch @ limited limit parsed (v # vs) = (batch @ [v]) @ limited limit (parsed + 1) vs"
    using limited_Cons [OF Cons.prems] by simp
  show ?case
  proof (cases "reached limit (parsed + 1)")
    case True
    then show ?thesis
      by (simp add: eq limited_stop flush_aspas_eq bindE_assoc) (simp add: stageAspaBatch_def bindE_def split: sum.splits)
  next
    case False
    then show ?thesis
      using Cons.IH [OF False] by (simp add: eq flush_aspas_eq bindE_assoc stageAspaBatch_append [of norm "batch @ [v]"] del: append_assoc)
  qed
qed

definition normal :: "('v \<Rightarrow> roa option) \<Rightarrow> 'v list \<Rightarrow> bool" where
  "normal norm vs = list_all (\<lambda>v. norm v \<noteq> None) vs"

definition staged :: "('v \<Rightarrow> roa option) \<Rightarrow> 'v list \<Rightarrow> rpki_store \<Rightarrow> rpki_store" where
  "staged norm vs st = st\<lparr>roa_stage := fold stage_roa (map (the \<circ> norm) vs) (roa_stage st)\<rparr>"

lemma normal_append [simp]: "normal norm (xs @ ys) \<longleftrightarrow> normal norm xs \<and> normal norm ys"
  "normal norm []" "normal norm (v # vs) \<longleftrightarrow> norm v \<noteq> None \<and> normal norm vs"
  by (auto simp: normal_def)

lemma stage_normal: "normal norm vs \<Longrightarrow> stageRoaBatch norm vs st = Inr (staged norm vs st)"
proof -
  assume n: "normal norm vs"
  have "mapE (\<lambda>v. case norm v of None \<Rightarrow> Inl JsError | Some r \<Rightarrow> Inr r) vs = Inr (map (the \<circ> norm) vs)"
    using n by (induction vs) auto
  then show ?thesis by (simp add: stageRoaBatch_def staged_def)
qed

lemma staged_append: "staged norm (xs @ ys) st = staged norm ys (staged norm xs st)" "staged norm [] st = st"
  by (simp_all add: staged_def)

lemma fold_stage_extends: "\<exists>ext. fold stage_roa rs rows = rows @ ext"
proof (induction rs arbitrary: rows)
  case (Cons r rs)
  have "\<exists>m1. stage_roa r rows = rows @ m1" by (simp add: stage_roa_def)
  then obtain m1 where "stage_roa r rows = rows @ m1" ..
  then show ?case using Cons.IH [of "rows @ m1"] by auto
qed simp

lemma staged_extends: "\<exists>ext. staged norm vs st = st\<lparr>roa_stage := roa_stage st @ ext\<rparr>"
  using fold_stage_extends [of "map (the \<circ> norm) vs" "roa_stage st"] by (auto simp: staged_def)

lemma candidates_extend:
  "roa_candidates (st\<lparr>roa_stage := roa_stage st @ ext\<rparr>) =
   roa_candidates st @ filter (\<lambda>r. roaParameters r \<notin> roaParameters ` set (st_roas st)) ext"
  by (simp add: roa_candidates_def)

lemma candidates_mono: "length (roa_candidates st) \<le> length (roa_candidates (staged norm vs st))"
  using staged_extends [of norm vs st] candidates_extend [of st] by auto

lemma reached_mono: "reached limit a \<Longrightarrow> a \<le> b \<Longrightarrow> reached limit b"
  by (auto simp: reached_def split: option.splits)

lemma flush_normal:
  assumes "normal norm batch"
  shows "\<exists>c. flush_roas norm limit batch cands st = Inr (staged norm batch st, c) \<and>
    (cands \<le> length (roa_candidates st) \<longrightarrow> c \<le> length (roa_candidates (staged norm batch st)))"
  using assms candidates_mono [of st norm batch]
  by (auto simp: flush_roas_def stage_normal staged_append)

text \<open>Where the parser stops before the end, the staging table already holds enough candidates.\<close>

lemma parse_roas_staged:
  assumes "normal norm (batch @ vs)" "cands \<le> length (roa_candidates st)"
  shows "\<exists>st1 b c before rest. parse_roas norm limit sz vs batch cands st = Inr (st1, b, c) \<and> normal norm b \<and>
    batch @ vs = before @ rest \<and> staged norm b st1 = staged norm before st \<and>
    (rest = [] \<or> reached limit (length (roa_candidates (staged norm before st))))"
  using assms
proof (induction vs arbitrary: batch cands st)
  case Nil
  then show ?case by auto
next
  case (Cons v vs)
  let ?b = "batch @ [v]"
  have n: "normal norm ?b" "normal norm vs" using Cons.prems(1) by auto
  obtain c where f: "flush_roas norm limit ?b cands st = Inr (staged norm ?b st, c)"
    and c: "c \<le> length (roa_candidates (staged norm ?b st))"
    using flush_normal [OF n(1), of limit cands st] Cons.prems(2) by auto
  show ?case
  proof (cases "sz \<le> length ?b")
    case full: True
    show ?thesis
    proof (cases "reached limit c")
      case True
      then have "reached limit (length (roa_candidates (staged norm ?b st)))" by (rule reached_mono [OF _ c])
      moreover have "parse_roas norm limit sz (v # vs) batch cands st = Inr (staged norm ?b st, [], c)"
        using full f True by simp
      ultimately show ?thesis
        by (intro exI [of _ "staged norm ?b st"] exI [of _ "[]"] exI [of _ c] exI [of _ ?b] exI [of _ vs])
          (simp add: staged_append)
    next
      case False
      obtain st1 b c1 before rest where ih: "parse_roas norm limit sz vs [] c (staged norm ?b st) = Inr (st1, b, c1)"
        "normal norm b" "vs = before @ rest" "staged norm b st1 = staged norm before (staged norm ?b st)"
        "rest = [] \<or> reached limit (length (roa_candidates (staged norm before (staged norm ?b st))))"
        using Cons.IH [of "[]" c "staged norm ?b st", OF _ c] n(2) unfolding append_Nil by blast
      have "parse_roas norm limit sz (v # vs) batch cands st = Inr (st1, b, c1)"
        using full f False ih(1) by simp
      moreover have "batch @ v # vs = (?b @ before) @ rest" using ih(3) by simp
      moreover have "staged norm b st1 = staged norm (?b @ before) st"
        "rest = [] \<or> reached limit (length (roa_candidates (staged norm (?b @ before) st)))"
        using ih(4,5) unfolding staged_append(1) [of norm ?b before] by simp_all
      ultimately show ?thesis using ih(2) by blast
    qed
  next
    case part: False
    show ?thesis
    proof (cases "reached limit cands")
      case True
      then have "reached limit (length (roa_candidates (staged norm ?b st)))"
        using reached_mono Cons.prems(2) candidates_mono order_trans by metis
      then show ?thesis
        using part True n by (intro exI [of _ st] exI [of _ ?b] exI [of _ cands] exI [of _ ?b] exI [of _ vs]) simp
    next
      case False
      then show ?thesis
        using part Cons.IH [of ?b cands st] Cons.prems by simp
    qed
  qed
qed

definition import_outcome :: "js_error + rpki_store \<times> roa_result \<Rightarrow> js_error + rpki_store \<times> nat \<times> int \<times> 32 word" where
  "import_outcome = map_sum id (\<lambda>(st, r). (st, r_changed r, r_total r, r_serial r))"

lemma commit_prefix:
  assumes "reached limit (length (roa_candidates st))"
  shows "import_outcome (commitRoaImport limit (st\<lparr>roa_stage := roa_stage st @ ext\<rparr>)) =
    import_outcome (commitRoaImport limit st)"
proof -
  obtain m where m: "limit = Some m" "m \<le> length (roa_candidates st)"
    using assms by (auto simp: reached_def split: option.splits)
  define cs where "cs = take m (roa_candidates st)"
  have "take m (roa_candidates (st\<lparr>roa_stage := roa_stage st @ ext\<rparr>)) = cs"
    using m(2) by (simp add: candidates_extend cs_def)
  then show ?thesis
    by (simp add: commitRoaImport_def m(1) cs_def [symmetric] bump_eq getCacheSerial_def import_outcome_def Let_def)
qed

lemma import_roas_normal:
  assumes "normal norm vs"
  shows "import_outcome (importRoaJson norm lim bs vs st) =
    import_outcome (commitRoaImport (normalizeImportLimit lim) (staged norm vs (beginRoaImport st)))"
proof -
  let ?l = "normalizeImportLimit lim" and ?s = "beginRoaImport st"
  obtain st1 b c before rest where p: "parse_roas norm ?l (normalizeBatchSize bs) vs [] 0 ?s = Inr (st1, b, c)"
    "normal norm b" "vs = before @ rest" "staged norm b st1 = staged norm before ?s"
    "rest = [] \<or> reached ?l (length (roa_candidates (staged norm before ?s)))"
    using parse_roas_staged [of norm "[]" vs 0 ?s ?l "normalizeBatchSize bs"] assms
    unfolding append_Nil by blast
  obtain d where "flush_roas norm ?l b c st1 = Inr (staged norm b st1, d)"
    using flush_normal [OF p(2)] by blast
  then have i: "importRoaJson norm lim bs vs st = commitRoaImport ?l (staged norm before ?s)"
    using p(1,4) by (simp add: importRoaJson_def Let_def)
  show ?thesis
  proof (cases "rest = []")
    case False
    obtain ext where "staged norm vs ?s = (staged norm before ?s)\<lparr>roa_stage := roa_stage (staged norm before ?s) @ ext\<rparr>"
      using staged_extends [of norm rest "staged norm before ?s"] p(3) by (auto simp: staged_append)
    then show ?thesis using i commit_prefix [of ?l "staged norm before ?s" ext] False p(5) by simp
  qed (use i p(3) in simp)
qed

lemma import_aspas_eq:
  "importAspaJson norm lim bs vs st =
   bindE (stageAspaBatch norm (limited (normalizeImportLimit lim) 0 vs) (beginAspaImport st)) commitAspaImport"
proof -
  have "\<not> reached (normalizeImportLimit lim) 0" by (auto simp: reached_def split: option.splits)
  from parse_aspas_staged [OF this, of norm "normalizeBatchSize bs" vs "[]" "beginAspaImport st"]
  have eq: "stageAspaBatch norm (limited (normalizeImportLimit lim) 0 vs) (beginAspaImport st) =
    bindE (parse_aspas norm (normalizeImportLimit lim) (normalizeBatchSize bs) vs [] 0 (beginAspaImport st))
      (\<lambda>(st1, b). stageAspaBatch norm b st1)" by simp
  show ?thesis by (simp add: importAspaJson_def Let_def flush_aspas_eq eq bindE_assoc case_prod_unfold)
qed


definition import_demo :: "nat \<Rightarrow> roa" where
  "import_demo n = \<lparr>roa_ipType = 1, roa_asn = n, roa_ip = ''10.0.0.0'', roa_mask = 8, roa_maxLength = 24\<rparr>"


section \<open>Imports keep the invariant\<close>

definition same_tables :: "rpki_store \<Rightarrow> rpki_store \<Rightarrow> bool" where
  "same_tables st st' = (store_ok st' \<and> st_roas st' = st_roas st \<and> st_aspas st' = st_aspas st \<and>
     cache_serial st' = cache_serial st)"

lemma same_tables_trans: "same_tables a b \<Longrightarrow> same_tables b c \<Longrightarrow> same_tables a c"
  by (simp add: same_tables_def)

lemma stage_same:
  "store_ok st \<Longrightarrow> stageRoaBatch norm vs st = Inr st' \<Longrightarrow> same_tables st st'"
  "store_ok st \<Longrightarrow> stageAspaBatch norm' vs' st = Inr st' \<Longrightarrow> same_tables st st'"
  using stage_ok(1) [of st norm vs st'] stage_ok(2) [of st norm' vs' st']
  by (auto simp: same_tables_def stageRoaBatch_def stageAspaBatch_def bindE_Inr_iff)

lemma flush_same: "store_ok st \<Longrightarrow> flush_roas norm limit batch cands st = Inr (st', c) \<Longrightarrow> same_tables st st'"
  using stage_same(1) [of st norm batch]
  by (cases "batch = []") (auto simp: flush_roas_def bindE_Inr_iff same_tables_def)

lemma parse_roas_same:
  "store_ok st \<Longrightarrow> parse_roas norm limit sz vs batch cands st = Inr (st', b, c) \<Longrightarrow> same_tables st st'"
proof (induction vs arbitrary: batch cands st)
  case Nil
  then show ?case by (simp add: same_tables_def)
next
  case (Cons v vs)
  show ?case
  proof (cases "sz \<le> length (batch @ [v])")
    case full: True
    then obtain st1 c1 where f: "flush_roas norm limit (batch @ [v]) cands st = Inr (st1, c1)"
      and r: "(if reached limit c1 then Inr (st1, [], c1) else parse_roas norm limit sz vs [] c1 st1) = Inr (st', b, c)"
      using Cons.prems(2) by (auto simp: bindE_Inr_iff)
    have s: "same_tables st st1" by (rule flush_same [OF Cons.prems(1) f])
    then have "store_ok st1" by (simp add: same_tables_def)
    then have "same_tables st1 st'" using r Cons.IH [of st1 "[]" c1] by (auto simp: same_tables_def split: if_splits)
    then show ?thesis by (rule same_tables_trans [OF s])
  next
    case False
    then show ?thesis using Cons.prems Cons.IH [of st "batch @ [v]" cands]
      by (auto simp: same_tables_def split: if_splits)
  qed
qed

lemma importRoaJson_spec:
  assumes "importRoaJson norm lim bs vs st = Inr (st', res)" "store_ok st"
  shows "store_ok st' \<and> set (st_aspas st') = set (st_aspas st) \<and> r_serial res = cache_serial st' \<and>
    (if r_changed res > 0 then cache_serial st' = cache_serial st + 1
     else cache_serial st' = cache_serial st \<and> set (st_roas st') = set (st_roas st))"
proof -
  let ?s = "beginRoaImport st"
  obtain st1 b c st2 d where p: "parse_roas norm (normalizeImportLimit lim) (normalizeBatchSize bs) vs [] 0 ?s = Inr (st1, b, c)"
    "flush_roas norm (normalizeImportLimit lim) b c st1 = Inr (st2, d)"
    "commitRoaImport (normalizeImportLimit lim) st2 = Inr (st', res)"
    using assms(1) by (auto simp: importRoaJson_def Let_def bindE_Inr_iff)
  have s1: "same_tables ?s st1" by (rule parse_roas_same [OF stage_ok(3) [OF assms(2)] p(1)])
  then have "same_tables st1 st2" by (intro flush_same [OF _ p(2)]) (simp add: same_tables_def)
  then have "same_tables ?s st2" by (rule same_tables_trans [OF s1])
  then have "store_ok st2" "st_roas st2 = st_roas st" "st_aspas st2 = st_aspas st" "cache_serial st2 = cache_serial st"
    by (simp_all add: same_tables_def beginRoaImport_def)
  then show ?thesis using commitRoaImport_spec [OF p(3)] by (simp split: if_splits)
qed

lemma importAspaJson_spec:
  assumes "importAspaJson norm lim bs vs st = Inr (st', res)" "store_ok st"
  shows "store_ok st' \<and> set (st_roas st') = set (st_roas st) \<and> a_serial res = cache_serial st' \<and>
    (if a_changed res > 0 then cache_serial st' = cache_serial st + 1
     else cache_serial st' = cache_serial st \<and> set (st_aspas st') = set (st_aspas st))"
proof -
  obtain st2 where p: "stageAspaBatch norm (limited (normalizeImportLimit lim) 0 vs) (beginAspaImport st) = Inr st2"
    "commitAspaImport st2 = Inr (st', res)"
    using assms(1) by (auto simp: import_aspas_eq bindE_Inr_iff)
  have "same_tables (beginAspaImport st) st2" by (rule stage_same(2) [OF stage_ok(4) [OF assms(2)] p(1)])
  then have "store_ok st2" "st_roas st2 = st_roas st" "st_aspas st2 = st_aspas st" "cache_serial st2 = cache_serial st"
    by (simp_all add: same_tables_def beginAspaImport_def)
  then show ?thesis using commitAspaImport_spec [OF p(2)] by (simp split: if_splits)
qed

end
