(* ===== verification/Rpki_Session.thy ===== *)
theory Rpki_Session
  imports Rpki_Pdu
begin

text \<open>
  One RPKI-RTR session of the cache server (\<open>rpkiSession.js\<close>).

  State: \<open>rpki_session\<close> is the object's fields; \<open>socket\<close> says whether it holds a socket
  that is not destroyed, \<open>closePromise\<close> whether closing has begun.  The promise chain
  \<open>sendQueue\<close> is the list of the tasks not yet run; \<open>run_next\<close> runs the first one.  A
  task reads the session when it runs, not when it is queued.  What the session sees of
  the worker is \<open>rpki_env\<close>: the current serial, the configured version and
  \<open>getDeltaOperationsSince\<close>; the snapshot that \<open>createDataSnapshot\<close> opens (or the error it
  raises) and the random session id are arguments of \<open>run_next\<close>.  A task runs here
  without the connection closing half way: the source checks \<open>canWrite\<close> before every
  write and ends the task when it is false, so that a broken connection only drops a
  suffix of what is written here.

  Outputs: what is written to the socket, the end of the socket, and the events sent to
  the user interface.
\<close>

section \<open>State\<close>

record endpoint =
  localIp :: string
  localPort :: nat
  remoteIp :: string
  remotePort :: nat
  transport :: string
  authentication :: string
  authProfileId :: "string option"
  authProfileName :: "string option"
  authPeer :: "string option"
  tcpAoProfileId :: "string option"
  tcpAoProfileName :: "string option"
  tcpAoPeer :: "string option"
  tcpMd5ProfileId :: "string option"
  tcpMd5ProfileName :: "string option"
  tcpMd5Peer :: "string option"

datatype task =
    ResetResponse
  | SerialResponse "operation list" "32 word"
  | SerialNotify
  | RoaList "roa list" byte
  | AspaList "aspa list" byte

record rpki_session =
  peer :: endpoint
  messageBuffer :: buffer
  sessionId :: "nat option"
  protocolVersion :: nat
  aspaFormat :: aspa_format
  sendQueue :: "task list"
  closing :: bool
  closed :: bool
  closePromise :: bool
  socket :: bool

definition new_RpkiSession :: "endpoint \<Rightarrow> aspa_format \<Rightarrow> rpki_session" where
  "new_RpkiSession e fmt = \<lparr>peer = e, messageBuffer = [], sessionId = None, protocolVersion = 0,
     aspaFormat = fmt, sendQueue = [], closing = False, closed = False, closePromise = False,
     socket = True\<rparr>"

definition session_key :: "endpoint \<Rightarrow> string" where
  "session_key e = join ''|'' [localIp e, dec (localPort e), remoteIp e, dec (remotePort e)]"

record rpki_env =
  env_serial :: "32 word"
  env_maxVersion :: "int option"
  env_delta :: "32 word \<Rightarrow> operation list option"

record snapshot =
  snap_serial :: "32 word"
  snap_roas :: "roa list"
  snap_routerKeys :: "router_key list"
  snap_aspas :: "aspa list"

datatype client_op = ClientAdd | ClientUpdate | ClientDelete

datatype rpki_out =
    Write buffer
  | EndWith buffer
  | EndSocket
  | DestroySocket
  | ClientEvent client_op endpoint nat
  | SessionRemoved

type_synonym acted = "rpki_session \<times> rpki_out list"

section \<open>Closing\<close>

definition client_event :: "client_op \<Rightarrow> rpki_session \<Rightarrow> rpki_out" where
  "client_event k s = ClientEvent k (peer s) (protocolVersion s)"

definition closeSocket :: "bool \<Rightarrow> rpki_session \<Rightarrow> acted" where
  "closeSocket graceful s =
     (s\<lparr>socket := False\<rparr>,
      if socket s then [if graceful then EndSocket else DestroySocket] else [])"

definition closeSession :: "bool \<Rightarrow> bool \<Rightarrow> rpki_session \<Rightarrow> acted" where
  "closeSession destroySocket graceful s =
     (if closePromise s then (s, [])
      else let s1 = s\<lparr>closed := True, closing := True, messageBuffer := [], closePromise := True\<rparr>;
               (s2, o2) = (if destroySocket then closeSocket graceful s1 else (s1, []))
           in (s2, [SessionRemoved, client_event ClientDelete s] @ o2))"

section \<open>Writing\<close>

definition canWrite :: "rpki_session \<Rightarrow> bool" where
  "canWrite s = (\<not> closing s \<and> \<not> closed s \<and> socket s)"

definition sendMessage :: "buffer \<Rightarrow> rpki_session \<Rightarrow> acted" where
  "sendMessage b s = (s, if canWrite s then [Write b] else [])"

definition enqueueSend :: "task \<Rightarrow> rpki_session \<Rightarrow> rpki_session" where
  "enqueueSend t s = (if closing s \<or> closed s then s else s\<lparr>sendQueue := sendQueue s @ [t]\<rparr>)"

definition sendError :: "nat \<Rightarrow> nat \<Rightarrow> bool \<Rightarrow> rpki_session \<Rightarrow> acted" where
  "sendError errorCode v closeAfterSend s =
     (let b = buildErrorReportPdu errorCode v in
      if \<not> closeAfterSend then sendMessage b s
      else if \<not> socket s then closeSession True False s
      else let (s1, o1) = closeSession False False (s\<lparr>closing := True\<rparr>) in (s1, EndWith b # o1))"

definition sendCacheReset :: "rpki_session \<Rightarrow> acted" where
  "sendCacheReset s = sendMessage (cacheResetPdu (protocolVersion s)) s"

definition sendSerialNotify :: "rpki_session \<Rightarrow> rpki_session" where
  "sendSerialNotify s = (if sessionId s = None then s else enqueueSend SerialNotify s)"

definition sendRoaBatchData :: "roa list \<Rightarrow> rpki_session \<Rightarrow> rpki_session" where
  "sendRoaBatchData roas s = enqueueSend (RoaList roas UPDATE) s"

definition withdrawRoaBatchData :: "roa list \<Rightarrow> rpki_session \<Rightarrow> rpki_session" where
  "withdrawRoaBatchData roas s = enqueueSend (RoaList roas WITHDRAWAL) s"

definition sendAspaData :: "aspa list \<Rightarrow> rpki_session \<Rightarrow> rpki_session" where
  "sendAspaData aspas s = enqueueSend (AspaList aspas UPDATE) s"

section \<open>Queries\<close>

definition getMaxSupportedVersion :: "rpki_env \<Rightarrow> nat" where
  "getMaxSupportedVersion env = (case env_maxVersion env of
       None \<Rightarrow> 2
     | Some n \<Rightarrow> if n \<in> {0, 1, 2} then nat n else 2)"

definition negotiateVersion :: "rpki_env \<Rightarrow> nat \<Rightarrow> rpki_session \<Rightarrow> rpki_session" where
  "negotiateVersion env clientVersion s =
     s\<lparr>protocolVersion := if clientVersion > getMaxSupportedVersion env
                          then getMaxSupportedVersion env else clientVersion\<rparr>"

definition handleResetQuery :: "rpki_env \<Rightarrow> rpki_header \<Rightarrow> rpki_session \<Rightarrow> acted" where
  "handleResetQuery env h s =
     (if h_version h > getMaxSupportedVersion env
      then sendError UNSUPPORTED_PROTOCOL_VERSION (getMaxSupportedVersion env) True s
      else let s1 = negotiateVersion env (h_version h) s in
        (enqueueSend ResetResponse s1, [client_event ClientUpdate s1]))"

definition sendSerialQueryResponse :: "operation list \<Rightarrow> 32 word \<Rightarrow> rpki_session \<Rightarrow> acted" where
  "sendSerialQueryResponse ops serial s = (enqueueSend (SerialResponse ops serial) s, [])"

definition handleSerialQuery :: "rpki_env \<Rightarrow> rpki_header \<Rightarrow> buffer \<Rightarrow> rpki_session \<Rightarrow> js_error + acted" where
  "handleSerialQuery env h message s =
     (if h_version h \<noteq> protocolVersion s
      then Inr (sendError UNEXPECTED_PROTOCOL_VERSION (protocolVersion s) False s)
      else bindE (readUInt16BE message 2) (\<lambda>sid.
           bindE (readUInt32BE message RPKI_HEADER_LENGTH) (\<lambda>serial.
             if sessionId s \<noteq> Some sid then Inr (sendError CORRUPT_DATA (protocolVersion s) False s)
             else case env_delta env (word_of_nat serial) of
                 None \<Rightarrow>
                   if word_of_nat serial \<noteq> env_serial env then Inr (sendCacheReset s)
                   else Inr (sendSerialQueryResponse [] (env_serial env) s)
               | Some ops \<Rightarrow> Inr (sendSerialQueryResponse ops (env_serial env) s))))"

definition handleErrorReport :: "buffer \<Rightarrow> rpki_session \<Rightarrow> js_error + acted" where
  "handleErrorReport message s =
     bindE (readUInt16BE message 2) (\<lambda>_. bindE (readUInt32BE message RPKI_HEADER_LENGTH) (\<lambda>_. Inr (s, [])))"

definition processMessage :: "rpki_env \<Rightarrow> buffer \<Rightarrow> rpki_session \<Rightarrow> acted" where
  "processMessage env message s =
     (let h = parseRpkiHeader message;
          result = (if h_type h = SERIAL_QUERY then handleSerialQuery env h message s
                    else if h_type h = RESET_QUERY then Inr (handleResetQuery env h s)
                    else if h_type h = ERROR_REPORT then handleErrorReport message s
                    else Inr (sendError UNSUPPORTED_PDU_TYPE (protocolVersion s) False s))
      in case result of
           Inl _ \<Rightarrow> sendError INTERNAL_ERROR (protocolVersion s) False s
         | Inr r \<Rightarrow> r)"

lemmas query_defs = processMessage_def handleSerialQuery_def handleResetQuery_def handleErrorReport_def
  sendError_def sendCacheReset_def sendMessage_def sendSerialQueryResponse_def enqueueSend_def
  negotiateVersion_def closeSession_def closeSocket_def client_event_def Let_def

lemma sendError_open [simp]: "sendError code v False s = sendMessage (buildErrorReportPdu code v) s"
  by (simp add: sendError_def)

lemma messageBuffer_processMessage:
  assumes "processMessage env m s = (s', out)"
  shows "messageBuffer s' = messageBuffer s \<or> messageBuffer s' = []"
  using assms
  by (auto simp: query_defs bindE_def split: if_splits sum.splits option.splits prod.splits)

section \<open>Receiving\<close>

function process_buffered :: "rpki_env \<Rightarrow> rpki_session \<Rightarrow> acted" where
  "process_buffered env s =
     (case rpki_frame () (messageBuffer s) of
        More \<Rightarrow> (s, [])
      | Fail _ \<Rightarrow> closeSession True False s
      | Advance None _ rest \<Rightarrow> (s\<lparr>messageBuffer := rest\<rparr>, [])
      | Advance (Some m) _ rest \<Rightarrow>
          let r1 = processMessage env m (s\<lparr>messageBuffer := rest\<rparr>);
              r2 = process_buffered env (fst r1)
          in (fst r2, snd r1 @ snd r2))"
  by pat_completeness auto
termination
proof (relation "measure (\<lambda>(env, s). length (messageBuffer s))")
  show "wf (measure (\<lambda>(env, s). length (messageBuffer s)))" by simp
next
  fix env s mo u rest m r1
  assume f: "rpki_frame () (messageBuffer s) = Advance mo u rest" and "mo = Some m"
    and r: "r1 = processMessage env m (s\<lparr>messageBuffer := rest\<rparr>)"
  have "length rest < length (messageBuffer s)" using rtr.advance_shrinks [OF _ f] by simp
  moreover have "messageBuffer (fst r1) = rest \<or> messageBuffer (fst r1) = []"
    using messageBuffer_processMessage [of env m "s\<lparr>messageBuffer := rest\<rparr>" "fst r1" "snd r1"] r by simp
  ultimately have "length (messageBuffer (fst r1)) < length (messageBuffer s)" by auto
  then show "((env, fst r1), (env, s)) \<in> measure (\<lambda>(env, s). length (messageBuffer s))" by simp
qed

declare process_buffered.simps [simp del]

definition recvMsg :: "rpki_env \<Rightarrow> buffer \<Rightarrow> rpki_session \<Rightarrow> acted" where
  "recvMsg env b s =
     (if closing s then (s, [])
      else if length (messageBuffer s) + length b > MAX_RPKI_PDU_BYTES then closeSession True False s
      else process_buffered env (s\<lparr>messageBuffer := messageBuffer s @ b\<rparr>))"

section \<open>The queued writes\<close>

text \<open>What a task hands to the socket, and the exception that ends it, if any.\<close>

type_synonym written = "buffer list \<times> js_error option"

definition and_then :: "written \<Rightarrow> written \<Rightarrow> written" where
  "and_then a b = (case snd a of None \<Rightarrow> (fst a @ fst b, snd b) | Some e \<Rightarrow> a)"

definition ROA_WRITE_CHUNK_SIZE :: nat where "ROA_WRITE_CHUNK_SIZE = 1024 * 1024"

text \<open>The inner loop of \<open>writeChunkedPduList\<close>: the PDUs of one item go into the pending
  chunk, which is flushed when the next PDU does not fit; a PDU that is larger than a
  chunk is written on its own.\<close>

fun push_pdus :: "buffer \<Rightarrow> buffer list \<Rightarrow> buffer list \<times> buffer" where
  "push_pdus chunk [] = ([], chunk)"
| "push_pdus chunk (p # ps) =
     (if p = [] then push_pdus chunk ps
      else let flush = chunk \<noteq> [] \<and> length chunk + length p > ROA_WRITE_CHUNK_SIZE;
               chunk1 = (if flush then [] else chunk);
               large = length p > ROA_WRITE_CHUNK_SIZE;
               chunk2 = (if large then chunk1 else chunk1 @ p);
               r = push_pdus chunk2 ps
           in ((if flush then [chunk] else []) @ (if large then [p] else []) @ fst r, snd r))"

fun write_items :: "('a \<Rightarrow> js_error + buffer list) \<Rightarrow> buffer \<Rightarrow> 'a list \<Rightarrow> written" where
  "write_items build chunk [] = (if chunk = [] then [] else [chunk], None)"
| "write_items build chunk (x # xs) =
     (case build x of
        Inl e \<Rightarrow> ([], Some e)
      | Inr pdus \<Rightarrow> let r = push_pdus chunk pdus in
          and_then (fst r, None) (write_items build (snd r) xs))"

definition writeChunkedPduList :: "('a \<Rightarrow> js_error + buffer list) \<Rightarrow> 'a list \<Rightarrow> written" where
  "writeChunkedPduList build items = write_items build [] items"

definition roa_pdus :: "(string \<Rightarrow> js_error + buffer) \<Rightarrow> nat \<Rightarrow> byte \<Rightarrow> roa \<Rightarrow> js_error + buffer list" where
  "roa_pdus ipToBytes v flags r =
     bindE (buildPrefixPdu ipToBytes v r flags (is_ipv6_roa r)) (\<lambda>b. Inr [b])"

definition writeRoaListData :: "(string \<Rightarrow> js_error + buffer) \<Rightarrow> nat \<Rightarrow> roa list \<Rightarrow> byte \<Rightarrow> written" where
  "writeRoaListData ipToBytes v roas flags = writeChunkedPduList (roa_pdus ipToBytes v flags) roas"

definition router_key_pdus :: "nat \<Rightarrow> byte \<Rightarrow> router_key \<Rightarrow> js_error + buffer list" where
  "router_key_pdus v flags rk =
     bindE (buildRouterKeyPdu v rk flags) (\<lambda>b. Inr (case b of None \<Rightarrow> [] | Some p \<Rightarrow> [p]))"

definition writeRouterKeyData :: "nat \<Rightarrow> router_key list \<Rightarrow> written" where
  "writeRouterKeyData v rks = writeChunkedPduList (router_key_pdus v UPDATE) rks"

definition writeAspaListData :: "nat \<Rightarrow> aspa_format \<Rightarrow> aspa list \<Rightarrow> byte \<Rightarrow> written" where
  "writeAspaListData v fmt aspas flags = writeChunkedPduList (\<lambda>a. buildAspaPdus v fmt a flags) aspas"

fun writeDeltaOperations ::
    "(string \<Rightarrow> js_error + buffer) \<Rightarrow> nat \<Rightarrow> aspa_format \<Rightarrow> operation list \<Rightarrow> written" where
  "writeDeltaOperations ipToBytes v fmt [] = ([], None)"
| "writeDeltaOperations ipToBytes v fmt (op # ops) =
     (case buildDeltaOperationBuffers ipToBytes v fmt op of
        Inl e \<Rightarrow> ([], Some e)
      | Inr bs \<Rightarrow> and_then (bs, None) (writeDeltaOperations ipToBytes v fmt ops))"

definition reset_writes ::
    "(string \<Rightarrow> js_error + buffer) \<Rightarrow> nat \<Rightarrow> aspa_format \<Rightarrow> nat \<Rightarrow> snapshot \<Rightarrow> written" where
  "reset_writes ipToBytes v fmt sid d =
     and_then ([buildCacheResponsePdu v sid], None)
    (and_then (writeRoaListData ipToBytes v (snap_roas d) UPDATE)
    (and_then (if 1 \<le> v then writeRouterKeyData v (snap_routerKeys d) else ([], None))
    (and_then (if 2 \<le> v then writeAspaListData v fmt (snap_aspas d) UPDATE else ([], None))
      ([buildEndOfDataPdu v sid (snap_serial d)], None))))"

definition serial_writes ::
    "(string \<Rightarrow> js_error + buffer) \<Rightarrow> nat \<Rightarrow> aspa_format \<Rightarrow> nat \<Rightarrow> operation list \<Rightarrow> 32 word \<Rightarrow> written" where
  "serial_writes ipToBytes v fmt sid ops serial =
     and_then ([buildCacheResponsePdu v sid], None)
    (and_then (writeDeltaOperations ipToBytes v fmt ops)
      ([buildEndOfDataPdu v sid serial], None))"

text \<open>\<open>buildCacheResponsePdu\<close> draws the session id the first time.\<close>

definition with_sessionId :: "nat \<Rightarrow> rpki_session \<Rightarrow> rpki_session" where
  "with_sessionId rnd s = (if sessionId s = None then s\<lparr>sessionId := Some rnd\<rparr> else s)"

definition sid :: "rpki_session \<Rightarrow> nat" where
  "sid s = (case sessionId s of None \<Rightarrow> 0 | Some n \<Rightarrow> n)"

fun run_task :: "(string \<Rightarrow> js_error + buffer) \<Rightarrow> rpki_env \<Rightarrow> js_error + snapshot \<Rightarrow> nat \<Rightarrow> task
    \<Rightarrow> rpki_session \<Rightarrow> rpki_session \<times> written" where
  "run_task ipToBytes env snap rnd ResetResponse s =
     (let report = buildErrorReportPdu INTERNAL_ERROR (protocolVersion s) in
      case snap of
        Inl _ \<Rightarrow> (s, [report], None)
      | Inr d \<Rightarrow>
          let s1 = with_sessionId rnd s;
              w = reset_writes ipToBytes (protocolVersion s) (aspaFormat s) (sid s1) d
          in (s1, fst w @ (if snd w = None then [] else [report]), None))"
| "run_task ipToBytes env snap rnd (SerialResponse ops serial) s =
     (let s1 = with_sessionId rnd s in
      (s1, serial_writes ipToBytes (protocolVersion s) (aspaFormat s) (sid s1) ops serial))"
| "run_task ipToBytes env snap rnd SerialNotify s =
     (s, [buildSerialNotifyPdu (protocolVersion s) (sid s) (env_serial env)], None)"
| "run_task ipToBytes env snap rnd (RoaList roas flags) s =
     (s, writeRoaListData ipToBytes (protocolVersion s) roas flags)"
| "run_task ipToBytes env snap rnd (AspaList aspas flags) s =
     (s, writeAspaListData (protocolVersion s) (aspaFormat s) aspas flags)"

definition run_next :: "(string \<Rightarrow> js_error + buffer) \<Rightarrow> rpki_env \<Rightarrow> js_error + snapshot \<Rightarrow> nat
    \<Rightarrow> rpki_session \<Rightarrow> acted" where
  "run_next ipToBytes env snap rnd s =
     (case sendQueue s of
        [] \<Rightarrow> (s, [])
      | t # ts \<Rightarrow>
          let s0 = s\<lparr>sendQueue := ts\<rparr> in
          if closing s \<or> closed s then (s0, [])
          else let (s1, ws, e) = run_task ipToBytes env snap rnd t s0
               in (s1, if canWrite s1 then map Write ws else []))"

section \<open>The writes that bypass the queue\<close>

definition send_all :: "js_error + buffer list \<Rightarrow> rpki_session \<Rightarrow> js_error + acted" where
  "send_all bs s = bindE bs (\<lambda>ps. Inr (s, if canWrite s then map Write ps else []))"

definition writePrefixPdu :: "(string \<Rightarrow> js_error + buffer) \<Rightarrow> roa \<Rightarrow> byte \<Rightarrow> bool \<Rightarrow> rpki_session
    \<Rightarrow> js_error + acted" where
  "writePrefixPdu ipToBytes r flags isIpv6 s =
     bindE (buildPrefixPdu ipToBytes (protocolVersion s) r flags isIpv6) (\<lambda>b. Inr (sendMessage b s))"

definition writeRouterKeyPdu :: "router_key \<Rightarrow> byte \<Rightarrow> rpki_session \<Rightarrow> js_error + acted" where
  "writeRouterKeyPdu rk flags s = send_all (router_key_pdus (protocolVersion s) flags rk) s"

definition writeAspaPdu :: "aspa \<Rightarrow> byte \<Rightarrow> rpki_session \<Rightarrow> js_error + acted" where
  "writeAspaPdu a flags s = send_all (buildAspaPdus (protocolVersion s) (aspaFormat s) a flags) s"

definition replaceAspa :: "aspa \<Rightarrow> aspa \<Rightarrow> rpki_session \<Rightarrow> js_error + acted" where
  "replaceAspa old new s =
     (if protocolVersion s < 2 then Inr (s, [])
      else send_all (buildAspaReplacementPdus (protocolVersion s) (aspaFormat s) old new) s)"

section \<open>Chunked writing\<close>

lemma push_pdus_concat: "concat (fst (push_pdus chunk ps)) @ snd (push_pdus chunk ps) = chunk @ concat ps"
proof (induction chunk ps rule: push_pdus.induct)
  case (2 chunk p ps)
  show ?case
  proof (cases "p = []")
    case False
    from "2.IH"(2) [OF False refl refl refl refl] show ?thesis
      by (auto simp: Let_def False)
  qed (use "2.IH"(1) in simp)
qed simp

lemma push_pdus_sizes:
  "length chunk \<le> ROA_WRITE_CHUNK_SIZE \<Longrightarrow>
   length (snd (push_pdus chunk ps)) \<le> ROA_WRITE_CHUNK_SIZE \<and>
   (\<forall>w\<in>set (fst (push_pdus chunk ps)). w \<noteq> [] \<and> (length w \<le> ROA_WRITE_CHUNK_SIZE \<or> w \<in> set ps))"
proof (induction chunk ps rule: push_pdus.induct)
  case (2 chunk p ps)
  show ?case
  proof (cases "p = []")
    case False
    define flush where "flush \<longleftrightarrow> chunk \<noteq> [] \<and> length chunk + length p > ROA_WRITE_CHUNK_SIZE"
    define large where "large \<longleftrightarrow> length p > ROA_WRITE_CHUNK_SIZE"
    define next_chunk where "next_chunk = (if large then (if flush then [] else chunk) else (if flush then [] else chunk) @ p)"
    define r where "r = push_pdus next_chunk ps"
    have eq: "push_pdus chunk (p # ps) =
        ((if flush then [chunk] else []) @ (if large then [p] else []) @ fst r, snd r)"
      by (simp add: Let_def False r_def next_chunk_def flush_def large_def)
    have "length next_chunk \<le> ROA_WRITE_CHUNK_SIZE"
      using "2.prems" by (auto simp: next_chunk_def flush_def large_def)
    with "2.IH"(2) [OF False flush_def refl large_def refl]
    have IH: "length (snd r) \<le> ROA_WRITE_CHUNK_SIZE"
      "\<forall>w\<in>set (fst r). w \<noteq> [] \<and> (length w \<le> ROA_WRITE_CHUNK_SIZE \<or> w \<in> set ps)"
      by (simp_all add: r_def next_chunk_def)
    have "flush \<Longrightarrow> chunk \<noteq> []" by (simp add: flush_def)
    with IH "2.prems" False show ?thesis unfolding eq by auto
  next
    case True
    then show ?thesis using "2.IH"(1) [OF True "2.prems"] by auto
  qed
qed simp

lemma and_then_None [simp]: "and_then (ws, None) b = (ws @ fst b, snd b)"
  by (simp add: and_then_def)

lemma write_items_concat:
  "mapE build items = Inr pss \<Longrightarrow>
   snd (write_items build chunk items) = None \<and>
   concat (fst (write_items build chunk items)) = chunk @ concat (concat pss)"
proof (induction build chunk items arbitrary: pss rule: write_items.induct)
  case (1 build chunk)
  then show ?case by simp
next
  case (2 build chunk x xs)
  from "2.prems" obtain ps qss where b: "build x = Inr ps" "mapE build xs = Inr qss" "pss = ps # qss"
    by (auto simp: bindE_Inr_iff)
  from "2.IH" [OF b(1) refl b(2)] b(1,3) push_pdus_concat [of chunk ps] show ?case
    by (simp add: Let_def)
qed
lemma write_items_sizes:
  "mapE build items = Inr pss \<Longrightarrow> length chunk \<le> ROA_WRITE_CHUNK_SIZE \<Longrightarrow>
   \<forall>w\<in>set (fst (write_items build chunk items)).
     w \<noteq> [] \<and> (length w \<le> ROA_WRITE_CHUNK_SIZE \<or> w \<in> set (concat pss))"
proof (induction build chunk items arbitrary: pss rule: write_items.induct)
  case (1 build chunk)
  then show ?case by simp
next
  case (2 build chunk x xs)
  from "2.prems"(1) obtain ps qss where b: "build x = Inr ps" "mapE build xs = Inr qss" "pss = ps # qss"
    by (auto simp: bindE_Inr_iff)
  note s = push_pdus_sizes [OF "2.prems"(2), of ps]
  from "2.IH" [OF b(1) refl b(2)] s have rest: "\<forall>w\<in>set (fst (write_items build (snd (push_pdus chunk ps)) xs)).
      w \<noteq> [] \<and> (length w \<le> ROA_WRITE_CHUNK_SIZE \<or> w \<in> set (concat qss))" by blast
  have "fst (write_items build chunk (x # xs)) =
      fst (push_pdus chunk ps) @ fst (write_items build (snd (push_pdus chunk ps)) xs)"
    using b(1) by (simp add: Let_def)
  with rest s b(3) show ?case by auto
qed

text \<open>A list of items that all encode is written in full and in order, whatever the sizes:
  the concatenation of the writes is the concatenation of the PDUs, no write is empty, and
  each is at most one mebibyte long unless it is a single larger PDU.\<close>

theorem rpki_chunked_list:
  assumes "mapE build items = Inr pss"
  shows "snd (writeChunkedPduList build items) = None \<and>
    concat (fst (writeChunkedPduList build items)) = concat (concat pss) \<and>
    (\<forall>w\<in>set (fst (writeChunkedPduList build items)).
       w \<noteq> [] \<and> (length w \<le> ROA_WRITE_CHUNK_SIZE \<or> w \<in> set (concat pss)))"
  using write_items_concat [OF assms, of "[]"] write_items_sizes [OF assms, of "[]"]
  by (simp add: writeChunkedPduList_def)

lemma writeChunked_concat:
  assumes "mapE build items = Inr pss"
  shows "\<exists>ws. writeChunkedPduList build items = (ws, None) \<and> concat ws = concat (concat pss)"
proof -
  note w = write_items_concat [OF assms, of "[]"]
  have "write_items build [] items = (fst (write_items build [] items), None)"
    using w by (simp add: prod_eq_iff)
  with w show ?thesis unfolding writeChunkedPduList_def by auto
qed

section \<open>Responses\<close>

lemma and_then_written:
  "a = (ws, None) \<Longrightarrow> b = (vs, e) \<Longrightarrow> and_then a b = (ws @ vs, e)"
  by simp

lemma pdu_ok_response [simp]:
  "pdu_ok (buildCacheResponsePdu v i)" "pdu_ok (buildEndOfDataPdu v i serial)"
  "pdu_ok (buildSerialNotifyPdu v i serial)" "pdu_ok (cacheResetPdu v)" "pdu_ok (buildErrorReportPdu c v)"
  by (auto simp: buildCacheResponsePdu_def buildEndOfDataPdu_def buildSerialNotifyPdu_def cacheResetPdu_def
      buildErrorReportPdu_def MAX_RPKI_PDU_BYTES_def intro!: pdu_ok_pdu)

lemma roa_pdus_ok: "roa_pdus ipToBytes v flags r = Inr ps \<Longrightarrow> \<forall>p\<in>set ps. pdu_ok p"
  by (auto simp: roa_pdus_def bindE_Inr_iff intro: prefix_ok)

lemma router_key_pdus_ok:
  "router_key_pdus v flags rk = Inr ps \<Longrightarrow> length (rk_spki rk) \<le> 0x1000000 \<Longrightarrow> \<forall>p\<in>set ps. pdu_ok p"
  using router_key_ok [of v rk flags]
  by (auto simp: router_key_pdus_def bindE_Inr_iff split: option.splits)

definition encodable :: "snapshot \<Rightarrow> bool" where
  "encodable d = ((\<forall>rk\<in>set (snap_routerKeys d). length (rk_spki rk) \<le> 0x1000000) \<and>
                  (\<forall>a\<in>set (snap_aspas d). length (providerAsns a) \<le> 0x100000))"

lemma mapE_const: "(\<And>x. f x = Inr y) \<Longrightarrow> mapE f xs = Inr (replicate (length xs) y)"
  by (induction xs) simp_all

lemma reset_writes_frames:
  assumes R: "mapE (roa_pdus ipToBytes v UPDATE) (snap_roas d) = Inr R"
    and K: "mapE (router_key_pdus v UPDATE) (snap_routerKeys d) = Inr K"
    and A: "mapE (\<lambda>a. buildAspaPdus v fmt a UPDATE) (snap_aspas d) = Inr A"
    and enc: "encodable d"
  shows "\<exists>ws. reset_writes ipToBytes v fmt i d = (ws, None) \<and>
    drive rpki_frame None () (concat ws) [] = Some ((), [],
      [buildCacheResponsePdu v i] @ concat R @ concat K @ concat A @ [buildEndOfDataPdu v i (snap_serial d)], None)"
    (is "\<exists>ws. _ \<and> drive rpki_frame None () _ [] = Some ((), [], ?pdus, None)")
proof -
  obtain rw where rw: "writeRoaListData ipToBytes v (snap_roas d) UPDATE = (rw, None)"
    "concat rw = concat (concat R)"
    using writeChunked_concat [OF R] by (auto simp: writeRoaListData_def)
  obtain kw where kw: "(if 1 \<le> v then writeRouterKeyData v (snap_routerKeys d) else ([], None)) = (kw, None)"
    "concat kw = concat (concat K)"
  proof (cases "1 \<le> v")
    case False
    then have "mapE (router_key_pdus v UPDATE) (snap_routerKeys d) = Inr (replicate (length (snap_routerKeys d)) [])"
      by (intro mapE_const) (simp add: router_key_pdus_def buildRouterKeyPdu_def)
    with K False that [of "[]"] show ?thesis by (auto simp: concat_replicate_trivial)
  next
    case True
    with that writeChunked_concat [OF K] show ?thesis by (auto simp: writeRouterKeyData_def)
  qed
  obtain aw where aw: "(if 2 \<le> v then writeAspaListData v fmt (snap_aspas d) UPDATE else ([], None)) = (aw, None)"
    "concat aw = concat (concat A)"
  proof (cases "2 \<le> v")
    case False
    then have "mapE (\<lambda>a. buildAspaPdus v fmt a UPDATE) (snap_aspas d) = Inr (replicate (length (snap_aspas d)) [])"
      by (intro mapE_const) (simp add: buildAspaPdus_def)
    with A False that [of "[]"] show ?thesis by (auto simp: concat_replicate_trivial)
  next
    case True
    with that writeChunked_concat [OF A] show ?thesis by (auto simp: writeAspaListData_def)
  qed
  have w: "reset_writes ipToBytes v fmt i d =
      ([buildCacheResponsePdu v i] @ rw @ kw @ aw @ [buildEndOfDataPdu v i (snap_serial d)], None)"
    unfolding reset_writes_def rw(1) kw(1) aw(1) by simp
  have "\<forall>p\<in>set (concat R). pdu_ok p"
    using mapE_all [OF R, of "\<lambda>ps. \<forall>p\<in>set ps. pdu_ok p"] roa_pdus_ok by auto
  moreover have "\<forall>p\<in>set (concat K). pdu_ok p"
    using mapE_all [OF K, of "\<lambda>ps. \<forall>p\<in>set ps. pdu_ok p"] router_key_pdus_ok enc
    by (fastforce simp: encodable_def)
  moreover have "\<forall>p\<in>set (concat A). pdu_ok p"
    using mapE_all [OF A, of "\<lambda>ps. \<forall>p\<in>set ps. pdu_ok p"] aspa_ok enc
    by (fastforce simp: encodable_def)
  ultimately have "\<forall>p\<in>set ?pdus. pdu_ok p" by auto
  from frames_of_pdus [OF this, of "[]"] w rw(2) kw(2) aw(2) show ?thesis by auto
qed


lemma canWrite_open: "canWrite s \<Longrightarrow> \<not> closing s \<and> \<not> closed s \<and> socket s"
  by (simp add: canWrite_def)

lemma canWrite_update [simp]:
  "canWrite (s\<lparr>sendQueue := q\<rparr>) = canWrite s" "canWrite (s\<lparr>protocolVersion := v\<rparr>) = canWrite s"
  "canWrite (with_sessionId rnd s) = canWrite s" "canWrite (s\<lparr>messageBuffer := b\<rparr>) = canWrite s"
  by (simp_all add: canWrite_def with_sessionId_def)

lemma with_sessionId_simps [simp]:
  "sendQueue (with_sessionId rnd s) = sendQueue s" "protocolVersion (with_sessionId rnd s) = protocolVersion s"
  "aspaFormat (with_sessionId rnd s) = aspaFormat s"
  "sessionId (with_sessionId rnd s) = Some (sid (with_sessionId rnd s))"
  by (auto simp: with_sessionId_def sid_def split: option.splits)

text \<open>C24. A Reset Query of a supported version is answered in full: when its task runs, the bytes
  written to the socket are, cut at the PDU length fields, a Cache Response, the prefix
  PDUs of all ROAs, from version 1 the Router Key PDUs, from version 2 the ASPA PDUs, and
  an End of Data with the serial of the snapshot, all in the client's version and with
  the session id that the session keeps.\<close>

theorem rpki_reset_response:
  assumes "canWrite s" "sendQueue s = []"
    and q: "h_type (parseRpkiHeader message) = RESET_QUERY" "h_version (parseRpkiHeader message) = v"
      "v \<le> getMaxSupportedVersion env"
    and R: "mapE (roa_pdus ipToBytes v UPDATE) (snap_roas d) = Inr R"
    and K: "mapE (router_key_pdus v UPDATE) (snap_routerKeys d) = Inr K"
    and A: "mapE (\<lambda>a. buildAspaPdus v (aspaFormat s) a UPDATE) (snap_aspas d) = Inr A"
    and enc: "encodable d"
    and run: "run_next ipToBytes env' (Inr d) rnd (fst (processMessage env message s)) = (s', out)"
  shows "\<exists>ws. out = map Write ws \<and> sendQueue s' = [] \<and> protocolVersion s' = v \<and>
    sessionId s' = Some (sid s') \<and>
    drive rpki_frame None () (concat ws) [] = Some ((), [],
      [buildCacheResponsePdu v (sid s')] @ concat R @ concat K @ concat A @
      [buildEndOfDataPdu v (sid s') (snap_serial d)], None)"
proof -
  define s1 where "s1 = s\<lparr>protocolVersion := v, sendQueue := [ResetResponse]\<rparr>"
  have "fst (processMessage env message s) = s1"
    using assms(1,2) q canWrite_open [of s]
    by (simp add: s1_def processMessage_def handleResetQuery_def negotiateVersion_def enqueueSend_def
        Let_def RESET_QUERY_def SERIAL_QUERY_def)
  moreover obtain ws where ws: "reset_writes ipToBytes v (aspaFormat s)
      (sid (with_sessionId rnd (s\<lparr>protocolVersion := v, sendQueue := []\<rparr>))) d = (ws, None)"
    and fr: "drive rpki_frame None () (concat ws) [] = Some ((), [],
      [buildCacheResponsePdu v (sid (with_sessionId rnd (s\<lparr>protocolVersion := v, sendQueue := []\<rparr>)))] @
      concat R @ concat K @ concat A @
      [buildEndOfDataPdu v (sid (with_sessionId rnd (s\<lparr>protocolVersion := v, sendQueue := []\<rparr>))) (snap_serial d)], None)"
    using reset_writes_frames [OF R K A enc] by blast
  ultimately have "(s', out) = (with_sessionId rnd (s\<lparr>protocolVersion := v, sendQueue := []\<rparr>), map Write ws)"
    using run assms(1) canWrite_open [of s]
    by (simp add: run_next_def s1_def Let_def split_def)
  with fr show ?thesis by auto
qed

lemma delta_writes_concat:
  "mapE (buildDeltaOperationBuffers ipToBytes v fmt) ops = Inr D \<Longrightarrow>
   writeDeltaOperations ipToBytes v fmt ops = (concat D, None)"
  by (induction ops arbitrary: D) (auto simp: bindE_Inr_iff)

definition op_small :: "operation \<Rightarrow> bool" where
  "op_small op = (case op of
      RoaOp _ _ \<Rightarrow> True
    | RouterKeyOp _ rk \<Rightarrow> length (rk_spki rk) \<le> 0x1000000
    | AspaOp _ a \<Rightarrow> length (providerAsns a) \<le> 0x100000
    | AspaReplace a b \<Rightarrow> length (providerAsns a) \<le> 0x100000 \<and> length (providerAsns b) \<le> 0x100000)"

lemma replacement_ok:
  assumes "buildAspaReplacementPdus v fmt old new = Inr bs" "length (providerAsns new) \<le> 0x100000"
  shows "\<forall>b\<in>set bs. pdu_ok b"
  using assms aspa_ok [of v fmt new UPDATE bs] aspa_legacy_ok
  by (auto simp: buildAspaReplacementPdus_def Let_def bindE_Inr_iff split: if_splits
      dest!: mapE_all [where P = pdu_ok])

lemma delta_ok:
  assumes "buildDeltaOperationBuffers ipToBytes v fmt op = Inr bs" "op_small op"
  shows "\<forall>b\<in>set bs. pdu_ok b"
proof (cases op)
  case (RoaOp act r)
  with assms show ?thesis by (auto simp: bindE_Inr_iff intro: prefix_ok)
next
  case (RouterKeyOp act rk)
  with assms router_key_ok [of v rk "action_flags act"] show ?thesis
    by (auto simp: bindE_Inr_iff op_small_def split: option.splits)
next
  case (AspaOp act a)
  with assms aspa_ok show ?thesis by (auto simp: op_small_def)
next
  case (AspaReplace old new)
  with assms replacement_ok show ?thesis by (auto simp: op_small_def)
qed

lemma serial_query_processed:
  assumes s: "canWrite s" "sessionId s = Some i" "i < 65536" "protocolVersion s = v" "v < 256"
    and m: "message = pdu v SERIAL_QUERY (enc16 i) (enc32 (unat serial))"
  shows "processMessage env message s = (case env_delta env serial of
      None \<Rightarrow> if serial \<noteq> env_serial env then sendCacheReset s
              else sendSerialQueryResponse [] (env_serial env) s
    | Some ops \<Rightarrow> sendSerialQueryResponse ops (env_serial env) s)"
proof -
  have len: "length message = 12" by (simp add: m)
  have b: "drop 8 message = enc32 (unat serial)" by (simp add: m)
  have "be32 message 8 = be32 (take 8 message @ enc32 (unat serial)) 8" by (metis append_take_drop_id b)
  also have "\<dots> = unat serial"
    using unsigned_less [of serial, where 'a = nat] len by (simp add: buf_simps)
  finally have ser: "be32 message 8 = unat serial" .
  have h: "h_type (parseRpkiHeader message) = SERIAL_QUERY" "h_version (parseRpkiHeader message) = v"
    "be16 message 2 = i"
    using s(3,5) by (simp_all add: m parseRpkiHeader_def buf_simps)
  show ?thesis
    using s h ser len
    by (simp add: processMessage_def handleSerialQuery_def readUInt16BE_def readUInt32BE_def
        RPKI_HEADER_LENGTH_def split: option.splits)
qed

text \<open>A Serial Query of the session, answered: when the worker has the changes since the
  client's serial, the task writes, cut at the PDU length fields, a Cache Response, the
  PDUs of the changes in their order and an End of Data with the serial current at the
  time of the query; when the serial is unknown and not current, a Cache Reset is sent
  at once and nothing is queued.\<close>

theorem rpki_serial_response:
  assumes s: "canWrite s" "sendQueue s = []" "sessionId s = Some i" "i < 65536" "protocolVersion s = v" "v < 256"
    and m: "message = pdu v SERIAL_QUERY (enc16 i) (enc32 (unat serial))"
  shows "(env_delta env serial = Some ops \<longrightarrow>
      mapE (buildDeltaOperationBuffers ipToBytes v (aspaFormat s)) ops = Inr D \<longrightarrow> (\<forall>op\<in>set ops. op_small op) \<longrightarrow>
      (\<exists>ws. run_next ipToBytes env' snap rnd (fst (processMessage env message s)) = (s, map Write ws) \<and>
        drive rpki_frame None () (concat ws) [] = Some ((), [],
          [buildCacheResponsePdu v i] @ concat D @ [buildEndOfDataPdu v i (env_serial env)], None))) \<and>
    (env_delta env serial = None \<and> serial \<noteq> env_serial env \<longrightarrow>
      processMessage env message s = (s, [Write (cacheResetPdu v)]))"
proof -
  note p = serial_query_processed [OF s(1,3,4,5,6) m, of env]
  have "processMessage env message s = (s, [Write (cacheResetPdu v)])"
    if "env_delta env serial = None" "serial \<noteq> env_serial env"
    using that s by (simp add: p sendCacheReset_def sendMessage_def)
  moreover have "\<exists>ws. run_next ipToBytes env' snap rnd (fst (processMessage env message s)) = (s, map Write ws) \<and>
      drive rpki_frame None () (concat ws) [] = Some ((), [],
        [buildCacheResponsePdu v i] @ concat D @ [buildEndOfDataPdu v i (env_serial env)], None)"
    if d: "env_delta env serial = Some ops"
      "mapE (buildDeltaOperationBuffers ipToBytes v (aspaFormat s)) ops = Inr D" "\<forall>op\<in>set ops. op_small op"
  proof -
    define ws where "ws = [buildCacheResponsePdu v i] @ concat D @ [buildEndOfDataPdu v i (env_serial env)]"
    have q: "fst (processMessage env message s) = s\<lparr>sendQueue := [SerialResponse ops (env_serial env)]\<rparr>"
      using d(1) s(1,2) canWrite_open [of s] by (simp add: p sendSerialQueryResponse_def enqueueSend_def)
    have e: "s\<lparr>sendQueue := []\<rparr> = s" using s(2) by simp
    have w: "with_sessionId rnd (s\<lparr>sendQueue := []\<rparr>) = s" "sid s = i"
      using s(3) unfolding e by (simp_all add: with_sessionId_def sid_def)
    have "run_next ipToBytes env' snap rnd (fst (processMessage env message s)) = (s, map Write ws)"
      using s w canWrite_open [OF s(1)] delta_writes_concat [OF d(2)]
      by (simp add: q run_next_def Let_def serial_writes_def ws_def)
    moreover have "\<forall>p\<in>set ws. pdu_ok p"
      using mapE_all [OF d(2), of "\<lambda>ps. \<forall>p\<in>set ps. pdu_ok p"] delta_ok d(3) by (fastforce simp: ws_def)
    ultimately show ?thesis
      using frames_of_pdus [of ws "[]"] unfolding ws_def [symmetric] by auto
  qed
  ultimately show ?thesis by blast
qed

section \<open>The receive loop\<close>

text \<open>The messages of a stream handled one after the other, until one closes the session.\<close>

fun deliver :: "rpki_env \<Rightarrow> buffer list \<Rightarrow> rpki_session \<Rightarrow> acted" where
  "deliver env [] s = (s, [])"
| "deliver env (m # ms) s =
     (if closing s then (s, [])
      else let r = processMessage env m s; r2 = deliver env ms (fst r) in (fst r2, snd r @ snd r2))"

text \<open>What is left of the stream after them: the incomplete rest is kept, an invalid length
  closes the session.\<close>

definition finish :: "buffer \<Rightarrow> unit option \<Rightarrow> acted \<Rightarrow> acted" where
  "finish rest e r =
     (if closing (fst r) then r
      else case e of
          None \<Rightarrow> ((fst r)\<lparr>messageBuffer := rest\<rparr>, snd r)
        | Some _ \<Rightarrow> let c = closeSession True False (fst r) in (fst c, snd r @ snd c))"

definition session_ok :: "rpki_session \<Rightarrow> bool" where
  "session_ok s = ((closePromise s \<longrightarrow> closing s) \<and> (closing s \<longrightarrow> messageBuffer s = []))"

lemma deliver_closed [simp]: "closing s \<Longrightarrow> deliver env ms s = (s, [])"
  by (cases ms) simp_all

lemma sendMessage_fst [simp]: "fst (sendMessage b s) = s"
  by (simp add: sendMessage_def)

lemma closeSession_closes: "session_ok s \<Longrightarrow> closing (fst (closeSession ds g s))"
  by (auto simp: closeSession_def closeSocket_def Let_def session_ok_def)

lemma closeSession_buffer: "\<not> closing s \<Longrightarrow> session_ok s \<Longrightarrow>
   closeSession ds g (s\<lparr>messageBuffer := b\<rparr>) = closeSession ds g (s\<lparr>messageBuffer := c\<rparr>)"
  by (auto simp: closeSession_def closeSocket_def client_event_def Let_def session_ok_def)

lemma sendError_closing_buffer: "\<not> closing s \<Longrightarrow> session_ok s \<Longrightarrow>
   sendError code v True (s\<lparr>messageBuffer := b\<rparr>) = sendError code v True (s\<lparr>messageBuffer := c\<rparr>)"
  by (auto simp: sendError_def closeSession_def closeSocket_def client_event_def Let_def session_ok_def)

text \<open>No handler looks at the receive buffer; it survives unless the handler closes the session.\<close>

definition kept :: "buffer \<Rightarrow> acted \<Rightarrow> acted" where
  "kept b r = (if closing (fst r) then fst r else (fst r)\<lparr>messageBuffer := b\<rparr>, snd r)"

lemma sendMessage_kept: "\<not> closing s \<Longrightarrow>
   sendMessage p (s\<lparr>messageBuffer := b\<rparr>) = kept b (sendMessage p s)"
  by (simp add: kept_def sendMessage_def)

lemma closeSession_kept: "session_ok s \<Longrightarrow> \<not> closing s \<Longrightarrow>
   closeSession ds g (s\<lparr>messageBuffer := b\<rparr>) = kept b (closeSession ds g s)"
  by (simp add: kept_def closeSession_def closeSocket_def client_event_def session_ok_def Let_def)

lemma sendError_kept: "session_ok s \<Longrightarrow> \<not> closing s \<Longrightarrow>
   sendError code v cl (s\<lparr>messageBuffer := b\<rparr>) = kept b (sendError code v cl s)"
  by (cases cl) (simp_all add: sendMessage_kept, simp add: kept_def sendError_def closeSession_def closeSocket_def
      client_event_def session_ok_def Let_def)

lemma enqueue_kept: "\<not> closing s \<Longrightarrow>
   (enqueueSend t (s\<lparr>messageBuffer := b\<rparr>), out) = kept b (enqueueSend t s, out)"
  by (simp add: kept_def enqueueSend_def)

lemma handleResetQuery_kept: "session_ok s \<Longrightarrow> \<not> closing s \<Longrightarrow>
   handleResetQuery env h (s\<lparr>messageBuffer := b\<rparr>) = kept b (handleResetQuery env h s)"
  using sendError_kept [of s UNSUPPORTED_PROTOCOL_VERSION "getMaxSupportedVersion env" True b]
  by (simp add: handleResetQuery_def Let_def kept_def enqueueSend_def negotiateVersion_def client_event_def)

lemma handleSerialQuery_kept: "session_ok s \<Longrightarrow> \<not> closing s \<Longrightarrow>
   handleSerialQuery env h m (s\<lparr>messageBuffer := b\<rparr>) =
     map_sum id (kept b) (handleSerialQuery env h m s)"
  by (simp add: handleSerialQuery_def bindE_def sendMessage_kept sendCacheReset_def sendSerialQueryResponse_def
      enqueue_kept split: sum.splits option.splits)

lemma handleErrorReport_kept: "\<not> closing s \<Longrightarrow>
   handleErrorReport m (s\<lparr>messageBuffer := b\<rparr>) = map_sum id (kept b) (handleErrorReport m s)"
  by (simp add: handleErrorReport_def bindE_def kept_def split: sum.splits)

lemma processMessage_kept:
  assumes "session_ok s" "\<not> closing s"
  shows "processMessage env m (s\<lparr>messageBuffer := b\<rparr>) = kept b (processMessage env m s)"
  using assms
  by (simp add: processMessage_def Let_def handleResetQuery_kept handleSerialQuery_kept handleErrorReport_kept
      sendMessage_kept split: sum.splits)

lemma closeSession_ok: "session_ok s \<Longrightarrow> session_ok (fst (closeSession ds g s))"
  by (simp add: closeSession_def closeSocket_def session_ok_def Let_def)

lemma sendError_ok: "session_ok s \<Longrightarrow> \<not> closing s \<Longrightarrow> session_ok (fst (sendError code v cl s))"
  by (cases cl) (simp_all, simp add: sendError_def closeSession_def closeSocket_def session_ok_def Let_def)

lemma processMessage_ok:
  assumes ok: "session_ok s" "\<not> closing s"
  shows "session_ok (fst (processMessage env m s))"
proof -
  have enq: "session_ok (enqueueSend t (negotiateVersion env v s))" "session_ok (enqueueSend t s)" for t v
    using ok by (simp_all add: enqueueSend_def negotiateVersion_def session_ok_def)
  have "handleSerialQuery env h m s = Inr r \<Longrightarrow> session_ok (fst r)" for h r
    using ok enq(2)
    by (auto simp: handleSerialQuery_def bindE_Inr_iff sendCacheReset_def sendSerialQueryResponse_def
        split: if_splits option.splits)
  moreover have "handleErrorReport m s = Inr r \<Longrightarrow> session_ok (fst r)" for r
    using ok by (auto simp: handleErrorReport_def bindE_Inr_iff)
  moreover have "session_ok (fst (handleResetQuery env h s))" for h
    using ok enq(1) sendError_ok by (simp add: handleResetQuery_def Let_def)
  ultimately show ?thesis
    using ok by (simp add: processMessage_def Let_def split: sum.splits)
qed


lemma process_buffered_closed: "session_ok s \<Longrightarrow> closing s \<Longrightarrow> process_buffered env s = (s, [])"
  by (simp add: process_buffered.simps session_ok_def rpki_frame_def RPKI_HEADER_LENGTH_def)

lemma process_buffered_deliver:
  "session_ok s \<Longrightarrow> \<not> closing s \<Longrightarrow>
   drive rpki_frame None () (messageBuffer s) [] = Some ((), rest, ms, e) \<Longrightarrow>
   process_buffered env s = finish rest e (deliver env ms (s\<lparr>messageBuffer := []\<rparr>))"
proof (induction "length (messageBuffer s)" arbitrary: s ms rule: less_induct)
  case less
  define s0 where "s0 = s\<lparr>messageBuffer := []\<rparr>"
  have ok0: "session_ok s0" "\<not> closing s0" using less.prems by (simp_all add: s0_def session_ok_def)
  show ?case
  proof (cases "rpki_frame () (messageBuffer s)")
    case More
    with less.prems have "rest = messageBuffer s" "ms = []" "e = None" by (simp_all add: drive_More)
    with More less.prems(2) show ?thesis by (simp add: process_buffered.simps finish_def)
  next
    case (Fail u)
    with less.prems have r: "rest = messageBuffer s" "ms = []" "e = Some ()" by (simp_all add: drive_Fail)
    with Fail less.prems closeSession_buffer [of s True False "messageBuffer s" "[]"] show ?thesis
      by (simp add: process_buffered.simps finish_def Let_def)
  next
    case (Advance mo u r)
    then obtain m where mo: "mo = Some m"
      by (auto simp: rpki_frame_def Let_def split: if_splits)
    have "drive rpki_frame None () r [m] = Some ((), rest, ms, e)"
      using less.prems(3) drive_Advance [of rpki_frame, OF Advance] mo by simp
    then obtain ms' where ms': "drive rpki_frame None () r [] = Some ((), rest, ms', e)" "ms = m # ms'"
      using rtr.drive_acc [of "()" r "[m]"] by auto
    define r0 where "r0 = processMessage env m s0"
    have sr: "s\<lparr>messageBuffer := r\<rparr> = s0\<lparr>messageBuffer := r\<rparr>" by (simp add: s0_def)
    have step: "process_buffered env s = (let r1 = kept r r0; r2 = process_buffered env (fst r1)
        in (fst r2, snd r1 @ snd r2))"
      by (subst process_buffered.simps) (simp add: Advance mo sr processMessage_kept [OF ok0] flip: r0_def)
    have ok1: "session_ok (fst r0)" using processMessage_ok [OF ok0] by (simp add: r0_def)
    have dl: "deliver env ms s0 = (fst (deliver env ms' (fst r0)), snd r0 @ snd (deliver env ms' (fst r0)))"
      using ok0 ms'(2) by (simp add: Let_def r0_def)
    show ?thesis
    proof (cases "closing (fst r0)")
      case True
      then show ?thesis
        using step dl process_buffered_closed [OF ok1 True]
        by (simp add: kept_def finish_def Let_def flip: s0_def)
    next
      case False
      define s1 where "s1 = (fst r0)\<lparr>messageBuffer := r\<rparr>"
      have "messageBuffer (fst r0) = []"
        using messageBuffer_processMessage [of env m s0 "fst r0" "snd r0"] by (simp add: r0_def s0_def)
      then have b1: "s1\<lparr>messageBuffer := []\<rparr> = fst r0" by (simp add: s1_def)
      have "length (messageBuffer s1) < length (messageBuffer s)"
        using rtr.advance_shrinks [OF _ Advance] by (simp add: s1_def)
      then have "process_buffered env s1 = finish rest e (deliver env ms' (fst r0))"
        using less.hyps [of s1 ms'] ok1 False ms'(1) b1 by (simp add: s1_def session_ok_def)
      then show ?thesis
        using step dl False
        by (simp add: kept_def finish_def Let_def s1_def split: option.splits flip: s0_def)
    qed
  qed
qed

fun recv_all :: "rpki_env \<Rightarrow> buffer list \<Rightarrow> rpki_session \<Rightarrow> acted" where
  "recv_all env [] s = (s, [])"
| "recv_all env (c # cs) s =
     (let r = recvMsg env c s; r2 = recv_all env cs (fst r) in (fst r2, snd r @ snd r2))"

lemma deliver_append:
  "deliver env (xs @ ys) s =
     (let r = deliver env xs s; r2 = deliver env ys (fst r) in (fst r2, snd r @ snd r2))"
  by (induction env xs s rule: deliver.induct) (simp_all add: Let_def)

lemma deliver_ok:
  "session_ok s \<Longrightarrow> messageBuffer s = [] \<Longrightarrow>
   session_ok (fst (deliver env ms s)) \<and> messageBuffer (fst (deliver env ms s)) = []"
proof (induction env ms s rule: deliver.induct)
  case (2 env m ms s)
  then show ?case
    using processMessage_ok [of s env m] messageBuffer_processMessage [of env m s "fst (processMessage env m s)"
        "snd (processMessage env m s)"]
    by (auto simp: Let_def)
qed simp

lemma recv_all_closed: "closing s \<Longrightarrow> recv_all env cs s = (s, [])"
  by (induction cs) (simp_all add: recvMsg_def)

lemma recv_all_deliver:
  "session_ok s \<Longrightarrow> \<not> closing s \<Longrightarrow> rpki_frame () (messageBuffer s) = More \<Longrightarrow>
   length (messageBuffer s) + length (concat cs) \<le> MAX_RPKI_PDU_BYTES \<Longrightarrow>
   drive rpki_frame None () (messageBuffer s @ concat cs) [] = Some ((), rest, ms, e) \<Longrightarrow>
   recv_all env cs s = finish rest e (deliver env ms (s\<lparr>messageBuffer := []\<rparr>))"
proof (induction cs arbitrary: s ms)
  case Nil
  then show ?case by (simp add: drive_More finish_def)
next
  case (Cons c cs)
  define s0 where "s0 = s\<lparr>messageBuffer := []\<rparr>"
  obtain b1 ms1 e1 where d1: "drive rpki_frame None () (messageBuffer s @ c) [] = Some ((), b1, ms1, e1)"
    using rtr.drive_returns [where lim = None and s = "()" and b = "messageBuffer s @ c" and acc = "[]"] by auto
  define d where "d = deliver env ms1 s0"
  have ok0: "session_ok s0" "messageBuffer s0 = []" using Cons.prems by (simp_all add: s0_def session_ok_def)
  have okd: "session_ok (fst d)" "messageBuffer (fst d) = []"
    using deliver_ok [OF ok0] by (simp_all add: d_def)
  have "recvMsg env c s = process_buffered env (s\<lparr>messageBuffer := messageBuffer s @ c\<rparr>)"
    using Cons.prems(2,4) by (simp add: recvMsg_def)
  also have "\<dots> = finish b1 e1 d"
    using process_buffered_deliver [of "s\<lparr>messageBuffer := messageBuffer s @ c\<rparr>" b1 ms1 e1 env] d1 Cons.prems(1,2)
    by (simp add: d_def s0_def session_ok_def)
  finally have r: "recvMsg env c s = finish b1 e1 d" .
  note ap = rtr.drive_append [where s = "()" and b = "messageBuffer s @ c" and x = "concat cs" and acc = "[]"]
  show ?case
  proof (cases "closing (fst d)")
    case True
    obtain ms2 where "ms = ms1 @ ms2"
      using ap d1 Cons.prems(5) rtr.drive_acc [of "()" "b1 @ concat cs" ms1]
      by (cases e1) auto
    then show ?thesis
      using True r recv_all_closed [OF True] deliver_append [of env ms1 ms2 s0]
      by (simp add: finish_def Let_def flip: s0_def d_def)
  next
    case False
    show ?thesis
    proof (cases e1)
      case (Some u)
      with ap d1 Cons.prems(5) have "ms = ms1" "e = Some ()" by auto
      moreover have "closing (fst (closeSession True False (fst d)))"
        using closeSession_closes [OF okd(1)] .
      ultimately show ?thesis
        using Some r False by (simp add: finish_def Let_def recv_all_closed flip: s0_def d_def)
    next
      case None
      define s1 where "s1 = (fst d)\<lparr>messageBuffer := b1\<rparr>"
      obtain ms2 where ms2: "ms = ms1 @ ms2" "drive rpki_frame None () (b1 @ concat cs) [] = Some ((), rest, ms2, e)"
        using ap d1 None Cons.prems(5) rtr.drive_acc [of "()" "b1 @ concat cs" ms1] by auto
      have "rpki_frame () b1 = More" using rtr.drive_quiescent [OF _ d1 [unfolded None]] by simp
      moreover have "length b1 \<le> length (messageBuffer s @ c)" using rtr.drive_rest [OF _ d1] by simp
      ultimately have "recv_all env cs s1 = finish rest e (deliver env ms2 (s1\<lparr>messageBuffer := []\<rparr>))"
        using Cons.IH [of s1 ms2] okd(1) False Cons.prems(4) ms2(2) by (simp add: s1_def session_ok_def)
      moreover have "s1\<lparr>messageBuffer := []\<rparr> = fst d" using okd(2) by (simp add: s1_def)
      ultimately show ?thesis
        using r None False ms2(1) deliver_append [of env ms1 ms2 s0]
        by (simp add: finish_def Let_def s1_def split: option.splits flip: s0_def d_def)
    qed
  qed
qed

text \<open>C5. The way the network cuts the client's byte stream does not matter: handing the pieces to
  \<open>recvMsg\<close> one after the other has the effect of handling, in order, the messages
  that the length fields of the whole stream delimit, until one closes the session; an
  incomplete rest stays buffered and an invalid length field closes the session.\<close>

theorem rpki_receive:
  assumes "session_ok s" "\<not> closing s" "messageBuffer s = []"
    and "length (concat cs) \<le> MAX_RPKI_PDU_BYTES"
    and "drive rpki_frame None () (concat cs) [] = Some ((), rest, ms, e)"
  shows "recv_all env cs s = finish rest e (deliver env ms s)"
proof -
  have "s\<lparr>messageBuffer := []\<rparr> = s" using assms(3) by simp
  with recv_all_deliver [of s cs rest ms e env] assms show ?thesis
    by (simp add: rpki_frame_def RPKI_HEADER_LENGTH_def)
qed

lemma frame_pdu:
  "pdu_ok p \<Longrightarrow> rpki_frame () (p @ x) = Advance (Some p) () x"
  by (auto simp: rpki_frame_def pdu_ok_def Let_def parseRpkiHeader_def RPKI_HEADER_LENGTH_def
      be32_append1 subarray_0)

text \<open>C35. A Reset Query of a version above the configured maximum ends the session: the last bytes
  are one Error Report with code 4 in the maximum version, everything behind the query in
  the same data is dropped, and afterwards the session neither reads nor writes.\<close>

theorem rpki_version_rejected:
  assumes s: "session_ok s" "\<not> closing s" "socket s" "messageBuffer s = []"
    and v: "getMaxSupportedVersion env < v" "v < 256"
    and m: "message = pdu v RESET_QUERY mid []" "length mid = 2"
    and len: "length (message @ x) \<le> MAX_RPKI_PDU_BYTES"
  shows "\<exists>s'. recvMsg env (message @ x) s =
      (s', [EndWith (buildErrorReportPdu UNSUPPORTED_PROTOCOL_VERSION (getMaxSupportedVersion env)),
            SessionRemoved, client_event ClientDelete s]) \<and>
    (\<forall>env' b. recvMsg env' b s' = (s', [])) \<and>
    (\<forall>ip env' snap rnd. snd (run_next ip env' snap rnd s') = [])"
proof -
  define s' where "s' = s\<lparr>closing := True, closed := True, messageBuffer := [], closePromise := True\<rparr>"
  have ok: "pdu_ok message" using m by (simp add: pdu_ok_pdu)
  have h: "h_type (parseRpkiHeader message) = RESET_QUERY" "h_version (parseRpkiHeader message) = v"
    using v(2) by (simp_all add: m parseRpkiHeader_def)
  have "processMessage env message (s\<lparr>messageBuffer := x\<rparr>) =
      (s', [EndWith (buildErrorReportPdu UNSUPPORTED_PROTOCOL_VERSION (getMaxSupportedVersion env)),
            SessionRemoved, client_event ClientDelete s])"
    using s v(1) h
    by (simp add: processMessage_def handleResetQuery_def sendError_def closeSession_def Let_def s'_def
        client_event_def session_ok_def SERIAL_QUERY_def RESET_QUERY_def)
  moreover have "process_buffered env s' = (s', [])"
    by (rule process_buffered_closed) (simp_all add: s'_def session_ok_def)
  ultimately have "recvMsg env (message @ x) s =
      (s', [EndWith (buildErrorReportPdu UNSUPPORTED_PROTOCOL_VERSION (getMaxSupportedVersion env)),
            SessionRemoved, client_event ClientDelete s])"
    using s len frame_pdu [OF ok, of x]
    by (simp add: recvMsg_def process_buffered.simps [of env "s\<lparr>messageBuffer := message @ x\<rparr>"] Let_def)
  moreover have "recvMsg env' b s' = (s', [])" for env' b by (simp add: recvMsg_def s'_def)
  moreover have "snd (run_next ip env' snap rnd s') = []" for ip env' snap rnd
    by (simp add: run_next_def s'_def Let_def split: list.splits)
  ultimately show ?thesis by blast
qed

text \<open>A prefix PDU carries its ROA: version, type, length, flags, prefix length, maximum
  length, address bytes and origin AS can be read back at the offsets of RFC 8210, 5.6 and 5.7.\<close>

theorem rpki_prefix_pdu:
  assumes "buildPrefixPdu ipToBytes v r flags isIpv6 = Inr b" "ipToBytes (roa_ip r) = Inr ip"
    and "length ip = (if isIpv6 then 16 else 4)"
    and "v < 256" "roa_mask r < 256" "roa_maxLength r < 256"
  shows "parseRpkiHeader b = \<lparr>h_version = v, h_type = (if isIpv6 then IPV6_PREFIX else IPV4_PREFIX),
       h_reserved = 0, h_length = length b\<rparr> \<and>
     b ! 8 = flags \<and> unat (b ! 9) = roa_mask r \<and> unat (b ! 10) = roa_maxLength r \<and>
     subarray b 12 (length b - 4) = ip \<and> be32 b (length b - 4) = roa_asn r"
proof -
  define n where "n = (if isIpv6 then 16 else 4 :: nat)"
  have ip: "length ip = n" using assms(3) by (simp add: n_def)
  note build = assms(1) [unfolded buildPrefixPdu_def n_def [symmetric] Let_def assms(2), simplified]
  obtain a where asn: "writeUInt32BE (Some (int (roa_asn r))) = Inr a"
    using build by (auto simp: bindE_Inr_iff)
  then have a: "a = enc32 (roa_asn r)" "roa_asn r \<le> 0xffffffff"
    by (auto simp: writeUInt32BE_def split: if_splits)
  have "map (byte_at ip) [0..<n] = ip"
    by (simp add: byte_at_def list_eq_iff_nth_eq ip)
  with build asn have b: "b = pdu v (if isIpv6 then IPV6_PREFIX else IPV4_PREFIX) (enc16 0)
      ([flags, word_of_nat (roa_mask r), word_of_nat (roa_maxLength r), 0] @ ip @ a)"
    by simp
  have len: "length b = 16 + length ip" using a(1) by (simp add: b)
  define hd where "hd = [word_of_nat v, if isIpv6 then IPV6_PREFIX else IPV4_PREFIX] @ enc16 0 @
      enc32 (16 + length ip) @ [flags, word_of_nat (roa_mask r), word_of_nat (roa_maxLength r), 0]"
  have b': "b = hd @ ip @ a" and lh: "length hd = 12"
    by (simp_all add: b hd_def pdu_def RPKI_HEADER_LENGTH_def a(1))
  have "b ! 8 = flags" "b ! 9 = word_of_nat (roa_mask r)" "b ! 10 = word_of_nat (roa_maxLength r)"
    by (simp_all add: b pdu_def enc16_def enc32_def)
  moreover have "parseRpkiHeader b = \<lparr>h_version = v, h_type = (if isIpv6 then IPV6_PREFIX else IPV4_PREFIX),
       h_reserved = 0, h_length = length b\<rparr>"
    using assms(4) ip len by (simp add: parseRpkiHeader_def b be32_pdu buf_simps a(1) n_def)
  moreover have "subarray b 12 (length b - 4) = ip"
    using lh len by (simp add: b' subarray_def)
  moreover have "be32 b (length b - 4) = roa_asn r"
    using lh len a by (simp add: b' buf_simps)
  ultimately show ?thesis using assms(5,6) by simp
qed

section \<open>A concrete session\<close>

definition demo_ip :: "string \<Rightarrow> js_error + buffer" where
  "demo_ip ip = (if ip = ''10.0.0.0'' then Inr [10, 0, 0, 0] else Inl JsError)"

definition demo_roa :: roa where
  "demo_roa = \<lparr>roa_ipType = 1, roa_asn = 65001, roa_ip = ''10.0.0.0'', roa_mask = 8, roa_maxLength = 24\<rparr>"

definition demo_aspa :: aspa where
  "demo_aspa = \<lparr>customerAsn = 65001, providerAsns = [65002], afiFlags = 3\<rparr>"

definition demo_roa_pdu :: "nat \<Rightarrow> byte \<Rightarrow> buffer" where
  "demo_roa_pdu v flags = pdu v IPV4_PREFIX (enc16 0) ([flags, 8, 24, 0, 10, 0, 0, 0] @ enc32 65001)"

definition demo_peer :: endpoint where
  "demo_peer = \<lparr>localIp = ''10.0.0.1'', localPort = 323, remoteIp = ''10.0.0.2'', remotePort = 40000,
     transport = ''tcp'', authentication = ''none'', authProfileId = None, authProfileName = None,
     authPeer = None, tcpAoProfileId = None, tcpAoProfileName = None, tcpAoPeer = None,
     tcpMd5ProfileId = None, tcpMd5ProfileName = None, tcpMd5Peer = None\<rparr>"

definition demo_session :: rpki_session where
  "demo_session = new_RpkiSession demo_peer LATEST"

definition demo_snapshot :: snapshot where
  "demo_snapshot = \<lparr>snap_serial = 7, snap_roas = [demo_roa], snap_routerKeys = [], snap_aspas = [demo_aspa]\<rparr>"

definition demo_env :: rpki_env where
  "demo_env = \<lparr>env_serial = 7, env_maxVersion = Some 1,
     env_delta = (\<lambda>n. if n = 6 then Some [RoaOp Withdraw demo_roa] else None)\<rparr>"

lemmas demo_session_defs = demo_session_def new_RpkiSession_def demo_env_def demo_snapshot_def

lemma demo_prefix: "buildPrefixPdu demo_ip v demo_roa flags False = Inr (demo_roa_pdu v flags)"
  by (simp add: buildPrefixPdu_def demo_ip_def demo_roa_def demo_roa_pdu_def writeUInt32BE_def byte_at_def
      upt_rec [of _ 4])

lemma demo_roa_pdus: "roa_pdus demo_ip v flags demo_roa = Inr [demo_roa_pdu v flags]"
proof -
  have "\<not> is_ipv6_roa demo_roa" by (simp add: is_ipv6_roa_def demo_roa_def IPV4_def)
  then show ?thesis by (simp add: roa_pdus_def demo_prefix)
qed

lemma demo_session_ok: "session_ok demo_session" "\<not> closing demo_session" "socket demo_session"
  "messageBuffer demo_session = []" "sendQueue demo_session = []" "canWrite demo_session"
  by (simp_all add: demo_session_defs session_ok_def canWrite_def)

theorem rpki_chunked_list_witness:
  "concat (fst (writeChunkedPduList (roa_pdus demo_ip 1 UPDATE) [demo_roa, demo_roa])) =
     demo_roa_pdu 1 UPDATE @ demo_roa_pdu 1 UPDATE"
  using rpki_chunked_list [of "roa_pdus demo_ip 1 UPDATE" "[demo_roa, demo_roa]"
      "[[demo_roa_pdu 1 UPDATE], [demo_roa_pdu 1 UPDATE]]"]
  by (simp add: demo_roa_pdus)

theorem rpki_reset_response_witness:
  "\<exists>ws. snd (run_next demo_ip demo_env (Inr demo_snapshot) 99
       (fst (processMessage demo_env (pdu 1 RESET_QUERY (enc16 0) []) demo_session))) = map Write ws \<and>
     drive rpki_frame None () (concat ws) [] = Some ((), [],
       [buildCacheResponsePdu 1 99, demo_roa_pdu 1 UPDATE, buildEndOfDataPdu 1 99 7], None)"
proof -
  obtain s' out where run: "run_next demo_ip demo_env (Inr demo_snapshot) 99
       (fst (processMessage demo_env (pdu 1 RESET_QUERY (enc16 0) []) demo_session)) = (s', out)"
    by fastforce
  have hd: "h_type (parseRpkiHeader (pdu 1 RESET_QUERY (enc16 0) [])) = RESET_QUERY"
    "h_version (parseRpkiHeader (pdu 1 RESET_QUERY (enc16 0) [])) = 1"
    by (simp_all add: parseRpkiHeader_def)
  have v: "1 \<le> getMaxSupportedVersion demo_env" by (simp add: getMaxSupportedVersion_def demo_env_def)
  have R: "mapE (roa_pdus demo_ip 1 UPDATE) (snap_roas demo_snapshot) = Inr [[demo_roa_pdu 1 UPDATE]]"
    by (simp add: demo_snapshot_def demo_roa_pdus)
  have K: "mapE (router_key_pdus 1 UPDATE) (snap_routerKeys demo_snapshot) = Inr []"
    by (simp add: demo_snapshot_def)
  have A: "mapE (\<lambda>a. buildAspaPdus 1 (aspaFormat demo_session) a UPDATE) (snap_aspas demo_snapshot) = Inr [[]]"
    by (simp add: demo_snapshot_def buildAspaPdus_def)
  have enc: "encodable demo_snapshot" by (simp add: encodable_def demo_snapshot_def demo_aspa_def)
  have "sid s' = 99"
    using run hd v
    by (auto simp: run_next_def processMessage_def handleResetQuery_def negotiateVersion_def enqueueSend_def
        demo_session_def new_RpkiSession_def with_sessionId_def sid_def Let_def RESET_QUERY_def SERIAL_QUERY_def)
  with rpki_reset_response [OF demo_session_ok(6,5) hd v R K A enc run] run show ?thesis
    by (auto simp: demo_snapshot_def)
qed

theorem rpki_serial_response_witness:
  "(\<exists>ws. run_next demo_ip demo_env (Inl JsError) 0 (fst (processMessage demo_env
        (pdu 1 SERIAL_QUERY (enc16 99) (enc32 6)) (demo_session\<lparr>sessionId := Some 99, protocolVersion := 1\<rparr>)))
      = (demo_session\<lparr>sessionId := Some 99, protocolVersion := 1\<rparr>, map Write ws) \<and>
     drive rpki_frame None () (concat ws) [] = Some ((), [],
       [buildCacheResponsePdu 1 99, demo_roa_pdu 1 WITHDRAWAL, buildEndOfDataPdu 1 99 7], None)) \<and>
   processMessage demo_env (pdu 1 SERIAL_QUERY (enc16 99) (enc32 5))
       (demo_session\<lparr>sessionId := Some 99, protocolVersion := 1\<rparr>)
     = (demo_session\<lparr>sessionId := Some 99, protocolVersion := 1\<rparr>, [Write (cacheResetPdu 1)])"
proof -
  define s where "s = demo_session\<lparr>sessionId := Some 99, protocolVersion := 1\<rparr>"
  have s: "canWrite s" "sendQueue s = []" "sessionId s = Some 99" "(99::nat) < 65536" "protocolVersion s = 1"
    "(1::nat) < 256"
    using demo_session_ok by (simp_all add: s_def canWrite_def)
  have "\<not> is_ipv6_roa demo_roa" by (simp add: is_ipv6_roa_def demo_roa_def IPV4_def)
  then have D: "mapE (buildDeltaOperationBuffers demo_ip 1 (aspaFormat s)) [RoaOp Withdraw demo_roa] =
      Inr [[demo_roa_pdu 1 WITHDRAWAL]]"
    by (simp add: demo_prefix)
  have "\<exists>ws. run_next demo_ip demo_env (Inl JsError) 0 (fst (processMessage demo_env
        (pdu 1 SERIAL_QUERY (enc16 99) (enc32 6)) s)) = (s, map Write ws) \<and>
     drive rpki_frame None () (concat ws) [] = Some ((), [],
       [buildCacheResponsePdu 1 99, demo_roa_pdu 1 WITHDRAWAL, buildEndOfDataPdu 1 99 7], None)"
    using rpki_serial_response [OF s, of "pdu 1 SERIAL_QUERY (enc16 99) (enc32 6)" 6 demo_env
        "[RoaOp Withdraw demo_roa]" demo_ip "[[demo_roa_pdu 1 WITHDRAWAL]]" demo_env "Inl JsError" 0] D
    by (simp add: demo_env_def op_small_def)
  moreover have "processMessage demo_env (pdu 1 SERIAL_QUERY (enc16 99) (enc32 5)) s = (s, [Write (cacheResetPdu 1)])"
    using rpki_serial_response [OF s, of "pdu 1 SERIAL_QUERY (enc16 99) (enc32 5)" 5 demo_env]
    by (simp add: demo_env_def)
  ultimately show ?thesis unfolding s_def ..
qed

theorem rpki_receive_witness:
  "recv_all demo_env [take 3 (pdu 1 RESET_QUERY (enc16 0) []), drop 3 (pdu 1 RESET_QUERY (enc16 0) [])] demo_session
     = finish [] None (deliver demo_env [pdu 1 RESET_QUERY (enc16 0) []] demo_session)"
proof -
  have "drive rpki_frame None () (concat [pdu 1 RESET_QUERY (enc16 0) []]) [] =
      Some ((), [], [] @ [pdu 1 RESET_QUERY (enc16 0) []], None)"
    by (rule frames_of_pdus) (simp add: pdu_ok_pdu)
  with rpki_receive [OF demo_session_ok(1,2,4), of "[take 3 (pdu 1 RESET_QUERY (enc16 0) []), drop 3 (pdu 1 RESET_QUERY (enc16 0) [])]"
      "[]" "[pdu 1 RESET_QUERY (enc16 0) []]" None demo_env]
  show ?thesis by (simp add: MAX_RPKI_PDU_BYTES_def)
qed

theorem rpki_version_rejected_witness:
  "snd (recvMsg demo_env (pdu 2 RESET_QUERY (enc16 0) []) demo_session) =
     [EndWith (buildErrorReportPdu 4 1), SessionRemoved, client_event ClientDelete demo_session]"
proof -
  have v: "getMaxSupportedVersion demo_env = 1" by (simp add: getMaxSupportedVersion_def demo_env_def)
  show ?thesis
    using rpki_version_rejected [OF demo_session_ok(1-4), of demo_env 2 "pdu 2 RESET_QUERY (enc16 0) []" "enc16 0" "[]"]
    by (auto simp: v UNSUPPORTED_PROTOCOL_VERSION_def MAX_RPKI_PDU_BYTES_def)
qed

theorem rpki_prefix_pdu_witness:
  "demo_roa_pdu 1 UPDATE ! 8 = UPDATE \<and> unat (demo_roa_pdu 1 UPDATE ! 9) = 8 \<and>
   be32 (demo_roa_pdu 1 UPDATE) 16 = 65001"
proof -
  have "length (demo_roa_pdu 1 UPDATE) = 20" by (simp add: demo_roa_pdu_def)
  with rpki_prefix_pdu [OF demo_prefix, of "[10, 0, 0, 0]" 1 UPDATE] show ?thesis
    by (simp add: demo_ip_def demo_roa_def)
qed

end
