(* ===== verification/Rpki_Worker.thy ===== *)
theory Rpki_Worker
  imports Rpki_Import Rpki_Session
begin

text \<open>
  The RPKI worker (\<open>rpkiWorker.js\<close>): the cache serial, the bounded history of changes behind
  the Serial Query, the storage requests and the table of sessions.

  State: \<open>rpki_worker\<close>.  \<open>cacheSerial\<close> is a 32 bit word (every assignment goes through
  \<open>>>> 0\<close>).  The database connection is the store of \<open>Rpki_Store\<close>, \<open>None\<close> when closed; the
  import worker thread writes the same database, so an import is one request here.
  Requests run one after the other (\<open>storageMutationQueue\<close>).  A request yields the new
  state and its reply; \<open>None\<close> stands for a loop that never ends, which the
  \<open>while\<close> of \<open>trimSerialHistory\<close> could be and, by the invariant, is not.

  The main result is about \<open>getDeltaOperationsSince\<close>: replaying the changes it returns
  on the data set of an earlier serial gives the current data set.
\<close>

section \<open>Serial numbers\<close>

text \<open>What can be passed as a serial: \<open>undefined\<close>, \<open>null\<close> or the empty string (both
  of which \<open>Number\<close> turns into zero), a value whose \<open>Number\<close> is an integer, one whose
  \<open>Number\<close> is not, or an object with the first of its three serial fields.\<close>

datatype serial_value = SUndefined | SEmpty | SInteger int | SNotInteger | SObject serial_value

fun serial_number :: "serial_value \<Rightarrow> int option" where
  "serial_number (SInteger n) = Some n"
| "serial_number SEmpty = Some 0"
| "serial_number _ = None"

fun serial_candidate :: "serial_value \<Rightarrow> serial_value" where
  "serial_candidate (SObject v) = v"
| "serial_candidate v = v"

definition normalizeCacheSerial :: "serial_value \<Rightarrow> 32 word \<Rightarrow> 32 word" where
  "normalizeCacheSerial v fallback = (case serial_number (serial_candidate v) of
      None \<Rightarrow> fallback
    | Some n \<Rightarrow> if n < 0 then fallback else word_of_int n)"

definition isSerialNewer :: "32 word \<Rightarrow> 32 word \<Rightarrow> bool" where
  "isSerialNewer candidate reference = (let d = candidate - reference in d \<noteq> 0 \<and> d < 0x80000000)"

section \<open>The size of a recorded change\<close>

text \<open>\<open>JSON.stringify\<close> of the operations, as far as they occur.\<close>

definition json_escape :: "char \<Rightarrow> string" where
  "json_escape c = (let n = of_char c :: nat in
     if n = 34 then [char_of (92::nat), char_of (34::nat)]
     else if n = 92 then [char_of (92::nat), char_of (92::nat)]
     else if n = 8 then char_of (92::nat) # ''b'' else if n = 9 then char_of (92::nat) # ''t''
     else if n = 10 then char_of (92::nat) # ''n'' else if n = 12 then char_of (92::nat) # ''f''
     else if n = 13 then char_of (92::nat) # ''r''
     else if n < 32 then char_of (92::nat) # ''u00'' @ [hex_digit (n div 16), hex_digit (n mod 16)]
     else [c])"

definition json_string :: "string \<Rightarrow> string" where
  "json_string s = [char_of (34::nat)] @ concat (map json_escape s) @ [char_of (34::nat)]"

definition json_field :: "string \<Rightarrow> string \<Rightarrow> string" where
  "json_field k v = json_string k @ '':'' @ v"

definition json_object :: "string list \<Rightarrow> string" where
  "json_object ms = ''{'' @ join '','' ms @ ''}''"

definition json_array :: "string list \<Rightarrow> string" where
  "json_array vs = ''['' @ join '','' vs @ '']''"

definition json_roa :: "roa \<Rightarrow> string" where
  "json_roa r = json_object [json_field ''ipType'' (dec (roa_ipType r)),
     json_field ''asn'' (json_string (dec (roa_asn r))), json_field ''ip'' (json_string (roa_ip r)),
     json_field ''mask'' (json_string (dec (roa_mask r))),
     json_field ''maxLength'' (json_string (dec (roa_maxLength r)))]"

definition json_aspa :: "aspa \<Rightarrow> string" where
  "json_aspa a = json_object [json_field ''customerAsn'' (json_string (dec (customerAsn a))),
     json_field ''providerAsns'' (json_array (map dec (providerAsns a))),
     json_field ''afiFlags'' (dec (afiFlags a))]"

definition json_router_key :: "router_key \<Rightarrow> string" where
  "json_router_key rk = json_object [json_field ''ski'' (json_string (rk_ski rk)),
     json_field ''asn'' (json_string (rk_asn rk)), json_field ''spki'' (json_string (rk_spki rk))]"

fun action_name :: "action \<Rightarrow> string" where
  "action_name Announce = ''announce''"
| "action_name Withdraw = ''withdraw''"

definition json_op :: "string \<Rightarrow> string \<Rightarrow> string list \<Rightarrow> string" where
  "json_op ty act rest =
     json_object ([json_field ''type'' (json_string ty), json_field ''action'' (json_string act)] @ rest)"

fun json_operation :: "operation \<Rightarrow> string" where
  "json_operation (RoaOp act r) = json_op ''roa'' (action_name act) [json_field ''data'' (json_roa r)]"
| "json_operation (RouterKeyOp act rk) =
     json_op ''routerKey'' (action_name act) [json_field ''data'' (json_router_key rk)]"
| "json_operation (AspaOp act a) = json_op ''aspa'' (action_name act) [json_field ''data'' (json_aspa a)]"
| "json_operation (AspaReplace old new) =
     json_op ''aspa'' ''replace'' [json_field ''oldData'' (json_aspa old), json_field ''newData'' (json_aspa new)]"

definition estimateSerialOperationsBytes :: "operation list \<Rightarrow> nat" where
  "estimateSerialOperationsBytes ops = length (json_array (map json_operation ops))"

section \<open>State\<close>

record history_entry =
  he_serial :: "32 word"
  he_ops :: "operation list"
  he_bytes :: nat

record rpki_worker =
  rpkiStore :: "rpki_store option"
  configured :: bool
  storageStopping :: bool
  rpkiRouterKeyMap :: "(string \<times> router_key) list"
  rpkiSessionMap :: "(string \<times> rpki_session) list"
  cacheSerial :: "32 word"
  serialHistory :: "history_entry list"
  serialHistoryOperationCount :: int
  serialHistoryBytes :: int
  activeDataSnapshots :: nat
  maxConcurrentDataSnapshots :: nat

definition maxSerialHistoryEntries :: nat where "maxSerialHistoryEntries = 1024"
definition maxSerialHistoryOperations :: nat where "maxSerialHistoryOperations = 10000"
definition maxSerialHistoryBytes :: nat where "maxSerialHistoryBytes = 16 * 1024 * 1024"

definition new_RpkiWorker :: rpki_worker where
  "new_RpkiWorker = \<lparr>rpkiStore = None, configured = False, storageStopping = False, rpkiRouterKeyMap = [],
     rpkiSessionMap = [], cacheSerial = 1, serialHistory = [], serialHistoryOperationCount = 0,
     serialHistoryBytes = 0, activeDataSnapshots = 0, maxConcurrentDataSnapshots = 4\<rparr>"

section \<open>Recording a change\<close>

definition getStoreCacheSerial :: "rpki_worker \<Rightarrow> 32 word" where
  "getStoreCacheSerial w = (case rpkiStore w of None \<Rightarrow> cacheSerial w | Some st \<Rightarrow> cache_serial st)"

definition bumpCacheSerial :: "rpki_worker \<Rightarrow> 32 word \<times> rpki_worker" where
  "bumpCacheSerial w = (case rpkiStore w of
      Some st \<Rightarrow> let (n, st') = bumpCacheSerialInTransaction st
                 in (n, w\<lparr>rpkiStore := Some st', cacheSerial := n\<rparr>)
    | None \<Rightarrow> (cacheSerial w + 1, w\<lparr>cacheSerial := cacheSerial w + 1\<rparr>))"

definition clearSerialHistory :: "rpki_worker \<Rightarrow> rpki_worker" where
  "clearSerialHistory w = w\<lparr>serialHistory := [], serialHistoryOperationCount := 0, serialHistoryBytes := 0\<rparr>"

definition over_limit :: "history_entry list \<Rightarrow> int \<Rightarrow> int \<Rightarrow> bool" where
  "over_limit h ops bytes = (length h > maxSerialHistoryEntries \<or> ops > int maxSerialHistoryOperations \<or>
     bytes > int maxSerialHistoryBytes)"

text \<open>The loop removes the oldest entry while a limit is exceeded; on an empty history it would
  remove nothing and go on for ever.\<close>

fun trim_loop :: "history_entry list \<Rightarrow> int \<Rightarrow> int \<Rightarrow> (history_entry list \<times> int \<times> int) option" where
  "trim_loop [] ops bytes = (if over_limit [] ops bytes then None else Some ([], ops, bytes))"
| "trim_loop (e # h) ops bytes =
     (if over_limit (e # h) ops bytes
      then trim_loop h (ops - int (length (he_ops e))) (bytes - int (he_bytes e))
      else Some (e # h, ops, bytes))"

definition trimSerialHistory :: "rpki_worker \<Rightarrow> rpki_worker option" where
  "trimSerialHistory w =
     map_option (\<lambda>(h, ops, bytes). w\<lparr>serialHistory := h, serialHistoryOperationCount := ops, serialHistoryBytes := bytes\<rparr>)
       (trim_loop (serialHistory w) (serialHistoryOperationCount w) (serialHistoryBytes w))"

definition resolveMutationSerial :: "serial_value \<Rightarrow> rpki_worker \<Rightarrow> (32 word \<times> bool) \<times> rpki_worker" where
  "resolveMutationSerial v w =
     (let previous = cacheSerial w;
          provided = (if v = SUndefined \<or> v = SEmpty then None else Some (normalizeCacheSerial v previous));
          fromStore = getStoreCacheSerial w;
          s1 = (if isSerialNewer fromStore previous then fromStore else previous);
          s2 = (case provided of None \<Rightarrow> s1 | Some p \<Rightarrow> if isSerialNewer p s1 then p else s1);
          providedIsNext = (case provided of None \<Rightarrow> True | Some p \<Rightarrow> p = previous + 1);
          (s3, w') = (if s2 = previous then bumpCacheSerial w else (s2, w))
      in ((s3, \<not> providedIsNext \<or> s3 \<noteq> previous + 1), w'))"

definition notify_all :: "rpki_worker \<Rightarrow> rpki_worker" where
  "notify_all w = w\<lparr>rpkiSessionMap := map (\<lambda>(k, s). (k, sendSerialNotify s)) (rpkiSessionMap w)\<rparr>"

definition recordSerialDeltaAndNotify :: "operation list \<Rightarrow> serial_value \<Rightarrow> bool \<Rightarrow> rpki_worker
    \<Rightarrow> (rpki_worker \<times> 32 word \<times> bool) option" where
  "recordSerialDeltaAndNotify ops v invalidate w =
     (let previous = cacheSerial w;
          ((serial, force), w1) = resolveMutationSerial v w;
          bytes = estimateSerialOperationsBytes ops;
          invalidated = (invalidate \<or> force \<or> length ops > maxSerialHistoryOperations \<or>
            bytes > maxSerialHistoryBytes \<or> serial \<noteq> previous + 1);
          w2 = w1\<lparr>cacheSerial := serial\<rparr>;
          w3 = (if invalidated then Some (clearSerialHistory w2)
                else if ops \<noteq> []
                then trimSerialHistory (w2\<lparr>serialHistory := serialHistory w2 @ [\<lparr>he_serial = serial, he_ops = ops, he_bytes = bytes\<rparr>],
                       serialHistoryOperationCount := serialHistoryOperationCount w2 + int (length ops),
                       serialHistoryBytes := serialHistoryBytes w2 + int bytes\<rparr>)
                else Some w2)
      in map_option (\<lambda>w4. (if serial \<noteq> previous then notify_all w4 else w4, serial, invalidated)) w3)"

fun index_of :: "32 word \<Rightarrow> history_entry list \<Rightarrow> nat option" where
  "index_of s [] = None"
| "index_of s (e # h) = (if he_serial e = s then Some 0 else map_option Suc (index_of s h))"

fun collect_ops :: "32 word \<Rightarrow> history_entry list \<Rightarrow> operation list option" where
  "collect_ops expected [] = Some []"
| "collect_ops expected (e # h) =
     (if he_serial e \<noteq> expected then None
      else map_option (\<lambda>ops. he_ops e @ ops) (collect_ops (expected + 1) h))"

definition getDeltaOperationsSince :: "rpki_worker \<Rightarrow> 32 word \<Rightarrow> operation list option" where
  "getDeltaOperationsSince w requested =
     (if requested = cacheSerial w then Some []
      else case index_of (requested + 1) (serialHistory w) of
          None \<Rightarrow> None
        | Some i \<Rightarrow>
            let entries = drop i (serialHistory w) in
            if entries = [] \<or> he_serial (last entries) \<noteq> cacheSerial w then None
            else collect_ops (requested + 1) entries)"

section \<open>Storage requests\<close>

definition assertStorageAvailable :: "rpki_worker \<Rightarrow> js_error + rpki_store" where
  "assertStorageAvailable w =
     (if storageStopping w then Inl JsError
      else if \<not> configured w then Inl JsError
      else case rpkiStore w of None \<Rightarrow> Inl JsError | Some st \<Rightarrow> Inr st)"

type_synonym reply = "(rpki_worker \<times> (js_error + unit)) option"

text \<open>\<open>handleStorageRequest\<close>: the request runs on the open store or is refused.\<close>

definition handleStorageRequest :: "(rpki_store \<Rightarrow> rpki_worker \<Rightarrow> reply) \<Rightarrow> rpki_worker \<Rightarrow> reply" where
  "handleStorageRequest run w =
     (case assertStorageAvailable w of Inl e \<Rightarrow> Some (w, Inl e) | Inr st \<Rightarrow> run st w)"

definition recorded :: "operation list \<Rightarrow> serial_value \<Rightarrow> bool \<Rightarrow> rpki_worker \<Rightarrow> reply" where
  "recorded ops v invalidate w =
     map_option (\<lambda>(w', _). (w', Inr ())) (recordSerialDeltaAndNotify ops v invalidate w)"

definition word_value :: "32 word \<Rightarrow> serial_value" where
  "word_value s = SInteger (uint s)"

definition addRoa_request :: "('v \<Rightarrow> roa option) \<Rightarrow> 'v \<Rightarrow> rpki_worker \<Rightarrow> reply" where
  "addRoa_request norm v = handleStorageRequest (\<lambda>st w. case addRoa norm v st of
      Inl e \<Rightarrow> Some (w, Inl e)
    | Inr (st', r) \<Rightarrow>
        let w1 = w\<lparr>rpkiStore := Some st'\<rparr> in
        if r_changed r = 0 then Some (w1, Inl JsError)
        else recorded (case r_item r of None \<Rightarrow> [] | Some x \<Rightarrow> [RoaOp Announce x]) (word_value (r_serial r)) False w1)"

definition addRoaBatch_request :: "('v \<Rightarrow> roa option) \<Rightarrow> nat option \<Rightarrow> 'v list \<Rightarrow> rpki_worker \<Rightarrow> reply" where
  "addRoaBatch_request norm limit vs = handleStorageRequest (\<lambda>st w. case addRoaBatch norm limit vs st of
      Inl e \<Rightarrow> Some (w, Inl e)
    | Inr (st', r) \<Rightarrow>
        let w1 = w\<lparr>rpkiStore := Some st'\<rparr> in
        if r_changed r > 0 then recorded [] (word_value (r_serial r)) True w1 else Some (w1, Inr ()))"

definition deleteRoa_request :: "('v \<Rightarrow> roa option) \<Rightarrow> 'v \<Rightarrow> rpki_worker \<Rightarrow> reply" where
  "deleteRoa_request norm v = handleStorageRequest (\<lambda>st w. case deleteRoa norm v st of
      Inl e \<Rightarrow> Some (w, Inl e)
    | Inr (st', r) \<Rightarrow>
        let w1 = w\<lparr>rpkiStore := Some st'\<rparr> in
        if r_changed r = 0 then Some (w1, Inl JsError)
        else recorded (case r_item r of None \<Rightarrow> [] | Some x \<Rightarrow> [RoaOp Withdraw x]) (word_value (r_serial r)) False w1)"

definition deleteRoaBatch_request :: "rpki_worker \<Rightarrow> reply" where
  "deleteRoaBatch_request = handleStorageRequest (\<lambda>st w.
      let (st', r) = clearRoas st; w1 = w\<lparr>rpkiStore := Some st'\<rparr> in
      if r_changed r > 0 then recorded [] (word_value (r_serial r)) True w1 else Some (w1, Inr ()))"

definition addRouterKey_request :: "router_key \<Rightarrow> rpki_worker \<Rightarrow> reply" where
  "addRouterKey_request rk = handleStorageRequest (\<lambda>st w.
      let key = rk_makeKey (rk_ski rk) (rk_asn rk) in
      if map_of (rpkiRouterKeyMap w) key \<noteq> None then Some (w, Inl JsError)
      else recorded [RouterKeyOp Announce rk] SUndefined False
             (w\<lparr>rpkiRouterKeyMap := AList.update key rk (rpkiRouterKeyMap w)\<rparr>))"

definition deleteRouterKey_request :: "string \<Rightarrow> string \<Rightarrow> rpki_worker \<Rightarrow> reply" where
  "deleteRouterKey_request ski asn = handleStorageRequest (\<lambda>st w.
      let key = rk_makeKey ski asn in
      case map_of (rpkiRouterKeyMap w) key of
        None \<Rightarrow> Some (w, Inl JsError)
      | Some rk \<Rightarrow> recorded [RouterKeyOp Withdraw rk] SUndefined False
             (w\<lparr>rpkiRouterKeyMap := AList.delete key (rpkiRouterKeyMap w)\<rparr>))"

definition aspa_operation :: "aspa_result \<Rightarrow> operation list" where
  "aspa_operation r = (case (a_previous r, a_current r) of
      (Some old, Some new) \<Rightarrow> [AspaReplace old new]
    | (None, Some new) \<Rightarrow> [AspaOp Announce new]
    | _ \<Rightarrow> [])"

definition addAspa_request :: "('v \<Rightarrow> aspa option) \<Rightarrow> 'v \<Rightarrow> rpki_worker \<Rightarrow> reply" where
  "addAspa_request norm v = handleStorageRequest (\<lambda>st w. case upsertAspa norm v st of
      Inl e \<Rightarrow> Some (w, Inl e)
    | Inr (st', r) \<Rightarrow>
        let w1 = w\<lparr>rpkiStore := Some st'\<rparr> in
        if a_changed r = 0 then Some (w1, Inr ())
        else recorded (aspa_operation r) (word_value (a_serial r)) False w1)"

definition addAspaBatch_request :: "('v \<Rightarrow> aspa option) \<Rightarrow> 'v list \<Rightarrow> rpki_worker \<Rightarrow> reply" where
  "addAspaBatch_request norm vs = handleStorageRequest (\<lambda>st w. case upsertAspaBatch norm vs st of
      Inl e \<Rightarrow> Some (w, Inl e)
    | Inr (st', r) \<Rightarrow>
        let w1 = w\<lparr>rpkiStore := Some st'\<rparr> in
        if a_changed r > 0 then recorded [] (word_value (a_serial r)) True w1 else Some (w1, Inr ()))"

definition deleteAspa_request :: "('v \<Rightarrow> nat option) \<Rightarrow> 'v \<Rightarrow> rpki_worker \<Rightarrow> reply" where
  "deleteAspa_request normC v = handleStorageRequest (\<lambda>st w. case deleteAspa normC v st of
      Inl e \<Rightarrow> Some (w, Inl e)
    | Inr (st', r) \<Rightarrow>
        let w1 = w\<lparr>rpkiStore := Some st'\<rparr> in
        if a_changed r = 0 then Some (w1, Inl JsError)
        else recorded (case a_previous r of None \<Rightarrow> [] | Some x \<Rightarrow> [AspaOp Withdraw x]) (word_value (a_serial r)) False w1)"

definition deleteAspaBatch_request :: "rpki_worker \<Rightarrow> reply" where
  "deleteAspaBatch_request = handleStorageRequest (\<lambda>st w.
      let (st', r) = clearAspas st; w1 = w\<lparr>rpkiStore := Some st'\<rparr> in
      if a_changed r > 0 then recorded [] (word_value (a_serial r)) True w1 else Some (w1, Inr ()))"

text \<open>An import runs in a worker thread on its own connection; a failure before the commit
  leaves the data as it was.  The worker passes no batch size.\<close>

definition importRoaJson_request :: "('v \<Rightarrow> roa option) \<Rightarrow> fraction option \<Rightarrow> 'v list \<Rightarrow> rpki_worker \<Rightarrow> reply" where
  "importRoaJson_request norm limit vs = handleStorageRequest (\<lambda>st w. case importRoaJson norm limit None vs st of
      Inl e \<Rightarrow> Some (w, Inl e)
    | Inr (st', r) \<Rightarrow>
        let w1 = w\<lparr>rpkiStore := Some st'\<rparr> in
        if r_changed r > 0 then recorded [] (word_value (r_serial r)) True w1 else Some (w1, Inr ()))"

definition importAspaJson_request :: "('v \<Rightarrow> aspa option) \<Rightarrow> fraction option \<Rightarrow> 'v list \<Rightarrow> rpki_worker \<Rightarrow> reply" where
  "importAspaJson_request norm limit vs = handleStorageRequest (\<lambda>st w. case importAspaJson norm limit None vs st of
      Inl e \<Rightarrow> Some (w, Inl e)
    | Inr (st', r) \<Rightarrow>
        let w1 = w\<lparr>rpkiStore := Some st'\<rparr> in
        if a_changed r > 0 then recorded [] (word_value (a_serial r)) True w1 else Some (w1, Inr ()))"

text \<open>\<open>datasetChanged\<close> reports changes that another process has already written.\<close>

definition datasetChanged_request :: "operation list \<Rightarrow> serial_value \<Rightarrow> bool \<Rightarrow> rpki_worker \<Rightarrow> reply" where
  "datasetChanged_request ops v invalidate = handleStorageRequest (\<lambda>st w. recorded ops v invalidate w)"

datatype 'v request =
    AddRoa 'v | AddRoaBatch "nat option" "'v list" | DeleteRoa 'v | DeleteRoaBatch
  | AddRouterKey router_key | DeleteRouterKey string string
  | AddAspa 'v | AddAspaBatch "'v list" | DeleteAspa 'v | DeleteAspaBatch
  | ImportRoaJson "fraction option" "'v list" | ImportAspaJson "fraction option" "'v list"

record 'v normalisers =
  norm_roa :: "'v \<Rightarrow> roa option"
  norm_aspa :: "'v \<Rightarrow> aspa option"
  norm_customer :: "'v \<Rightarrow> nat option"

fun run_request :: "'v normalisers \<Rightarrow> 'v request \<Rightarrow> rpki_worker \<Rightarrow> reply" where
  "run_request n (AddRoa v) = addRoa_request (norm_roa n) v"
| "run_request n (AddRoaBatch limit vs) = addRoaBatch_request (norm_roa n) limit vs"
| "run_request n (DeleteRoa v) = deleteRoa_request (norm_roa n) v"
| "run_request n DeleteRoaBatch = deleteRoaBatch_request"
| "run_request n (AddRouterKey rk) = addRouterKey_request rk"
| "run_request n (DeleteRouterKey ski asn) = deleteRouterKey_request ski asn"
| "run_request n (AddAspa v) = addAspa_request (norm_aspa n) v"
| "run_request n (AddAspaBatch vs) = addAspaBatch_request (norm_aspa n) vs"
| "run_request n (DeleteAspa v) = deleteAspa_request (norm_customer n) v"
| "run_request n DeleteAspaBatch = deleteAspaBatch_request"
| "run_request n (ImportRoaJson limit vs) = importRoaJson_request (norm_roa n) limit vs"
| "run_request n (ImportAspaJson limit vs) = importAspaJson_request (norm_aspa n) limit vs"

fun run_requests :: "'v normalisers \<Rightarrow> 'v request list \<Rightarrow> rpki_worker \<Rightarrow> rpki_worker option" where
  "run_requests n [] w = Some w"
| "run_requests n (q # qs) w = (case run_request n q w of None \<Rightarrow> None | Some (w', _) \<Rightarrow> run_requests n qs w')"

section \<open>Snapshots, sessions, start and stop\<close>

definition createDataSnapshot :: "rpki_worker \<Rightarrow> rpki_worker \<times> (js_error + snapshot)" where
  "createDataSnapshot w = (case rpkiStore w of
      None \<Rightarrow> (w, Inr \<lparr>snap_serial = cacheSerial w, snap_roas = [], snap_routerKeys = map snd (rpkiRouterKeyMap w),
                      snap_aspas = []\<rparr>)
    | Some st \<Rightarrow>
        if activeDataSnapshots w \<ge> maxConcurrentDataSnapshots w then (w, Inl JsError)
        else (w\<lparr>activeDataSnapshots := activeDataSnapshots w + 1\<rparr>,
              Inr \<lparr>snap_serial = cache_serial st, snap_roas = st_roas st,
                   snap_routerKeys = map snd (rpkiRouterKeyMap w), snap_aspas = st_aspas st\<rparr>))"

definition closeDataSnapshot :: "rpki_worker \<Rightarrow> rpki_worker" where
  "closeDataSnapshot w = w\<lparr>activeDataSnapshots := activeDataSnapshots w - 1\<rparr>"

definition createRpkiSession :: "endpoint \<Rightarrow> aspa_format \<Rightarrow> rpki_worker \<Rightarrow> rpki_worker \<times> rpki_out list" where
  "createRpkiSession e fmt w =
     (if storageStopping w then (w, [DestroySocket])
      else let key = session_key e;
               closed_out = (case map_of (rpkiSessionMap w) key of
                   None \<Rightarrow> [] | Some s \<Rightarrow> snd (closeSession True False s));
               s = new_RpkiSession e fmt
           in (w\<lparr>rpkiSessionMap := AList.update key s (AList.delete key (rpkiSessionMap w))\<rparr>,
               closed_out @ [client_event ClientAdd s]))"

definition removeRpkiSession :: "rpki_session \<Rightarrow> rpki_worker \<Rightarrow> rpki_worker" where
  "removeRpkiSession s w =
     (if map_of (rpkiSessionMap w) (session_key (peer s)) = Some s
      then w\<lparr>rpkiSessionMap := AList.delete (session_key (peer s)) (rpkiSessionMap w)\<rparr> else w)"

definition restoreInitialRouterKeys :: "router_key list \<Rightarrow> rpki_worker \<Rightarrow> rpki_worker" where
  "restoreInitialRouterKeys rks w =
     w\<lparr>rpkiRouterKeyMap := fold (\<lambda>rk. AList.update (rk_makeKey (rk_ski rk) (rk_asn rk)) rk) rks []\<rparr>"

datatype auth_type = NoAuth | TcpAo | TcpMd5 | UnsupportedAuth

record rpki_config =
  cfg_authType :: auth_type
  cfg_tcpAo :: bool
  cfg_tcpMd5 :: bool
  cfg_snapshots :: "int option"
  cfg_routerKeys :: "router_key list"

text \<open>\<open>opened\<close> is what opening the database gives, \<open>listening\<close> whether the servers start.\<close>

definition startRpki :: "rpki_config \<Rightarrow> js_error + rpki_store \<Rightarrow> bool \<Rightarrow> rpki_worker
    \<Rightarrow> rpki_worker \<times> (js_error + unit)" where
  "startRpki cfg opened listening w =
     (if storageStopping w \<or> rpkiStore w \<noteq> None \<or> configured w then (w, Inl JsError)
      else if cfg_authType cfg = UnsupportedAuth \<or> cfg_authType cfg = TcpAo \<and> \<not> cfg_tcpAo cfg \<or>
              cfg_authType cfg = TcpMd5 \<and> \<not> cfg_tcpMd5 cfg
      then (w, Inl JsError)
      else let w1 = w\<lparr>maxConcurrentDataSnapshots := (case cfg_snapshots cfg of
                        None \<Rightarrow> 4 | Some n \<Rightarrow> if n > 0 then min (nat n) 16 else 4)\<rparr>
           in case opened of
               Inl e \<Rightarrow> (w1, Inl e)
             | Inr st \<Rightarrow>
                 let w2 = clearSerialHistory (restoreInitialRouterKeys (cfg_routerKeys cfg)
                            (w1\<lparr>configured := True, rpkiStore := Some st, cacheSerial := cache_serial st\<rparr>))
                 in if listening then (w2, Inr ())
                    else (w2\<lparr>rpkiStore := None, configured := False, rpkiRouterKeyMap := []\<rparr>, Inl JsError))"

text \<open>\<open>stopRpki\<close> refuses new work, waits for the queue, the sessions and the snapshots, and then
  releases everything; the second definition is its \<open>finally\<close> block.\<close>

definition stopRpki :: "rpki_worker \<Rightarrow> rpki_worker \<times> (js_error + unit)" where
  "stopRpki w = (if storageStopping w then (w, Inl JsError) else (w\<lparr>storageStopping := True\<rparr>, Inr ()))"

definition stopRpki_finally :: "rpki_worker \<Rightarrow> rpki_worker \<times> (js_error + unit)" where
  "stopRpki_finally w =
     (let w1 = (clearSerialHistory (w\<lparr>configured := False, rpkiSessionMap := [], rpkiRouterKeyMap := []\<rparr>))
                 \<lparr>storageStopping := False\<rparr>
      in if activeDataSnapshots w = 0 then (w1\<lparr>rpkiStore := None\<rparr>, Inr ()) else (w1, Inl JsError))"

definition worker_env :: "int option \<Rightarrow> rpki_worker \<Rightarrow> rpki_env" where
  "worker_env maxVersion w =
     \<lparr>env_serial = cacheSerial w, env_maxVersion = maxVersion, env_delta = getDeltaOperationsSince w\<rparr>"

section \<open>The data set and its changes\<close>

record dataset =
  ds_roas :: "roa set"
  ds_keys :: "router_key set"
  ds_aspas :: "aspa set"

definition worker_data :: "rpki_worker \<Rightarrow> dataset" where
  "worker_data w = \<lparr>ds_roas = (case rpkiStore w of None \<Rightarrow> {} | Some st \<Rightarrow> set (st_roas st)),
     ds_keys = snd ` set (rpkiRouterKeyMap w),
     ds_aspas = (case rpkiStore w of None \<Rightarrow> {} | Some st \<Rightarrow> set (st_aspas st))\<rparr>"

text \<open>What a router does with a change.\<close>

fun apply_set :: "action \<Rightarrow> 'x \<Rightarrow> 'x set \<Rightarrow> 'x set" where
  "apply_set Announce x s = insert x s"
| "apply_set Withdraw x s = s - {x}"

fun apply_op :: "operation \<Rightarrow> dataset \<Rightarrow> dataset" where
  "apply_op (RoaOp act r) d = d\<lparr>ds_roas := apply_set act r (ds_roas d)\<rparr>"
| "apply_op (RouterKeyOp act rk) d = d\<lparr>ds_keys := apply_set act rk (ds_keys d)\<rparr>"
| "apply_op (AspaOp act a) d = d\<lparr>ds_aspas := apply_set act a (ds_aspas d)\<rparr>"
| "apply_op (AspaReplace old new) d = d\<lparr>ds_aspas := insert new (ds_aspas d - {old})\<rparr>"

definition ops_total :: "history_entry list \<Rightarrow> int" where
  "ops_total h = sum_list (map (\<lambda>e. int (length (he_ops e))) h)"

definition bytes_total :: "history_entry list \<Rightarrow> int" where
  "bytes_total h = sum_list (map (\<lambda>e. int (he_bytes e)) h)"

text \<open>The history: its entries are numbered without gaps up to the current serial, the two
  counters are exact and no limit is exceeded.\<close>

definition serials_ok :: "32 word \<Rightarrow> history_entry list \<Rightarrow> bool" where
  "serials_ok c h = (\<forall>i<length h. he_serial (h ! i) = c - of_nat (length h - 1 - i))"

definition history_ok :: "rpki_worker \<Rightarrow> bool" where
  "history_ok w = (serials_ok (cacheSerial w) (serialHistory w) \<and>
     serialHistoryOperationCount w = ops_total (serialHistory w) \<and>
     serialHistoryBytes w = bytes_total (serialHistory w) \<and>
     \<not> over_limit (serialHistory w) (ops_total (serialHistory w)) (bytes_total (serialHistory w)))"

definition keys_ok :: "(string \<times> router_key) list \<Rightarrow> bool" where
  "keys_ok m = (distinct (map fst m) \<and> list_all (\<lambda>(k, rk). k = rk_makeKey (rk_ski rk) (rk_asn rk)) m)"

definition worker_ok :: "rpki_worker \<Rightarrow> bool" where
  "worker_ok w = (history_ok w \<and> keys_ok (rpkiRouterKeyMap w) \<and>
     (case rpkiStore w of None \<Rightarrow> True | Some st \<Rightarrow> store_ok st \<and> cache_serial st = cacheSerial w))"

lemma totals_simps [simp]: "ops_total [] = 0" "bytes_total [] = 0"
  "ops_total (e # h) = int (length (he_ops e)) + ops_total h"
  "bytes_total (e # h) = int (he_bytes e) + bytes_total h"
  "ops_total (h @ h') = ops_total h + ops_total h'" "bytes_total (h @ h') = bytes_total h + bytes_total h'"
  by (simp_all add: ops_total_def bytes_total_def)

lemma over_limit_Nil [simp]: "\<not> over_limit [] 0 0"
  by (simp add: over_limit_def)

text \<open>With exact counters the trimming loop ends; it leaves the newest entries and removes no more
  than it must.\<close>

lemma trim_loop_minimal:
  "\<exists>k. trim_loop h (ops_total h) (bytes_total h) = Some (drop k h, ops_total (drop k h), bytes_total (drop k h)) \<and>
    \<not> over_limit (drop k h) (ops_total (drop k h)) (bytes_total (drop k h)) \<and>
    (\<forall>j<k. over_limit (drop j h) (ops_total (drop j h)) (bytes_total (drop j h)))"
proof (induction h)
  case Nil
  then show ?case by (intro exI [of _ 0]) simp
next
  case (Cons e h)
  show ?case
  proof (cases "over_limit (e # h) (ops_total (e # h)) (bytes_total (e # h))")
    case True
    obtain k where k: "trim_loop h (ops_total h) (bytes_total h) = Some (drop k h, ops_total (drop k h), bytes_total (drop k h))"
      "\<not> over_limit (drop k h) (ops_total (drop k h)) (bytes_total (drop k h))"
      "\<forall>j<k. over_limit (drop j h) (ops_total (drop j h)) (bytes_total (drop j h))" using Cons.IH by blast
    have "over_limit (drop j (e # h)) (ops_total (drop j (e # h))) (bytes_total (drop j (e # h)))" if "j < Suc k" for j
      using that True k(3) by (cases j) auto
    then show ?thesis using True k(1,2) by (intro exI [of _ "Suc k"]) simp
  next
    case False
    then show ?thesis by (intro exI [of _ 0]) simp
  qed
qed

lemma serials_snoc: "serials_ok c h \<Longrightarrow> he_serial e = c + 1 \<Longrightarrow> serials_ok (c + 1) (h @ [e])"
  unfolding serials_ok_def
proof (intro allI impI)
  fix i
  assume h: "\<forall>i<length h. he_serial (h ! i) = c - of_nat (length h - 1 - i)" and e: "he_serial e = c + 1"
    and i: "i < length (h @ [e])"
  show "he_serial ((h @ [e]) ! i) = c + 1 - of_nat (length (h @ [e]) - 1 - i)"
  proof (cases "i < length h")
    case True
    then have "length (h @ [e]) - 1 - i = Suc (length h - 1 - i)" by simp
    then show ?thesis using h True by (simp add: nth_append)
  next
    case False
    then show ?thesis using i e by (simp add: nth_append)
  qed
qed

lemma serials_drop: "serials_ok c h \<Longrightarrow> serials_ok c (drop k h)"
  by (auto simp: serials_ok_def)

lemma isSerialNewer_Suc [simp]: "isSerialNewer (c + 1) c" "\<not> isSerialNewer c c"
  by (simp_all add: isSerialNewer_def)

lemma word_value_normal [simp]: "normalizeCacheSerial (word_value s) f = s"
  by (simp add: normalizeCacheSerial_def word_value_def)

text \<open>Recording a change whose serial follows the current one.\<close>

definition next_serial :: "serial_value \<Rightarrow> rpki_store \<Rightarrow> rpki_worker \<Rightarrow> bool" where
  "next_serial v st w = (cache_serial st = cacheSerial w + 1 \<and> v = word_value (cacheSerial w + 1) \<or>
     cache_serial st = cacheSerial w \<and> v = SUndefined)"

lemma resolve_next:
  assumes "rpkiStore w = Some st" "next_serial v st w"
  shows "\<exists>w1. resolveMutationSerial v w = ((cacheSerial w + 1, False), w1) \<and>
    w1\<lparr>cacheSerial := cacheSerial w + 1\<rparr> =
      w\<lparr>cacheSerial := cacheSerial w + 1, rpkiStore := Some (st\<lparr>cache_serial := cacheSerial w + 1\<rparr>)\<rparr>"
proof (cases "v = SUndefined")
  case True
  then have "cache_serial st = cacheSerial w" using assms(2) by (auto simp: next_serial_def word_value_def)
  then show ?thesis
    using True assms(1)
    by (simp add: resolveMutationSerial_def getStoreCacheSerial_def bumpCacheSerial_def bump_eq Let_def)
next
  case False
  then have c: "cache_serial st = cacheSerial w + 1" "v = word_value (cacheSerial w + 1)"
    using assms(2) by (auto simp: next_serial_def)
  have ne: "v \<noteq> SEmpty" using c(2) by (simp add: word_value_def)
  have n: "normalizeCacheSerial v (cacheSerial w) = cacheSerial w + 1" by (simp add: c(2))
  have st: "st\<lparr>cache_serial := cacheSerial w + 1\<rparr> = st" using c(1) by simp
  have "w\<lparr>cacheSerial := cacheSerial w + 1, rpkiStore := Some st\<rparr> = w\<lparr>cacheSerial := cacheSerial w + 1\<rparr>"
    using assms(1) by (cases w) simp
  then show ?thesis
    using assms(1) c(1) False ne
    by (simp add: resolveMutationSerial_def getStoreCacheSerial_def Let_def n st)
qed

lemma history_snoc_trim:
  assumes h: "serials_ok c h" and e: "he_serial e = c + 1"
    and w: "cacheSerial w = c + 1" "serialHistory w = h @ [e]"
      "serialHistoryOperationCount w = ops_total (h @ [e])" "serialHistoryBytes w = bytes_total (h @ [e])"
  shows "\<exists>w' k. trimSerialHistory w = Some w' \<and> history_ok w' \<and> serialHistory w' = drop k (h @ [e]) \<and>
    cacheSerial w' = c + 1 \<and> rpkiStore w' = rpkiStore w \<and> rpkiRouterKeyMap w' = rpkiRouterKeyMap w \<and>
    configured w' = configured w \<and> storageStopping w' = storageStopping w \<and>
    rpkiSessionMap w' = rpkiSessionMap w"
proof -
  let ?h = "h @ [e]"
  obtain k where k: "trim_loop ?h (ops_total ?h) (bytes_total ?h) = Some (drop k ?h, ops_total (drop k ?h), bytes_total (drop k ?h))"
    "\<not> over_limit (drop k ?h) (ops_total (drop k ?h)) (bytes_total (drop k ?h))"
    using trim_loop_minimal by blast
  have s: "serials_ok (c + 1) (drop k ?h)" by (rule serials_drop [OF serials_snoc [OF h e]])
  define w' where "w' = w\<lparr>serialHistory := drop k ?h, serialHistoryOperationCount := ops_total (drop k ?h),
    serialHistoryBytes := bytes_total (drop k ?h)\<rparr>"
  have "trimSerialHistory w = Some w'"
    unfolding trimSerialHistory_def w w'_def k(1) by simp
  moreover have "history_ok w'" using s k(2) unfolding history_ok_def w'_def by (simp add: w(1) del: drop_append)
  ultimately show ?thesis unfolding w'_def using w(1) by (auto simp del: drop_append)
qed

lemma notify_all_simps [simp]:
  "cacheSerial (notify_all w) = cacheSerial w" "serialHistory (notify_all w) = serialHistory w"
  "rpkiStore (notify_all w) = rpkiStore w" "rpkiRouterKeyMap (notify_all w) = rpkiRouterKeyMap w"
  "configured (notify_all w) = configured w" "storageStopping (notify_all w) = storageStopping w"
  "history_ok (notify_all w) = history_ok w"
  by (simp_all add: notify_all_def history_ok_def)

lemma history_ok_clear [simp]: "history_ok (clearSerialHistory w)"
  by (simp add: clearSerialHistory_def history_ok_def serials_ok_def)

lemma clear_simps [simp]:
  "cacheSerial (clearSerialHistory w) = cacheSerial w" "serialHistory (clearSerialHistory w) = []"
  "rpkiStore (clearSerialHistory w) = rpkiStore w" "rpkiRouterKeyMap (clearSerialHistory w) = rpkiRouterKeyMap w"
  "configured (clearSerialHistory w) = configured w" "storageStopping (clearSerialHistory w) = storageStopping w"
  by (simp_all add: clearSerialHistory_def)

lemma record_next:
  assumes st: "rpkiStore w = Some st" "next_serial v st w" and h: "history_ok w" and ops: "inval \<or> ops \<noteq> []"
  shows "\<exists>w' b k e. recordSerialDeltaAndNotify ops v inval w = Some (w', cacheSerial w + 1, b) \<and> history_ok w' \<and>
    cacheSerial w' = cacheSerial w + 1 \<and> rpkiStore w' = Some (st\<lparr>cache_serial := cacheSerial w + 1\<rparr>) \<and>
    rpkiRouterKeyMap w' = rpkiRouterKeyMap w \<and> configured w' = configured w \<and>
    storageStopping w' = storageStopping w \<and> he_ops e = ops \<and>
    serialHistory w' = (if inval then [] else drop k (serialHistory w @ [e]))"
proof -
  let ?c = "cacheSerial w"
  obtain w1 where r: "resolveMutationSerial v w = ((?c + 1, False), w1)"
    "w1\<lparr>cacheSerial := ?c + 1\<rparr> = w\<lparr>cacheSerial := ?c + 1, rpkiStore := Some (st\<lparr>cache_serial := ?c + 1\<rparr>)\<rparr>"
    using resolve_next [OF st] by blast
  define w2 where "w2 = w\<lparr>cacheSerial := ?c + 1, rpkiStore := Some (st\<lparr>cache_serial := ?c + 1\<rparr>)\<rparr>"
  define e where "e = \<lparr>he_serial = ?c + 1, he_ops = ops, he_bytes = estimateSerialOperationsBytes ops\<rparr>"
  define b where "b = (inval \<or> length ops > maxSerialHistoryOperations \<or>
    estimateSerialOperationsBytes ops > maxSerialHistoryBytes)"
  have ne: "?c + 1 \<noteq> ?c" by simp
  have eq: "recordSerialDeltaAndNotify ops v inval w =
    map_option (\<lambda>w4. (notify_all w4, ?c + 1, b))
      (if b then Some (clearSerialHistory w2)
       else trimSerialHistory (w2\<lparr>serialHistory := serialHistory w @ [e],
         serialHistoryOperationCount := serialHistoryOperationCount w + int (length ops),
         serialHistoryBytes := serialHistoryBytes w + int (estimateSerialOperationsBytes ops)\<rparr>))"
    using ops r(1) ne unfolding recordSerialDeltaAndNotify_def Let_def r(1) prod.case r(2)
    by (auto simp: w2_def e_def b_def)
  show ?thesis
  proof (cases b)
    case True
    let ?w = "notify_all (clearSerialHistory w2)"
    have "serialHistory ?w = drop (Suc (length (serialHistory w))) (serialHistory w @ [e])" by simp
    then show ?thesis
      using eq True by (intro exI [of _ ?w] exI [of _ b] exI [of _ "Suc (length (serialHistory w))"] exI [of _ e])
        (simp add: w2_def e_def)
  next
    case False
    then have "\<not> inval" by (simp add: b_def)
    define w3 where "w3 = w2\<lparr>serialHistory := serialHistory w @ [e],
         serialHistoryOperationCount := serialHistoryOperationCount w + int (length ops),
         serialHistoryBytes := serialHistoryBytes w + int (estimateSerialOperationsBytes ops)\<rparr>"
    obtain w' k where t: "trimSerialHistory w3 = Some w'" "history_ok w'" "serialHistory w' = drop k (serialHistory w @ [e])"
      "cacheSerial w' = ?c + 1" "rpkiStore w' = rpkiStore w3" "rpkiRouterKeyMap w' = rpkiRouterKeyMap w3"
      "configured w' = configured w3" "storageStopping w' = storageStopping w3"
      using history_snoc_trim [of ?c "serialHistory w" e w3] h
      by (auto simp: history_ok_def w3_def w2_def e_def)
    then show ?thesis
      using eq False \<open>\<not> inval\<close>
      by (intro exI [of _ "notify_all w'"] exI [of _ b] exI [of _ k] exI [of _ e])
        (simp add: w3_def [symmetric] del: drop_append, simp add: w3_def w2_def e_def)
  qed
qed

section \<open>What a request does to the data and the history\<close>

definition unchanged :: "rpki_worker \<Rightarrow> rpki_worker \<Rightarrow> bool" where
  "unchanged w w' = (cacheSerial w' = cacheSerial w \<and> serialHistory w' = serialHistory w \<and>
     worker_data w' = worker_data w)"

definition logged :: "rpki_worker \<Rightarrow> rpki_worker \<Rightarrow> bool" where
  "logged w w' = (cacheSerial w' = cacheSerial w + 1 \<and> (serialHistory w' = [] \<or>
     (\<exists>k e. serialHistory w' = drop k (serialHistory w @ [e]) \<and>
        worker_data w' = fold apply_op (he_ops e) (worker_data w))))"

definition good_reply :: "rpki_worker \<Rightarrow> reply \<Rightarrow> bool" where
  "good_reply w rep = (\<exists>w' r. rep = Some (w', r) \<and> worker_ok w' \<and> (unchanged w w' \<or> logged w w'))"

lemma good_same: "worker_ok w \<Longrightarrow> good_reply w (Some (w, r))"
  by (auto simp: good_reply_def unchanged_def)

lemma good_handle:
  assumes "worker_ok w"
    and "\<And>st. rpkiStore w = Some st \<Longrightarrow> store_ok st \<Longrightarrow> cache_serial st = cacheSerial w \<Longrightarrow> good_reply w (run st w)"
  shows "good_reply w (handleStorageRequest run w)"
  using assms
  by (auto simp: handleStorageRequest_def assertStorageAvailable_def good_same worker_ok_def split: option.splits)

text \<open>A store that did not change its rows nor its serial is as good as the old one.\<close>

lemma good_store_same:
  assumes "worker_ok w" "rpkiStore w = Some st" "store_ok st'" "cache_serial st' = cache_serial st"
    "set (st_roas st') = set (st_roas st)" "set (st_aspas st') = set (st_aspas st)"
  shows "good_reply w (Some (w\<lparr>rpkiStore := Some st'\<rparr>, r))"
  using assms
  by (auto simp: good_reply_def unchanged_def worker_data_def worker_ok_def history_ok_def)

text \<open>Recording the change of the store, or of the router keys.\<close>

lemma good_recorded:
  assumes w1: "rpkiStore w1 = Some st'" "next_serial v st' w1" "store_ok st'" "keys_ok (rpkiRouterKeyMap w1)"
    and h: "history_ok w1" "cacheSerial w1 = cacheSerial w" "serialHistory w1 = serialHistory w"
    and ops: "inval \<or> ops \<noteq> []" "\<not> inval \<Longrightarrow> worker_data w1 = fold apply_op ops (worker_data w)"
  shows "good_reply w (recorded ops v inval w1)"
proof -
  obtain w' b k e where r: "recordSerialDeltaAndNotify ops v inval w1 = Some (w', cacheSerial w1 + 1, b)" "history_ok w'"
    "cacheSerial w' = cacheSerial w1 + 1" "rpkiStore w' = Some (st'\<lparr>cache_serial := cacheSerial w1 + 1\<rparr>)"
    "rpkiRouterKeyMap w' = rpkiRouterKeyMap w1" "he_ops e = ops"
    "serialHistory w' = (if inval then [] else drop k (serialHistory w1 @ [e]))"
    using record_next [OF w1(1,2) h(1) ops(1)] by blast
  have ok: "worker_ok w'" using r w1 by (simp add: worker_ok_def)
  have data: "worker_data w' = worker_data w1" using r w1 by (simp add: worker_data_def)
  have "logged w w'"
  proof (cases inval)
    case False
    then show ?thesis using r h data ops(2) by (auto simp: logged_def simp del: drop_append)
  qed (use r h in \<open>simp add: logged_def\<close>)
  then show ?thesis using ok r(1) by (auto simp: good_reply_def recorded_def)
qed

lemma good_stored:
  assumes w: "worker_ok w" "rpkiStore w = Some st" and st': "store_ok st'" "cache_serial st' = cache_serial st + 1"
    and v: "v = word_value (cache_serial st')"
    and ops: "inval \<or> ops \<noteq> []"
      "\<not> inval \<Longrightarrow> worker_data (w\<lparr>rpkiStore := Some st'\<rparr>) = fold apply_op ops (worker_data w)"
  shows "good_reply w (recorded ops v inval (w\<lparr>rpkiStore := Some st'\<rparr>))"
  using assms by (intro good_recorded [of _ st']) (auto simp: worker_ok_def next_serial_def history_ok_def)

lemma good_addRoa: "worker_ok w \<Longrightarrow> good_reply w (addRoa_request norm v w)"
  unfolding addRoa_request_def
proof (rule good_handle)
  fix st assume w: "worker_ok w" "rpkiStore w = Some st" "store_ok st"
  show "good_reply w (case addRoa norm v st of Inl e \<Rightarrow> Some (w, Inl e)
    | Inr (st', r) \<Rightarrow> let w1 = w\<lparr>rpkiStore := Some st'\<rparr> in
        if r_changed r = 0 then Some (w1, Inl JsError)
        else recorded (case r_item r of None \<Rightarrow> [] | Some x \<Rightarrow> [RoaOp Announce x]) (word_value (r_serial r)) False w1)"
  proof (cases "addRoa norm v st")
    case (Inr p)
    obtain st' res where p: "p = (st', res)" by (cases p)
    obtain r where r: "store_ok st'" "r_item res = Some r" "set (st_aspas st') = set (st_aspas st)"
      "r_serial res = cache_serial st'" "if r_changed res > 0
     then r \<notin> set (st_roas st) \<and> set (st_roas st') = insert r (set (st_roas st)) \<and>
          cache_serial st' = cache_serial st + 1 else st' = st"
      using addRoa_spec [OF _ w(3), of norm v st' res] Inr p by auto
    show ?thesis
    proof (cases "r_changed res = 0")
      case True
      then show ?thesis using Inr p r w good_store_same [of w st st'] by simp
    next
      case False
      then show ?thesis using Inr p r w good_stored [of w st st'] by (simp add: worker_data_def)
    qed
  qed (use w in \<open>simp add: good_same\<close>)
qed

lemma good_deleteRoa: "worker_ok w \<Longrightarrow> good_reply w (deleteRoa_request norm v w)"
  unfolding deleteRoa_request_def
proof (rule good_handle)
  fix st assume w: "worker_ok w" "rpkiStore w = Some st" "store_ok st"
  show "good_reply w (case deleteRoa norm v st of Inl e \<Rightarrow> Some (w, Inl e)
    | Inr (st', r) \<Rightarrow> let w1 = w\<lparr>rpkiStore := Some st'\<rparr> in
        if r_changed r = 0 then Some (w1, Inl JsError)
        else recorded (case r_item r of None \<Rightarrow> [] | Some x \<Rightarrow> [RoaOp Withdraw x]) (word_value (r_serial r)) False w1)"
  proof (cases "deleteRoa norm v st")
    case (Inr p)
    obtain st' res where p: "p = (st', res)" by (cases p)
    note d = deleteRoa_spec [OF _ w(3), of norm v st' res, unfolded Inr p, simplified]
    show ?thesis
    proof (cases "r_item res")
      case None
      then show ?thesis using d Inr p w good_store_same [of w st st'] by simp
    next
      case (Some r)
      then show ?thesis using d Inr p w good_stored [of w st st'] by (simp add: worker_data_def)
    qed
  qed (use w in \<open>simp add: good_same\<close>)
qed

text \<open>A bulk change clears the history; without a change nothing is recorded.\<close>

lemma good_bulk:
  assumes w: "worker_ok w" "rpkiStore w = Some st" and st': "store_ok st'"
    and c: "n > (0::nat) \<Longrightarrow> cache_serial st' = cache_serial st + 1"
      "n = 0 \<Longrightarrow> cache_serial st' = cache_serial st \<and> set (st_roas st') = set (st_roas st) \<and> set (st_aspas st') = set (st_aspas st)"
    and s: "s = cache_serial st'"
  shows "good_reply w (if n > 0 then recorded [] (word_value s) True (w\<lparr>rpkiStore := Some st'\<rparr>)
    else Some (w\<lparr>rpkiStore := Some st'\<rparr>, Inr ()))"
  using assms good_stored [of w st st' "word_value s" True "[]"] good_store_same [of w st st'] by auto

lemma good_addRoaBatch: "worker_ok w \<Longrightarrow> good_reply w (addRoaBatch_request norm limit vs w)"
  unfolding addRoaBatch_request_def Let_def
  by (rule good_handle)
    (auto simp: good_same split: sum.splits prod.splits simp del: neq0_conv
      dest!: addRoaBatch_spec intro!: good_bulk split del: if_split)

lemma good_deleteRoaBatch: "worker_ok w \<Longrightarrow> good_reply w (deleteRoaBatch_request w)"
  unfolding deleteRoaBatch_request_def Let_def
  by (rule good_handle)
    (auto split: prod.splits dest!: clearRoas_spec intro!: good_bulk split del: if_split)

lemma good_addAspaBatch: "worker_ok w \<Longrightarrow> good_reply w (addAspaBatch_request norm vs w)"
  unfolding addAspaBatch_request_def Let_def
  by (rule good_handle)
    (auto simp: good_same split: sum.splits prod.splits
      dest!: upsertAspaBatch_spec intro!: good_bulk split del: if_split)

lemma good_deleteAspaBatch: "worker_ok w \<Longrightarrow> good_reply w (deleteAspaBatch_request w)"
  unfolding deleteAspaBatch_request_def Let_def
  by (rule good_handle)
    (auto split: prod.splits dest!: clearAspas_spec intro!: good_bulk split del: if_split)

lemma good_importRoa: "worker_ok w \<Longrightarrow> good_reply w (importRoaJson_request norm limit vs w)"
  unfolding importRoaJson_request_def Let_def
  by (rule good_handle)
    (auto simp: good_same split: sum.splits prod.splits
      dest!: importRoaJson_spec intro!: good_bulk split del: if_split)

lemma good_importAspa: "worker_ok w \<Longrightarrow> good_reply w (importAspaJson_request norm limit vs w)"
  unfolding importAspaJson_request_def Let_def
  by (rule good_handle)
    (auto simp: good_same split: sum.splits prod.splits
      dest!: importAspaJson_spec intro!: good_bulk split del: if_split)

lemma good_addAspa: "worker_ok w \<Longrightarrow> good_reply w (addAspa_request norm v w)"
  unfolding addAspa_request_def
proof (rule good_handle)
  fix st assume w: "worker_ok w" "rpkiStore w = Some st" "store_ok st"
  show "good_reply w (case upsertAspa norm v st of Inl e \<Rightarrow> Some (w, Inl e)
    | Inr (st', r) \<Rightarrow> let w1 = w\<lparr>rpkiStore := Some st'\<rparr> in
        if a_changed r = 0 then Some (w1, Inr ())
        else recorded (aspa_operation r) (word_value (a_serial r)) False w1)"
  proof (cases "upsertAspa norm v st")
    case (Inr p)
    obtain st' res where p: "p = (st', res)" by (cases p)
    note d = upsertAspa_spec [OF _ w(3), of norm v st' res, unfolded Inr p, simplified]
    show ?thesis
    proof (cases "a_changed res = 0")
      case True
      then show ?thesis using d Inr p w good_store_same [of w st st'] by simp
    next
      case False
      then obtain a where a: "a_current res = Some a" and c: "cache_serial st' = cache_serial st + 1"
        and s: "case a_previous res of None \<Rightarrow> set (st_aspas st') = insert a (set (st_aspas st))
          | Some q \<Rightarrow> set (st_aspas st') = insert a (set (st_aspas st) - {q})"
        using d by (auto split: option.splits)
      have "worker_data (w\<lparr>rpkiStore := Some st'\<rparr>) = fold apply_op (aspa_operation res) (worker_data w)"
        using s a d w by (cases "a_previous res") (simp_all add: aspa_operation_def worker_data_def)
      moreover have "aspa_operation res \<noteq> []" using a by (cases "a_previous res") (simp_all add: aspa_operation_def)
      ultimately show ?thesis using False d c Inr p w good_stored [of w st st'] by simp
    qed
  qed (use w in \<open>simp add: good_same\<close>)
qed

lemma good_deleteAspa: "worker_ok w \<Longrightarrow> good_reply w (deleteAspa_request normC v w)"
  unfolding deleteAspa_request_def
proof (rule good_handle)
  fix st assume w: "worker_ok w" "rpkiStore w = Some st" "store_ok st"
  show "good_reply w (case deleteAspa normC v st of Inl e \<Rightarrow> Some (w, Inl e)
    | Inr (st', r) \<Rightarrow> let w1 = w\<lparr>rpkiStore := Some st'\<rparr> in
        if a_changed r = 0 then Some (w1, Inl JsError)
        else recorded (case a_previous r of None \<Rightarrow> [] | Some x \<Rightarrow> [AspaOp Withdraw x]) (word_value (a_serial r)) False w1)"
  proof (cases "deleteAspa normC v st")
    case (Inr p)
    obtain st' res where p: "p = (st', res)" by (cases p)
    note d = deleteAspa_spec [OF _ w(3), of normC v st' res, unfolded Inr p, simplified]
    show ?thesis
    proof (cases "a_previous res")
      case None
      then show ?thesis using d Inr p w good_store_same [of w st st'] by simp
    next
      case (Some r)
      then show ?thesis using d Inr p w good_stored [of w st st'] by (simp add: worker_data_def)
    qed
  qed (use w in \<open>simp add: good_same\<close>)
qed

lemma keys_update:
  assumes "keys_ok m" "map_of m (rk_makeKey (rk_ski rk) (rk_asn rk)) = None"
  shows "keys_ok (AList.update (rk_makeKey (rk_ski rk) (rk_asn rk)) rk m) \<and>
    snd ` set (AList.update (rk_makeKey (rk_ski rk) (rk_asn rk)) rk m) = insert rk (snd ` set m)"
proof -
  let ?k = "rk_makeKey (rk_ski rk) (rk_asn rk)"
  have "?k \<notin> fst ` set m" using assms(2) by (simp add: map_of_eq_None_iff)
  then have "AList.update ?k rk m = m @ [(?k, rk)]" by (induction m) auto
  then show ?thesis using assms \<open>?k \<notin> fst ` set m\<close> by (auto simp: keys_ok_def)
qed

lemma keys_delete:
  assumes "keys_ok m" "map_of m k = Some rk"
  shows "keys_ok (AList.delete k m) \<and> snd ` set (AList.delete k m) = snd ` set m - {rk}"
proof -
  have k: "k = rk_makeKey (rk_ski rk) (rk_asn rk)"
    using assms by (auto simp: keys_ok_def list_all_iff dest!: map_of_SomeD)
  have e: "fst p = rk_makeKey (rk_ski (snd p)) (rk_asn (snd p))" if "p \<in> set m" for p
    using that assms(1) by (auto simp: keys_ok_def list_all_iff)
  have d: "distinct (map fst m)" using assms(1) by (simp add: keys_ok_def)
  have "snd p \<noteq> rk" if "p \<in> set m" "fst p \<noteq> k" for p using e [OF that(1)] that(2) k by auto
  moreover have "fst p \<noteq> k" if "p \<in> set m" "snd p \<noteq> rk" for p
    using that assms(2) d by (metis map_of_is_SomeI prod.collapse option.inject)
  ultimately have "snd ` set (AList.delete k m) = snd ` set m - {rk}"
    by (auto simp: AList.delete_eq image_iff) (metis snd_conv fst_conv)+
  moreover have "keys_ok (AList.delete k m)"
    using assms(1) by (auto simp: keys_ok_def list_all_iff AList.delete_eq distinct_map inj_on_def)
  ultimately show ?thesis by simp
qed

lemma good_addRouterKey: "worker_ok w \<Longrightarrow> good_reply w (addRouterKey_request rk w)"
  unfolding addRouterKey_request_def Let_def
proof (rule good_handle)
  fix st assume w: "worker_ok w" "rpkiStore w = Some st" "store_ok st" "cache_serial st = cacheSerial w"
  let ?k = "rk_makeKey (rk_ski rk) (rk_asn rk)"
  show "good_reply w (if map_of (rpkiRouterKeyMap w) ?k \<noteq> None then Some (w, Inl JsError)
      else recorded [RouterKeyOp Announce rk] SUndefined False
             (w\<lparr>rpkiRouterKeyMap := AList.update ?k rk (rpkiRouterKeyMap w)\<rparr>))"
  proof (cases "map_of (rpkiRouterKeyMap w) ?k")
    case None
    have "keys_ok (rpkiRouterKeyMap w)" using w(1) by (simp add: worker_ok_def)
    from keys_update [OF this None] show ?thesis
      using None w by (simp, intro good_recorded [of _ st])
        (auto simp: next_serial_def worker_ok_def worker_data_def history_ok_def)
  qed (use w in \<open>simp add: good_same\<close>)
qed

lemma good_deleteRouterKey: "worker_ok w \<Longrightarrow> good_reply w (deleteRouterKey_request ski asn w)"
  unfolding deleteRouterKey_request_def Let_def
proof (rule good_handle)
  fix st assume w: "worker_ok w" "rpkiStore w = Some st" "store_ok st" "cache_serial st = cacheSerial w"
  let ?k = "rk_makeKey ski asn"
  show "good_reply w (case map_of (rpkiRouterKeyMap w) ?k of None \<Rightarrow> Some (w, Inl JsError)
      | Some rk \<Rightarrow> recorded [RouterKeyOp Withdraw rk] SUndefined False
             (w\<lparr>rpkiRouterKeyMap := AList.delete ?k (rpkiRouterKeyMap w)\<rparr>))"
  proof (cases "map_of (rpkiRouterKeyMap w) ?k")
    case (Some rk)
    have "keys_ok (rpkiRouterKeyMap w)" using w(1) by (simp add: worker_ok_def)
    from keys_delete [OF this Some] show ?thesis
      using Some w by (simp, intro good_recorded [of _ st])
        (auto simp: next_serial_def worker_ok_def worker_data_def history_ok_def)
  qed (use w in \<open>simp add: good_same\<close>)
qed

lemma good_request: "worker_ok w \<Longrightarrow> good_reply w (run_request n q w)"
  by (cases q) (simp_all add: good_addRoa good_addRoaBatch good_deleteRoa good_deleteRoaBatch good_addRouterKey
      good_deleteRouterKey good_addAspa good_addAspaBatch good_deleteAspa good_deleteAspaBatch good_importRoa
      good_importAspa)

section \<open>The changes since a serial\<close>

text \<open>After \<open>n\<close> changes since a state with data \<open>d\<close> and serial \<open>c\<close>: the last \<open>n\<close> entries of the
  history, when it still has that many, lead from \<open>d\<close> to the current data.\<close>

definition last_ops :: "nat \<Rightarrow> history_entry list \<Rightarrow> operation list" where
  "last_ops n h = concat (map he_ops (drop (length h - n) h))"

definition since :: "dataset \<Rightarrow> 32 word \<Rightarrow> nat \<Rightarrow> rpki_worker \<Rightarrow> bool" where
  "since d c n w = (cacheSerial w = c + of_nat n \<and>
     (n \<le> length (serialHistory w) \<longrightarrow> fold apply_op (last_ops n (serialHistory w)) d = worker_data w))"

lemma since_refl: "since (worker_data w) (cacheSerial w) 0 w"
  by (simp add: since_def last_ops_def)

lemma since_step:
  assumes s: "since d c n w" and l: "unchanged w w' \<or> logged w w'"
  shows "\<exists>m\<le>Suc n. since d c m w'"
proof (cases "unchanged w w'")
  case True
  then show ?thesis using s by (intro exI [of _ n]) (auto simp: unchanged_def since_def)
next
  case False
  then have l: "logged w w'" using l by simp
  have c: "cacheSerial w' = c + of_nat (Suc n)" using l s by (simp add: logged_def since_def)
  have "fold apply_op (last_ops (Suc n) (serialHistory w')) d = worker_data w'" if n: "Suc n \<le> length (serialHistory w')"
  proof -
    obtain k e where e: "serialHistory w' = drop k (serialHistory w @ [e])"
      "worker_data w' = fold apply_op (he_ops e) (worker_data w)"
      using l n by (auto simp: logged_def simp del: drop_append)
    let ?h = "serialHistory w"
    have n': "n \<le> length ?h" "k \<le> length ?h - n" using n e(1) by auto
    have "drop (length (serialHistory w') - Suc n) (serialHistory w') = drop (length ?h - n) ?h @ [e]"
      using n' unfolding e(1) by (simp add: Suc_diff_le)
    then have "last_ops (Suc n) (serialHistory w') = last_ops n ?h @ he_ops e" by (simp add: last_ops_def)
    then show ?thesis using s n'(1) e(2) by (simp add: since_def)
  qed
  then show ?thesis using c by (intro exI [of _ "Suc n"]) (simp add: since_def)
qed

lemma run_requests_since:
  "worker_ok w \<Longrightarrow> since d c n w \<Longrightarrow>
   \<exists>w' m. run_requests nm qs w = Some w' \<and> worker_ok w' \<and> m \<le> n + length qs \<and> since d c m w'"
proof (induction qs arbitrary: w n)
  case Nil
  then show ?case by auto
next
  case (Cons q qs)
  obtain w1 r where q: "run_request nm q w = Some (w1, r)" "worker_ok w1" "unchanged w w1 \<or> logged w w1"
    using good_request [OF Cons.prems(1), of nm q] by (auto simp: good_reply_def)
  obtain m where m: "m \<le> Suc n" "since d c m w1" using since_step [OF Cons.prems(2) q(3)] by auto
  obtain w' m' where "run_requests nm qs w1 = Some w'" "worker_ok w'" "m' \<le> m + length qs" "since d c m' w'"
    using Cons.IH [OF q(2) m(2)] by blast
  then show ?case using q(1) m(1) by (intro exI [of _ w'] exI [of _ m']) simp
qed

lemma index_of_Some: "index_of s h = Some i \<Longrightarrow> i < length h \<and> he_serial (h ! i) = s"
  by (induction h arbitrary: i) (auto split: if_splits)

lemma collect_ops_Some: "collect_ops s h = Some ops \<Longrightarrow> ops = concat (map he_ops h)"
  by (induction h arbitrary: s ops) (auto split: if_splits)

lemma of_nat_32_inject:
  assumes "(of_nat n :: 32 word) = of_nat m" "n < 2 ^ 32" "m < 2 ^ 32"
  shows "n = m"
proof -
  have "unat (of_nat n :: 32 word) = unat (of_nat m :: 32 word)" using assms(1) by simp
  then show ?thesis using assms(2,3) by (simp add: unat_of_nat take_bit_nat_eq_self)
qed

text \<open>A delta for a serial at distance \<open>n\<close> is the last \<open>n\<close> entries.\<close>

lemma getDelta_last:
  assumes h: "serials_ok (cacheSerial w) (serialHistory w)" "length (serialHistory w) \<le> maxSerialHistoryEntries"
    and n: "n < 2 ^ 32" and d: "getDeltaOperationsSince w (cacheSerial w - of_nat n) = Some ops"
  shows "n \<le> length (serialHistory w) \<and> ops = last_ops n (serialHistory w)"
proof (cases "n = 0")
  case True
  then show ?thesis using d by (simp add: getDeltaOperationsSince_def last_ops_def)
next
  case False
  let ?h = "serialHistory w" and ?c = "cacheSerial w"
  have "(of_nat n :: 32 word) \<noteq> 0"
    using of_nat_32_inject [of n 0] False n by auto
  then have ne: "?c - of_nat n \<noteq> ?c" by simp
  then obtain i where i: "index_of (?c - of_nat n + 1) ?h = Some i"
    and c: "collect_ops (?c - of_nat n + 1) (drop i ?h) = Some ops"
    using d by (auto simp: getDeltaOperationsSince_def Let_def split: option.splits if_splits)
  have i': "i < length ?h" "he_serial (?h ! i) = ?c - of_nat n + 1" using index_of_Some [OF i] by auto
  have "?c - of_nat (length ?h - 1 - i) = ?c - of_nat n + 1" using i' h(1) by (simp add: serials_ok_def)
  then have "(of_nat n :: 32 word) = of_nat (length ?h - 1 - i) + 1" by (simp add: algebra_simps)
  then have "(of_nat n :: 32 word) = of_nat (length ?h - i)"
    using i'(1) by (metis Suc_diff_Suc add.commute diff_diff_left of_nat_Suc plus_1_eq_Suc)
  moreover have "length ?h - i < 2 ^ 32" using h(2) by (simp add: maxSerialHistoryEntries_def)
  ultimately have "n = length ?h - i" using n by (intro of_nat_32_inject)
  then have "length ?h - n = i" "n \<le> length ?h" using i'(1) by auto
  then show ?thesis using collect_ops_Some [OF c] by (simp add: last_ops_def)
qed

section \<open>Properties of the worker\<close>

lemma run_requests_delta:
  assumes "worker_ok w" "length qs < 2 ^ 32"
  shows "\<exists>w'. run_requests n qs w = Some w' \<and> worker_ok w' \<and>
    (\<forall>ops. getDeltaOperationsSince w' (cacheSerial w) = Some ops \<longrightarrow>
       fold apply_op ops (worker_data w) = worker_data w')"
proof -
  obtain w' m where w': "run_requests n qs w = Some w'" "worker_ok w'" "m \<le> length qs"
    "since (worker_data w) (cacheSerial w) m w'"
    using run_requests_since [OF assms(1) since_refl, of n qs] by auto
  have "fold apply_op ops (worker_data w) = worker_data w'"
    if d: "getDeltaOperationsSince w' (cacheSerial w) = Some ops" for ops
  proof -
    have "cacheSerial w = cacheSerial w' - of_nat m" using w'(4) by (simp add: since_def)
    moreover have "serials_ok (cacheSerial w') (serialHistory w')" "length (serialHistory w') \<le> maxSerialHistoryEntries"
      using w'(2) by (auto simp: worker_ok_def history_ok_def over_limit_def)
    ultimately have "m \<le> length (serialHistory w') \<and> ops = last_ops m (serialHistory w')"
      using d w'(3) assms(2) by (intro getDelta_last) auto
    then show ?thesis using w'(4) by (simp add: since_def)
  qed
  then show ?thesis using w'(1,2) by blast
qed

text \<open>C3. The changes the worker hands out are right.  From a consistent state, any sequence of
  fewer than \<open>2 ^ 32\<close> storage requests ends (no request hangs), in a consistent state; and if
  the worker then returns a list of changes for the serial of the first state,
  replaying them on the data set of the first state gives exactly the data set of the last,
  whatever was added, withdrawn, replaced, bulk-loaded, imported or trimmed in between.\<close>

theorem rpki_delta_correct:
  assumes "worker_ok w" "length qs < 2 ^ 32"
  shows "\<exists>w'. run_requests n qs w = Some w' \<and> worker_ok w' \<and>
    (\<forall>ops. getDeltaOperationsSince w' (cacheSerial w) = Some ops \<longrightarrow>
       fold apply_op ops (worker_data w) = worker_data w')"
  by (rule run_requests_delta [OF assms])

text \<open>\<open>trimSerialHistory\<close> ends whenever its counters are exact, keeps them exact, brings the history within all three limits,
  and removes only what it must: it keeps the longest run of newest entries that is within
  the limits.\<close>

theorem rpki_history_trim:
  assumes "serialHistoryOperationCount w = ops_total (serialHistory w)"
    "serialHistoryBytes w = bytes_total (serialHistory w)"
  shows "\<exists>w' k. trimSerialHistory w = Some w' \<and> serialHistory w' = drop k (serialHistory w) \<and>
    serialHistoryOperationCount w' = ops_total (serialHistory w') \<and>
    serialHistoryBytes w' = bytes_total (serialHistory w') \<and>
    length (serialHistory w') \<le> maxSerialHistoryEntries \<and>
    ops_total (serialHistory w') \<le> int maxSerialHistoryOperations \<and>
    bytes_total (serialHistory w') \<le> int maxSerialHistoryBytes \<and>
    (\<forall>j<k. let h = drop j (serialHistory w) in over_limit h (ops_total h) (bytes_total h))"
proof -
  let ?h = "serialHistory w"
  obtain k where k: "trim_loop ?h (ops_total ?h) (bytes_total ?h) = Some (drop k ?h, ops_total (drop k ?h), bytes_total (drop k ?h))"
      "\<not> over_limit (drop k ?h) (ops_total (drop k ?h)) (bytes_total (drop k ?h))"
      "\<forall>j<k. over_limit (drop j ?h) (ops_total (drop j ?h)) (bytes_total (drop j ?h))" using trim_loop_minimal by blast
  let ?w = "w\<lparr>serialHistory := drop k ?h, serialHistoryOperationCount := ops_total (drop k ?h),
    serialHistoryBytes := bytes_total (drop k ?h)\<rparr>"
  have "trimSerialHistory w = Some ?w" unfolding trimSerialHistory_def assms k(1) by simp
  then show ?thesis
    using k(2,3) by (intro exI [of _ ?w] exI [of _ k]) (simp add: over_limit_def Let_def)
qed

section \<open>The life of the worker\<close>

datatype 'v event =
    Storage "'v request"
  | DatasetChanged "operation list" serial_value bool
  | Start rpki_config "js_error + rpki_store" bool
  | Stop
  | StopFinally
  | OpenSnapshot
  | CloseSnapshot
  | Connect endpoint aspa_format
  | Disconnect rpki_session

fun run_event :: "'v normalisers \<Rightarrow> 'v event \<Rightarrow> rpki_worker \<Rightarrow> rpki_worker option" where
  "run_event n (Storage q) w = map_option fst (run_request n q w)"
| "run_event n (DatasetChanged ops v inval) w = map_option fst (datasetChanged_request ops v inval w)"
| "run_event n (Start cfg opened listening) w = Some (fst (startRpki cfg opened listening w))"
| "run_event n Stop w = Some (fst (stopRpki w))"
| "run_event n StopFinally w = Some (fst (stopRpki_finally w))"
| "run_event n OpenSnapshot w = Some (fst (createDataSnapshot w))"
| "run_event n CloseSnapshot w = Some (closeDataSnapshot w)"
| "run_event n (Connect e fmt) w = Some (fst (createRpkiSession e fmt w))"
| "run_event n (Disconnect s) w = Some (removeRpkiSession s w)"

fun run_events :: "'v normalisers \<Rightarrow> 'v event list \<Rightarrow> rpki_worker \<Rightarrow> rpki_worker option" where
  "run_events n [] w = Some w"
| "run_events n (e # es) w = (case run_event n e w of None \<Rightarrow> None | Some w' \<Rightarrow> run_events n es w')"

text \<open>What holds at every moment: the history is within its limits with exact counters, the stored
  data is well formed, and the snapshots are bounded.\<close>

definition bounded :: "rpki_worker \<Rightarrow> bool" where
  "bounded w = (serialHistoryOperationCount w = ops_total (serialHistory w) \<and>
     serialHistoryBytes w = bytes_total (serialHistory w) \<and>
     \<not> over_limit (serialHistory w) (ops_total (serialHistory w)) (bytes_total (serialHistory w)) \<and>
     (rpkiStore w = None \<longrightarrow> activeDataSnapshots w = 0) \<and> pred_option store_ok (rpkiStore w) \<and>
     activeDataSnapshots w \<le> maxConcurrentDataSnapshots w \<and> maxConcurrentDataSnapshots w \<le> 16)"

lemma bounded_trim:
  assumes "serialHistoryOperationCount w = ops_total (serialHistory w)" "serialHistoryBytes w = bytes_total (serialHistory w)"
    "(rpkiStore w = None \<longrightarrow> activeDataSnapshots w = 0) \<and> pred_option store_ok (rpkiStore w)"
    "activeDataSnapshots w \<le> maxConcurrentDataSnapshots w" "maxConcurrentDataSnapshots w \<le> 16"
  shows "\<exists>w'. trimSerialHistory w = Some w' \<and> bounded w'"
proof -
  let ?h = "serialHistory w"
  obtain k where k: "trim_loop ?h (ops_total ?h) (bytes_total ?h) = Some (drop k ?h, ops_total (drop k ?h), bytes_total (drop k ?h))"
    "\<not> over_limit (drop k ?h) (ops_total (drop k ?h)) (bytes_total (drop k ?h))"
    using trim_loop_minimal by blast
  then show ?thesis using assms(3-5) unfolding trimSerialHistory_def assms(1,2) k(1) by (simp add: bounded_def)
qed

lemma bounded_resolve:
  assumes "bounded w" "resolveMutationSerial v w = (r, w1)"
  shows "bounded w1 \<and> serialHistory w1 = serialHistory w"
proof -
  have b: "bounded (snd (bumpCacheSerial w)) \<and> serialHistory (snd (bumpCacheSerial w)) = serialHistory w"
    using assms(1) by (cases "rpkiStore w") (simp_all add: bumpCacheSerial_def bump_eq bounded_def)
  have "w1 = w \<or> w1 = snd (bumpCacheSerial w)"
    using assms(2) by (auto simp: resolveMutationSerial_def Let_def split: prod.splits if_splits)
  then show ?thesis using b assms(1) by auto
qed

lemma bounded_update [simp]:
  "bounded (w\<lparr>cacheSerial := c\<rparr>) = bounded w" "bounded (notify_all w) = bounded w"
  "bounded (w\<lparr>rpkiSessionMap := m\<rparr>) = bounded w" "bounded (w\<lparr>rpkiRouterKeyMap := m'\<rparr>) = bounded w"
  "bounded (w\<lparr>configured := b\<rparr>) = bounded w" "bounded (w\<lparr>storageStopping := b\<rparr>) = bounded w"
  "bounded w \<Longrightarrow> bounded (clearSerialHistory w)"
  by (simp_all add: bounded_def notify_all_def clearSerialHistory_def)

lemma bounded_record:
  assumes "bounded w"
  shows "\<exists>w' x. recordSerialDeltaAndNotify ops v inval w = Some (w', x) \<and> bounded w'"
proof -
  obtain s f w1 where r: "resolveMutationSerial v w = ((s, f), w1)" by (metis prod.collapse)
  have w1: "bounded w1" using bounded_resolve [OF assms r] by simp
  define e where "e = \<lparr>he_serial = s, he_ops = ops, he_bytes = estimateSerialOperationsBytes ops\<rparr>"
  define w3 where "w3 = w1\<lparr>cacheSerial := s, serialHistory := serialHistory w1 @ [e],
    serialHistoryOperationCount := serialHistoryOperationCount w1 + int (length ops),
    serialHistoryBytes := serialHistoryBytes w1 + int (estimateSerialOperationsBytes ops)\<rparr>"
  obtain w' where t: "trimSerialHistory w3 = Some w'" "bounded w'"
    using bounded_trim [of w3] w1 by (auto simp: bounded_def w3_def e_def)
  show ?thesis
    unfolding recordSerialDeltaAndNotify_def r Let_def prod.case
    using t w1 by (auto simp: w3_def e_def)
qed

lemma bounded_recorded: "bounded w \<Longrightarrow> \<exists>w' x. recorded ops v inval w = Some (w', x) \<and> bounded w'"
  using bounded_record [of w ops v inval] by (auto simp: recorded_def)

definition bounded_reply :: "reply \<Rightarrow> bool" where
  "bounded_reply r = (\<exists>w' x. r = Some (w', x) \<and> bounded w')"

lemma bounded_reply_simps [simp]:
  "bounded_reply (Some (w, x)) = bounded w" "bounded w \<Longrightarrow> bounded_reply (recorded ops v inval w)"
  using bounded_recorded [of w ops v inval] by (auto simp: bounded_reply_def)

lemma bounded_handle:
  assumes "bounded w" "\<And>st. rpkiStore w = Some st \<Longrightarrow> store_ok st \<Longrightarrow> bounded_reply (run st w)"
  shows "bounded_reply (handleStorageRequest run w)"
  using assms by (auto simp: handleStorageRequest_def assertStorageAvailable_def bounded_def split: option.splits)

lemma bounded_store: "bounded w \<Longrightarrow> rpkiStore w = Some st \<Longrightarrow> store_ok st' \<Longrightarrow> bounded (w\<lparr>rpkiStore := Some st'\<rparr>)"
  by (simp add: bounded_def)

lemmas request_defs = addRoa_request_def addRoaBatch_request_def deleteRoa_request_def deleteRoaBatch_request_def
  addRouterKey_request_def deleteRouterKey_request_def addAspa_request_def addAspaBatch_request_def
  deleteAspa_request_def deleteAspaBatch_request_def importRoaJson_request_def importAspaJson_request_def

lemmas store_specs = addRoa_spec addRoaBatch_spec deleteRoa_spec clearRoas_spec upsertAspa_spec
  upsertAspaBatch_spec deleteAspa_spec clearAspas_spec importRoaJson_spec importAspaJson_spec

lemma bounded_request: "bounded w \<Longrightarrow> bounded_reply (run_request n q w)"
  by (cases q; simp only: run_request.simps request_defs; rule bounded_handle)
    (auto simp: Let_def bounded_store split: sum.splits prod.splits option.splits dest!: store_specs)

lemma bounded_start:
  assumes "bounded w" "pred_option store_ok (case opened of Inl _ \<Rightarrow> None | Inr st \<Rightarrow> Some st)"
  shows "bounded (fst (startRpki cfg opened listening w))"
  using assms
  by (auto simp: startRpki_def Let_def bounded_def restoreInitialRouterKeys_def clearSerialHistory_def
      split: sum.splits option.splits)

lemma bounded_session: "bounded (fst (createRpkiSession e fmt w)) = bounded w"
  "bounded (removeRpkiSession s w) = bounded w"
  by (simp_all add: createRpkiSession_def removeRpkiSession_def Let_def)

lemma bounded_snapshot: "bounded w \<Longrightarrow> bounded (fst (createDataSnapshot w))"
  "bounded w \<Longrightarrow> bounded (closeDataSnapshot w)"
  by (auto simp: createDataSnapshot_def closeDataSnapshot_def bounded_def split: option.splits)

lemma bounded_stop: "bounded w \<Longrightarrow> bounded (fst (stopRpki w))" "bounded w \<Longrightarrow> bounded (fst (stopRpki_finally w))"
  by (simp_all add: stopRpki_def stopRpki_finally_def bounded_def clearSerialHistory_def Let_def)

fun event_ok :: "'v event \<Rightarrow> bool" where
  "event_ok (Start cfg (Inr st) listening) = store_ok st"
| "event_ok _ = True"

lemma bounded_event: "bounded w \<Longrightarrow> event_ok e \<Longrightarrow> \<exists>w'. run_event n e w = Some w' \<and> bounded w'"
proof (cases e)
  case (Storage q)
  then show "bounded w \<Longrightarrow> ?thesis" using bounded_request [of w n q] by (auto simp: bounded_reply_def)
next
  case (DatasetChanged ops v inval)
  assume "bounded w"
  then have "bounded_reply (datasetChanged_request ops v inval w)"
    unfolding datasetChanged_request_def by (intro bounded_handle) auto
  then show ?thesis using DatasetChanged by (auto simp: bounded_reply_def)
next
  case (Start cfg opened listening)
  assume "bounded w" "event_ok e"
  then show ?thesis using Start bounded_start [of w opened cfg listening] by (cases opened) auto
qed (simp_all add: bounded_session bounded_snapshot bounded_stop)

lemma bounded_events:
  "bounded w \<Longrightarrow> list_all event_ok es \<Longrightarrow> \<exists>w'. run_events n es w = Some w' \<and> bounded w'"
proof (induction es arbitrary: w)
  case (Cons e es)
  obtain w1 where "run_event n e w = Some w1" "bounded w1"
    using bounded_event [OF Cons.prems(1), of e n] Cons.prems(2) by auto
  then show ?case using Cons.IH [of w1] Cons.prems(2) by simp
qed simp

text \<open>C15. Whatever happens to the worker, from its construction on and in any order - storage requests, reported
  changes with any serial, starts with a well formed database, stops, snapshots opened
  and closed, sessions created and removed - no event hangs, the database stays well formed
  (unique keys, exact row counts, all constraints met), the history of changes stays
  within its limits of 1024 entries, 10000 operations and 16 MB with exact
  counters, and at most 16 snapshots are open.\<close>

theorem rpki_worker_bounded:
  assumes "list_all event_ok es"
  shows "\<exists>w. run_events n es new_RpkiWorker = Some w \<and> pred_option store_ok (rpkiStore w) \<and>
    length (serialHistory w) \<le> 1024 \<and>
    serialHistoryOperationCount w = ops_total (serialHistory w) \<and> ops_total (serialHistory w) \<le> 10000 \<and>
    serialHistoryBytes w = bytes_total (serialHistory w) \<and> bytes_total (serialHistory w) \<le> 16 * 1024 * 1024 \<and>
    activeDataSnapshots w \<le> 16"
proof -
  have "bounded new_RpkiWorker" by (simp add: bounded_def new_RpkiWorker_def)
  then obtain w where "run_events n es new_RpkiWorker = Some w" "bounded w"
    using bounded_events assms by blast
  then show ?thesis
    by (auto simp: bounded_def over_limit_def maxSerialHistoryEntries_def maxSerialHistoryOperations_def
        maxSerialHistoryBytes_def)
qed

section \<open>Witnesses\<close>

definition demo_norm :: "roa normalisers" where
  "demo_norm = \<lparr>norm_roa = Some, norm_aspa = (\<lambda>_. None), norm_customer = (\<lambda>_. None)\<rparr>"

definition demo_config :: rpki_config where
  "demo_config = \<lparr>cfg_authType = NoAuth, cfg_tcpAo = False, cfg_tcpMd5 = False, cfg_snapshots = None,
     cfg_routerKeys = []\<rparr>"

definition demo_worker :: rpki_worker where
  "demo_worker = fst (startRpki demo_config (Inr initializeSchema) True new_RpkiWorker)"

lemma demo_worker_eq: "demo_worker = \<lparr>rpkiStore = Some initializeSchema, configured = True, storageStopping = False,
    rpkiRouterKeyMap = [], rpkiSessionMap = [], cacheSerial = 1, serialHistory = [],
    serialHistoryOperationCount = 0, serialHistoryBytes = 0, activeDataSnapshots = 0,
    maxConcurrentDataSnapshots = 4\<rparr>"
  by (simp add: demo_worker_def startRpki_def demo_config_def new_RpkiWorker_def restoreInitialRouterKeys_def
      clearSerialHistory_def initializeSchema_def Let_def)

lemma demo_worker_ok: "worker_ok demo_worker"
  by (simp add: demo_worker_eq worker_ok_def history_ok_def serials_ok_def keys_ok_def store_ok_init)
    (simp add: initializeSchema_def)

lemma demo_bytes: "estimateSerialOperationsBytes [RoaOp Announce (import_demo 7)] = 110"
  by code_simp

lemma demo_check: "roa_check (import_demo 7)"
  by (simp add: roa_check_def import_demo_def)

text \<open>One ROA is added: the delta is its announcement.\<close>

lemma demo_delta: "getDeltaOperationsSince (the (run_requests demo_norm [AddRoa (import_demo 7)] demo_worker)) 1 =
  Some [RoaOp Announce (import_demo 7)]"
  by (simp add: demo_worker_eq demo_norm_def addRoa_request_def handleStorageRequest_def assertStorageAvailable_def
      addRoa_def insertRoa_def insert_ignore_def initializeSchema_def demo_check bump_eq recorded_def
      recordSerialDeltaAndNotify_def resolveMutationSerial_def getStoreCacheSerial_def word_value_def
      normalizeCacheSerial_def isSerialNewer_def demo_bytes trimSerialHistory_def over_limit_def
      maxSerialHistoryEntries_def maxSerialHistoryOperations_def maxSerialHistoryBytes_def notify_all_def
      getDeltaOperationsSince_def Let_def)

theorem rpki_delta_correct_witness:
  "\<exists>w'. run_requests demo_norm [AddRoa (import_demo 7)] demo_worker = Some w' \<and> worker_ok w' \<and>
     getDeltaOperationsSince w' (cacheSerial demo_worker) = Some [RoaOp Announce (import_demo 7)] \<and>
     apply_op (RoaOp Announce (import_demo 7)) (worker_data demo_worker) = worker_data w'"
proof -
  obtain w' where w': "run_requests demo_norm [AddRoa (import_demo 7)] demo_worker = Some w'" "worker_ok w'"
    "\<forall>ops. getDeltaOperationsSince w' (cacheSerial demo_worker) = Some ops \<longrightarrow>
       fold apply_op ops (worker_data demo_worker) = worker_data w'"
    using rpki_delta_correct [OF demo_worker_ok, of "[AddRoa (import_demo 7)]" demo_norm] by auto
  have "getDeltaOperationsSince w' (cacheSerial demo_worker) = Some [RoaOp Announce (import_demo 7)]"
    using demo_delta w'(1) by (simp add: demo_worker_eq)
  then show ?thesis using w' by auto
qed

definition demo_full :: rpki_worker where
  "demo_full = new_RpkiWorker\<lparr>serialHistory := replicate 2 \<lparr>he_serial = 2, he_ops = [], he_bytes = 9000000\<rparr>,
     serialHistoryBytes := 18000000\<rparr>"

theorem rpki_history_trim_witness:
  "\<exists>w'. trimSerialHistory demo_full = Some w' \<and> length (serialHistory w') \<le> maxSerialHistoryEntries \<and>
     bytes_total (serialHistory w') = 9000000"
proof -
  have h: "serialHistoryOperationCount demo_full = ops_total (serialHistory demo_full)"
    "serialHistoryBytes demo_full = bytes_total (serialHistory demo_full)"
    by (simp_all add: demo_full_def new_RpkiWorker_def numeral_2_eq_2)
  obtain w' k where w': "trimSerialHistory demo_full = Some w'" "length (serialHistory w') \<le> maxSerialHistoryEntries"
    using rpki_history_trim [OF h] by blast
  have "map_option (\<lambda>w. bytes_total (serialHistory w)) (trimSerialHistory demo_full) = Some 9000000"
    by (simp add: trimSerialHistory_def demo_full_def new_RpkiWorker_def numeral_2_eq_2 over_limit_def
        maxSerialHistoryEntries_def maxSerialHistoryOperations_def maxSerialHistoryBytes_def)
  then show ?thesis using w' by auto
qed

theorem rpki_worker_bounded_witness:
  "\<exists>w. run_events demo_norm [Start demo_config (Inr initializeSchema) True, Storage (AddRoa (import_demo 7)), OpenSnapshot]
      new_RpkiWorker = Some w \<and> length (serialHistory w) \<le> 1024 \<and> activeDataSnapshots w \<le> 16"
proof -
  have "list_all event_ok [Start demo_config (Inr initializeSchema) True, Storage (AddRoa (import_demo 7)), OpenSnapshot]"
    by (simp add: store_ok_init)
  from rpki_worker_bounded [OF this, of demo_norm] show ?thesis by blast
qed

end
