(* ===== verification/Bgp_Open.thy ===== *)
theory Bgp_Open
  imports Js_Prelude
begin

text \<open>
  BGP messages: the address families and their flags (\<open>bgpConst.js\<close>, \<open>bgpUtils.js\<close>), the
  messages that \<open>bgpSession.js\<close> builds, and the parser of \<open>bgpPacketParser.js\<close> for OPEN,
  NOTIFICATION, KEEPALIVE and ROUTE-REFRESH.  The content of an UPDATE only
  reaches the log of the session, so the parser of this theory stops at its type.

  The parser works with positions in the packet; here each loop works on the bytes that
  are left.  The address parser of \<open>ipaddr.js\<close> is the argument \<open>ipToBytes\<close>.

  The lemmas show that an OPEN message is read back as it was built: \<open>announced\<close> is the list of
  capabilities that a configuration stands for.
\<close>

section \<open>Address families and flags\<close>

datatype addr_family = IPV4_UNC | IPV6_UNC | L2VPN_EVPN | VPNV4 | VPNV6 | IPV4_MVPN | IPV6_MVPN | IPV4_QP | IPV6_QP
  | IPV4_FLOWSPEC | IPV6_FLOWSPEC | IPV4_LABEL_UNICAST | IPV6_LABEL_UNICAST | LINK_STATE | LINK_STATE_VPN
  | IPV4_MULTICAST | IPV6_MULTICAST

fun getAfiAndSafi :: "addr_family \<Rightarrow> nat \<times> nat" where
  "getAfiAndSafi IPV4_UNC = (1, 1)"
| "getAfiAndSafi IPV6_UNC = (2, 1)"
| "getAfiAndSafi IPV4_MULTICAST = (1, 2)"
| "getAfiAndSafi IPV6_MULTICAST = (2, 2)"
| "getAfiAndSafi L2VPN_EVPN = (25, 70)"
| "getAfiAndSafi VPNV4 = (1, 128)"
| "getAfiAndSafi VPNV6 = (2, 128)"
| "getAfiAndSafi IPV4_LABEL_UNICAST = (1, 4)"
| "getAfiAndSafi IPV6_LABEL_UNICAST = (2, 4)"
| "getAfiAndSafi IPV4_MVPN = (1, 5)"
| "getAfiAndSafi IPV6_MVPN = (2, 5)"
| "getAfiAndSafi IPV4_FLOWSPEC = (1, 133)"
| "getAfiAndSafi IPV6_FLOWSPEC = (2, 133)"
| "getAfiAndSafi IPV4_QP = (1, 241)"
| "getAfiAndSafi IPV6_QP = (2, 241)"
| "getAfiAndSafi LINK_STATE = (16388, 71)"
| "getAfiAndSafi LINK_STATE_VPN = (16388, 72)"

definition getAddrFamilyType :: "nat \<Rightarrow> nat \<Rightarrow> addr_family option" where
  "getAddrFamilyType afi safi =
     (if afi = 1 then
        (if safi = 1 then Some IPV4_UNC else if safi = 2 then Some IPV4_MULTICAST
         else if safi = 128 then Some VPNV4 else if safi = 4 then Some IPV4_LABEL_UNICAST
         else if safi = 5 then Some IPV4_MVPN else if safi = 133 then Some IPV4_FLOWSPEC
         else if safi = 241 then Some IPV4_QP else None)
      else if afi = 2 then
        (if safi = 1 then Some IPV6_UNC else if safi = 2 then Some IPV6_MULTICAST
         else if safi = 128 then Some VPNV6 else if safi = 4 then Some IPV6_LABEL_UNICAST
         else if safi = 5 then Some IPV6_MVPN else if safi = 133 then Some IPV6_FLOWSPEC
         else if safi = 241 then Some IPV6_QP else None)
      else if afi = 25 then (if safi = 70 then Some L2VPN_EVPN else None)
      else if afi = 16388 then
        (if safi = 71 then Some LINK_STATE else if safi = 72 then Some LINK_STATE_VPN else None)
      else None)"

type_synonym flags = "32 word"

definition BIT_SET :: "flags \<Rightarrow> flags \<Rightarrow> flags" where
  "BIT_SET f g = f OR g"

definition BIT_TEST :: "flags \<Rightarrow> flags \<Rightarrow> bool" where
  "BIT_TEST f g = (f AND g \<noteq> 0)"

definition MULTIPROTOCOL_EXTENSIONS :: flags where "MULTIPROTOCOL_EXTENSIONS = 1"
definition ROUTE_REFRESH_CAP :: flags where "ROUTE_REFRESH_CAP = 2"
definition FOUR_OCTET_AS :: flags where "FOUR_OCTET_AS = 4"
definition BGP_ROLE :: flags where "BGP_ROLE = 8"
definition EXTENDED_NEXT_HOP_ENCODING :: flags where "EXTENDED_NEXT_HOP_ENCODING = 0x10"
definition ADD_PATH :: flags where "ADD_PATH = 0x20"

fun getAddressFamilyFlag :: "addr_family \<Rightarrow> flags" where
  "getAddressFamilyFlag IPV4_UNC = 1"
| "getAddressFamilyFlag IPV6_UNC = 2"
| "getAddressFamilyFlag IPV4_MVPN = 4"
| "getAddressFamilyFlag IPV6_MVPN = 8"
| "getAddressFamilyFlag IPV4_QP = 0x10"
| "getAddressFamilyFlag IPV6_QP = 0x20"
| "getAddressFamilyFlag IPV4_LABEL_UNICAST = 0x40"
| "getAddressFamilyFlag IPV6_LABEL_UNICAST = 0x80"
| "getAddressFamilyFlag VPNV4 = 0x100"
| "getAddressFamilyFlag VPNV6 = 0x200"
| "getAddressFamilyFlag L2VPN_EVPN = 0x400"
| "getAddressFamilyFlag _ = 0"

section \<open>Parsing\<close>

datatype bgp_type = OPEN | UPDATE_T | NOTIFICATION | KEEPALIVE | ROUTE_REFRESH

definition packet_type :: "nat \<Rightarrow> bgp_type option" where
  "packet_type t = (if t = 1 then Some OPEN else if t = 2 then Some UPDATE_T else if t = 3 then Some NOTIFICATION
     else if t = 4 then Some KEEPALIVE else if t = 5 then Some ROUTE_REFRESH else None)"

definition type_code :: "bgp_type \<Rightarrow> nat" where
  "type_code t = (case t of OPEN \<Rightarrow> 1 | UPDATE_T \<Rightarrow> 2 | NOTIFICATION \<Rightarrow> 3 | KEEPALIVE \<Rightarrow> 4 | ROUTE_REFRESH \<Rightarrow> 5)"

definition MINIMUM_MESSAGE_LENGTHS :: "nat \<Rightarrow> nat" where
  "MINIMUM_MESSAGE_LENGTHS t = (case packet_type t of
      Some OPEN \<Rightarrow> 29 | Some UPDATE_T \<Rightarrow> 23 | Some NOTIFICATION \<Rightarrow> 21 | Some KEEPALIVE \<Rightarrow> 19 | Some ROUTE_REFRESH \<Rightarrow> 23
    | None \<Rightarrow> 19)"

datatype capability =
    MultiprotocolCap nat nat
  | RouteRefreshCap
  | FourOctetAsCap nat
  | RoleCap nat
  | ExtendedNextHopCap "(nat \<times> nat \<times> nat) list"
  | AddPathCap "(nat \<times> nat \<times> nat) list"
  | OtherCap nat

fun next_hops :: "buffer \<Rightarrow> (nat \<times> nat \<times> nat) list" where
  "next_hops (a1 # a2 # s1 # s2 # t1 # t2 # b) =
     (be16 [a1, a2] 0, be16 [s1, s2] 0, be16 [t1, t2] 0) # next_hops b"
| "next_hops _ = []"

fun add_paths :: "buffer \<Rightarrow> (nat \<times> nat \<times> nat) list" where
  "add_paths (a1 # a2 # s # m # b) = (be16 [a1, a2] 0, unat s, unat m) # add_paths b"
| "add_paths _ = []"

definition parse_capability :: "nat \<Rightarrow> buffer \<Rightarrow> js_error + capability" where
  "parse_capability code v =
     (if (code = 0x01 \<or> code = 0x41) \<and> length v \<noteq> 4 \<or> code = 0x02 \<and> length v \<noteq> 0 \<or> code = 0x09 \<and> length v \<noteq> 1 \<or>
         code = 0x05 \<and> (length v = 0 \<or> length v mod 6 \<noteq> 0) \<or> code = 0x45 \<and> (length v = 0 \<or> length v mod 4 \<noteq> 0)
      then Inl JsError
      else if code = 0x01 then Inr (MultiprotocolCap (be16 v 0) (unat (v ! 3)))
      else if code = 0x02 then Inr RouteRefreshCap
      else if code = 0x41 then Inr (FourOctetAsCap (be32 v 0))
      else if code = 0x09 then Inr (RoleCap (unat (v ! 0)))
      else if code = 0x05 then Inr (ExtendedNextHopCap (next_hops v))
      else if code = 0x45 then Inr (AddPathCap (add_paths v))
      else Inr (OtherCap code))"

text \<open>The capabilities of one optional parameter.\<close>

function parse_capabilities :: "buffer \<Rightarrow> js_error + capability list" where
  "parse_capabilities b =
     (if b = [] then Inr []
      else if length b < 2 then Inl JsError
      else let len = unat (b ! 1); v = drop 2 b in
        if length v < len then Inl JsError
        else bindE (parse_capability (unat (b ! 0)) (take len v)) (\<lambda>c.
             bindE (parse_capabilities (drop len v)) (\<lambda>cs. Inr (c # cs))))"
  by pat_completeness auto
termination by (relation "measure length") auto

declare parse_capabilities.simps [simp del]

text \<open>The optional parameters; the extended form of RFC 9072 has two length bytes.\<close>

function parse_parameters :: "bool \<Rightarrow> buffer \<Rightarrow> js_error + capability list" where
  "parse_parameters ext b =
     (if b = [] then Inr []
      else let hl = (if ext then 3 else 2) in
        if length b < hl then Inl JsError
        else let len = (if ext then be16 b 1 else unat (b ! 1)); v = drop hl b in
          if length v < len then Inl JsError
          else bindE (if unat (b ! 0) = 2 then parse_capabilities (take len v) else Inr []) (\<lambda>cs.
               bindE (parse_parameters ext (drop len v)) (\<lambda>ds. Inr (cs @ ds))))"
  by pat_completeness auto
termination by (relation "measure (\<lambda>(ext, b). length b)") (auto split: if_splits)

declare parse_parameters.simps [simp del]

record open_message =
  om_asn :: nat
  om_holdTime :: nat
  om_routerId :: buffer
  om_capabilities :: "capability list"

definition parseOpenMessage :: "buffer \<Rightarrow> js_error + open_message" where
  "parseOpenMessage b =
     (let optLen = unat (b ! 28); ext = (optLen \<noteq> 0 \<and> length b > 29 \<and> unat (b ! 29) = 255) in
      if ext \<and> length b < 32 then Inl JsError
      else let optLen' = (if ext then be16 b 30 else optLen); pos = (if ext then 32 else 29) in
        if pos + optLen' \<noteq> length b then Inl JsError
        else if unat (b ! 19) \<noteq> 4 then Inl JsError
        else bindE (parse_parameters ext (drop pos b)) (\<lambda>cs.
          Inr \<lparr>om_asn = be16 b 20, om_holdTime = be16 b 22, om_routerId = subarray b 24 28,
               om_capabilities = cs\<rparr>))"

datatype parsed =
    Invalid
  | ParsedOpen open_message
  | ParsedUpdate
  | ParsedNotification nat nat buffer
  | ParsedKeepalive
  | ParsedRouteRefresh nat nat nat

definition parseBgpPacket :: "buffer \<Rightarrow> parsed" where
  "parseBgpPacket b =
     (if length b < 19 then Invalid
      else if \<not> list_all (\<lambda>x. x = 0xff) (take 16 b) then Invalid
      else let len = be16 b 16; t = unat (b ! 18) in
        if len < MINIMUM_MESSAGE_LENGTHS t \<or> len \<noteq> length b then Invalid
        else if t = 4 \<and> len \<noteq> 19 then Invalid
        else case packet_type t of
            Some OPEN \<Rightarrow> (case parseOpenMessage b of Inl _ \<Rightarrow> Invalid | Inr m \<Rightarrow> ParsedOpen m)
          | Some UPDATE_T \<Rightarrow> ParsedUpdate
          | Some NOTIFICATION \<Rightarrow> ParsedNotification (unat (b ! 19)) (unat (b ! 20)) (drop 21 b)
          | Some KEEPALIVE \<Rightarrow> ParsedKeepalive
          | Some ROUTE_REFRESH \<Rightarrow> ParsedRouteRefresh (be16 b 19) (unat (b ! 21)) (unat (b ! 22))
          | None \<Rightarrow> Invalid)"

section \<open>Building\<close>

record bgp_config =
  localAs :: nat
  holdTime :: nat
  routerId :: string
  localCapFlags :: flags
  localAddrFamilyFlags :: flags
  localRole :: nat
  localAddPathMap :: "((nat \<times> nat) \<times> nat) list"
  openCapCustom :: string

fun remove_0x :: "string \<Rightarrow> string" where
  "remove_0x (a # b # s) = (if a = CHR ''0'' \<and> b = CHR ''x'' then remove_0x s else a # remove_0x (b # s))"
| "remove_0x s = s"

definition processCustomPkt :: "string \<Rightarrow> buffer" where
  "processCustomPkt s = unhex (remove_0x (filter (\<lambda>c. \<not> js_space c) s))"

definition buildBgpCapability :: "nat \<Rightarrow> nat \<Rightarrow> nat \<Rightarrow> nat \<Rightarrow> buffer \<Rightarrow> buffer" where
  "buildBgpCapability optType optLength capType capLength capInfo =
     [word_of_nat optType, word_of_nat optLength, word_of_nat capType, word_of_nat capLength] @ capInfo"

definition local_family :: "bgp_config \<Rightarrow> addr_family \<Rightarrow> bool" where
  "local_family c fam = BIT_TEST (localAddrFamilyFlags c) (getAddressFamilyFlag fam)"

definition vpn_capability :: "bgp_config \<Rightarrow> addr_family \<Rightarrow> buffer" where
  "vpn_capability c fam =
     (if local_family c fam
      then let (afi, safi) = getAfiAndSafi fam in buildBgpCapability 2 6 1 4 (enc16 afi @ [0, word_of_nat safi])
      else [])"

definition mp_capability :: "bgp_config \<Rightarrow> addr_family \<Rightarrow> buffer" where
  "mp_capability c fam =
     (if local_family c fam
      then let (afi, safi) = getAfiAndSafi fam in buildBgpCapability 2 6 1 4 (enc16 afi @ enc16 safi)
      else [])"

definition add_path_info :: "bgp_config \<Rightarrow> buffer" where
  "add_path_info c =
     concat (map (\<lambda>((afi, safi), mode). enc16 afi @ [word_of_nat safi, word_of_nat mode]) (localAddPathMap c))"

definition ext_next_hop_safis :: "bgp_config \<Rightarrow> nat list" where
  "ext_next_hop_safis c =
     map (\<lambda>fam. snd (getAfiAndSafi fam))
       (filter (local_family c) [IPV4_UNC, IPV4_LABEL_UNICAST, IPV4_MVPN, IPV4_QP, VPNV4])"

definition ext_next_hop_info :: "bgp_config \<Rightarrow> buffer" where
  "ext_next_hop_info c = concat (map (\<lambda>safi. enc16 1 @ enc16 safi @ enc16 2) (ext_next_hop_safis c))"

definition buildOpenMessageOptionalParams :: "bgp_config \<Rightarrow> buffer" where
  "buildOpenMessageOptionalParams c =
     (if BIT_TEST (localCapFlags c) MULTIPROTOCOL_EXTENSIONS
      then concat (map (vpn_capability c) [VPNV4, VPNV6, L2VPN_EVPN]) @
           concat (map (mp_capability c) [IPV4_UNC, IPV4_LABEL_UNICAST, IPV6_UNC, IPV4_MVPN, IPV6_MVPN, IPV4_QP, IPV6_QP])
      else []) @
     (if BIT_TEST (localCapFlags c) ROUTE_REFRESH_CAP then buildBgpCapability 2 2 0x02 0 [] else []) @
     (if BIT_TEST (localCapFlags c) FOUR_OCTET_AS then buildBgpCapability 2 6 0x41 4 (enc32 (localAs c)) else []) @
     (if BIT_TEST (localCapFlags c) BGP_ROLE then buildBgpCapability 2 3 0x09 1 [word_of_nat (localRole c)] else []) @
     (if BIT_TEST (localCapFlags c) ADD_PATH \<and> length (add_path_info c) > 0
      then buildBgpCapability 2 (length (add_path_info c) + 2) 0x45 (length (add_path_info c)) (add_path_info c)
      else []) @
     (if BIT_TEST (localCapFlags c) EXTENDED_NEXT_HOP_ENCODING \<and> length (ext_next_hop_safis c) > 0
      then buildBgpCapability 2 (length (ext_next_hop_info c) + 2) 0x05 (length (ext_next_hop_info c))
             (ext_next_hop_info c)
      else []) @
     (if filter (\<lambda>x. \<not> js_space x) (openCapCustom c) \<noteq> [] then processCustomPkt (openCapCustom c) else [])"

definition buildBgpMessageHeader :: "nat \<Rightarrow> bgp_type \<Rightarrow> buffer" where
  "buildBgpMessageHeader totalLength t = replicate 16 0xff @ enc16 totalLength @ enc8 (type_code t)"

definition buildOpenMsg :: "(string \<Rightarrow> js_error + buffer) \<Rightarrow> bgp_config \<Rightarrow> js_error + buffer" where
  "buildOpenMsg ipToBytes c =
     bindE (ipToBytes (routerId c)) (\<lambda>rid.
       let head = [4] @ enc16 (localAs c) @ enc16 (holdTime c) @ rid;
           opt = buildOpenMessageOptionalParams c in
       if length opt > 255 then Inl RangeError
       else Inr (buildBgpMessageHeader (19 + length head + (length opt + 1)) OPEN @ head @ enc8 (length opt) @ opt))"

definition buildNotificationMsg :: "nat \<Rightarrow> nat \<Rightarrow> buffer" where
  "buildNotificationMsg errorCode errorSubcode =
     buildBgpMessageHeader 21 NOTIFICATION @ enc8 errorCode @ enc8 errorSubcode"

definition buildKeepAliveMsg :: buffer where
  "buildKeepAliveMsg = buildBgpMessageHeader 19 KEEPALIVE"

section \<open>What an OPEN message announces\<close>

definition announced :: "bgp_config \<Rightarrow> capability list" where
  "announced c =
     (if BIT_TEST (localCapFlags c) MULTIPROTOCOL_EXTENSIONS
      then map (\<lambda>fam. MultiprotocolCap (fst (getAfiAndSafi fam)) (snd (getAfiAndSafi fam)))
        (filter (local_family c) [VPNV4, VPNV6, L2VPN_EVPN, IPV4_UNC, IPV4_LABEL_UNICAST, IPV6_UNC, IPV4_MVPN, IPV6_MVPN,
           IPV4_QP, IPV6_QP])
      else []) @
     (if BIT_TEST (localCapFlags c) ROUTE_REFRESH_CAP then [RouteRefreshCap] else []) @
     (if BIT_TEST (localCapFlags c) FOUR_OCTET_AS then [FourOctetAsCap (localAs c)] else []) @
     (if BIT_TEST (localCapFlags c) BGP_ROLE then [RoleCap (localRole c)] else []) @
     (if BIT_TEST (localCapFlags c) ADD_PATH \<and> localAddPathMap c \<noteq> []
      then [AddPathCap (map (\<lambda>((afi, safi), mode). (afi, safi, mode)) (localAddPathMap c))] else []) @
     (if BIT_TEST (localCapFlags c) EXTENDED_NEXT_HOP_ENCODING \<and> ext_next_hop_safis c \<noteq> []
      then [ExtendedNextHopCap (map (\<lambda>safi. (1, safi, 2)) (ext_next_hop_safis c))] else [])"

text \<open>A configuration whose values fit their fields, without custom bytes.\<close>

definition config_ok :: "bgp_config \<Rightarrow> bool" where
  "config_ok c = (localAs c < 2 ^ 32 \<and> holdTime c < 65536 \<and> localRole c < 256 \<and>
     list_all (\<lambda>((afi, safi), mode). afi < 65536 \<and> safi < 256 \<and> mode < 256) (localAddPathMap c) \<and>
     length (localAddPathMap c) \<le> 30 \<and> openCapCustom c = [])"

fun cap_bytes :: "capability \<Rightarrow> nat \<times> buffer" where
  "cap_bytes (MultiprotocolCap afi safi) = (0x01, enc16 afi @ enc16 safi)"
| "cap_bytes RouteRefreshCap = (0x02, [])"
| "cap_bytes (FourOctetAsCap n) = (0x41, enc32 n)"
| "cap_bytes (RoleCap n) = (0x09, [word_of_nat n])"
| "cap_bytes (AddPathCap xs) = (0x45, concat (map (\<lambda>(afi, safi, mode). enc16 afi @ [word_of_nat safi, word_of_nat mode]) xs))"
| "cap_bytes (ExtendedNextHopCap xs) = (0x05, concat (map (\<lambda>(afi, safi, t). enc16 afi @ enc16 safi @ enc16 t) xs))"
| "cap_bytes (OtherCap n) = (n, [])"

definition parameter :: "capability \<Rightarrow> buffer" where
  "parameter cap = buildBgpCapability 2 (length (snd (cap_bytes cap)) + 2) (fst (cap_bytes cap))
     (length (snd (cap_bytes cap))) (snd (cap_bytes cap))"

fun cap_ok :: "capability \<Rightarrow> bool" where
  "cap_ok (MultiprotocolCap afi safi) = (afi < 65536 \<and> safi < 256)"
| "cap_ok RouteRefreshCap = True"
| "cap_ok (FourOctetAsCap n) = (n < 2 ^ 32)"
| "cap_ok (RoleCap n) = (n < 256)"
| "cap_ok (AddPathCap xs) = (xs \<noteq> [] \<and> length xs \<le> 63 \<and> list_all (\<lambda>(afi, safi, mode). afi < 65536 \<and> safi < 256 \<and> mode < 256) xs)"
| "cap_ok (ExtendedNextHopCap xs) = (xs \<noteq> [] \<and> length xs \<le> 42 \<and> list_all (\<lambda>(afi, safi, t). afi < 65536 \<and> safi < 65536 \<and> t < 65536) xs)"
| "cap_ok (OtherCap n) = False"

lemma enc16_bytes: "enc16 n = [word_of_nat (n div 256), word_of_nat n]"
  by (simp add: enc16_def)

lemma add_paths_concat:
  "list_all (\<lambda>(afi, safi, mode). afi < 65536 \<and> safi < 256 \<and> mode < 256) xs \<Longrightarrow>
   add_paths (concat (map (\<lambda>(afi, safi, mode). enc16 afi @ [word_of_nat safi, word_of_nat mode]) xs)) = xs"
proof (induction xs)
  case (Cons x xs)
  obtain afi safi mode where x: "x = (afi, safi, mode)" by (cases x)
  have "be16 [word_of_nat (afi div 256), word_of_nat afi] 0 = afi"
    using Cons.prems x be16_enc16_Nil [of afi] by (simp add: enc16_bytes)
  then show ?case using Cons x by (simp add: enc16_bytes)
qed simp

lemma next_hops_concat:
  "list_all (\<lambda>(afi, safi, t). afi < 65536 \<and> safi < 65536 \<and> t < 65536) xs \<Longrightarrow>
   next_hops (concat (map (\<lambda>(afi, safi, t). enc16 afi @ enc16 safi @ enc16 t) xs)) = xs"
proof (induction xs)
  case (Cons x xs)
  obtain afi safi t where x: "x = (afi, safi, t)" by (cases x)
  have "be16 [word_of_nat (n div 256), word_of_nat n] 0 = n" if "n < 65536" for n
    using that be16_enc16_Nil [of n] by (simp add: enc16_bytes)
  then show ?case using Cons x by (simp add: enc16_bytes)
qed simp

lemma length_tuples:
  "length (concat (map (\<lambda>(afi, safi, mode). enc16 afi @ [word_of_nat safi, word_of_nat mode]) xs)) = 4 * length xs"
  "length (concat (map (\<lambda>(afi, safi, t). enc16 afi @ enc16 safi @ enc16 t) xs)) = 6 * length xs"
  by (induction xs) auto

lemma parse_cap_bytes:
  assumes "cap_ok cap"
  shows "parse_capability (fst (cap_bytes cap)) (snd (cap_bytes cap)) = Inr cap" "length (snd (cap_bytes cap)) \<le> 253"
    "fst (cap_bytes cap) < 256"
proof -
  show "length (snd (cap_bytes cap)) \<le> 253" "fst (cap_bytes cap) < 256"
    using assms by (cases cap; simp add: length_tuples)+
  show "parse_capability (fst (cap_bytes cap)) (snd (cap_bytes cap)) = Inr cap"
  proof (cases cap)
    case (MultiprotocolCap afi safi)
    then show ?thesis using assms by (simp add: parse_capability_def buf_simps) (simp add: enc16_bytes)
  next
    case (AddPathCap xs)
    then show ?thesis using assms by (simp add: parse_capability_def length_tuples add_paths_concat)
  next
    case (ExtendedNextHopCap xs)
    then show ?thesis using assms by (simp add: parse_capability_def length_tuples next_hops_concat)
  qed (use assms in \<open>simp_all add: parse_capability_def buf_simps\<close>)
qed

lemma parse_capabilities_one:
  assumes "cap_ok cap"
  shows "parse_capabilities ([word_of_nat (fst (cap_bytes cap)), word_of_nat (length (snd (cap_bytes cap)))] @ snd (cap_bytes cap)) = Inr [cap]"
  using parse_cap_bytes [OF assms]
  by (subst parse_capabilities.simps) (simp add: parse_capabilities.simps [of "[]"])

lemma parse_parameter_bytes:
  assumes "unat l = length q"
  shows "parse_parameters False (2 # l # q @ b) =
    bindE (parse_capabilities q) (\<lambda>cs. bindE (parse_parameters False b) (\<lambda>ds. Inr (cs @ ds)))"
  using assms by (subst parse_parameters.simps) simp

lemma parse_parameter:
  assumes "cap_ok cap"
  shows "parse_parameters False (parameter cap @ b) = bindE (parse_parameters False b) (\<lambda>cs. Inr (cap # cs))"
proof -
  let ?v = "snd (cap_bytes cap)" and ?k = "fst (cap_bytes cap)"
  define l where "l = (word_of_nat (length ?v + 2) :: byte)"
  define q where "q = [word_of_nat ?k, word_of_nat (length ?v)] @ ?v"
  have "length ?v \<le> 253" using parse_cap_bytes [OF assms] by simp
  then have l: "unat l = length q" unfolding l_def unat_of_nat_byte by (simp add: q_def)
  have "parameter cap @ b = 2 # l # q @ b"
    unfolding l_def q_def by (simp add: parameter_def buildBgpCapability_def)
  moreover have "parse_capabilities q = Inr [cap]" unfolding q_def by (rule parse_capabilities_one [OF assms])
  ultimately show ?thesis using parse_parameter_bytes [OF l, of b] by simp
qed

lemma parse_parameters_list:
  "list_all cap_ok caps \<Longrightarrow> parse_parameters False (concat (map parameter caps)) = Inr caps"
  by (induction caps) (simp_all add: parse_parameter parse_parameters.simps [of _ "[]"])

lemma family_capability:
  "fam \<in> {VPNV4, VPNV6, L2VPN_EVPN} \<Longrightarrow> vpn_capability c fam =
    (if local_family c fam then parameter (MultiprotocolCap (fst (getAfiAndSafi fam)) (snd (getAfiAndSafi fam))) else [])"
  "mp_capability c fam =
    (if local_family c fam then parameter (MultiprotocolCap (fst (getAfiAndSafi fam)) (snd (getAfiAndSafi fam))) else [])"
  by (auto simp: vpn_capability_def mp_capability_def parameter_def buildBgpCapability_def enc16_bytes split: prod.splits)

lemma concat_if: "concat (map (\<lambda>x. if P x then f x else []) xs) = concat (map f (filter P xs))"
  by (induction xs) auto

lemma params_announced:
  assumes "openCapCustom c = []"
  shows "buildOpenMessageOptionalParams c = concat (map parameter (announced c))"
proof -
  let ?par = "\<lambda>fam. parameter (MultiprotocolCap (fst (getAfiAndSafi fam)) (snd (getAfiAndSafi fam)))"
  have mp: "concat (map (vpn_capability c) [VPNV4, VPNV6, L2VPN_EVPN]) @
      concat (map (mp_capability c) [IPV4_UNC, IPV4_LABEL_UNICAST, IPV6_UNC, IPV4_MVPN, IPV6_MVPN, IPV4_QP, IPV6_QP]) =
    concat (map parameter (map (\<lambda>fam. MultiprotocolCap (fst (getAfiAndSafi fam)) (snd (getAfiAndSafi fam)))
      (filter (local_family c) [VPNV4, VPNV6, L2VPN_EVPN, IPV4_UNC, IPV4_LABEL_UNICAST, IPV6_UNC, IPV4_MVPN, IPV6_MVPN,
         IPV4_QP, IPV6_QP])))"
    by (simp add: family_capability)
  let ?A = "AddPathCap (map (\<lambda>((afi, safi), mode). (afi, safi, mode)) (localAddPathMap c))"
  let ?N = "ExtendedNextHopCap (map (\<lambda>safi. (1, safi, 2)) (ext_next_hop_safis c))"
  have ap: "snd (cap_bytes ?A) = add_path_info c" "fst (cap_bytes ?A) = 0x45"
    unfolding add_path_info_def by (simp_all add: comp_def case_prod_unfold)
  have apn: "length (add_path_info c) > 0 \<longleftrightarrow> localAddPathMap c \<noteq> []"
    by (cases "localAddPathMap c") (auto simp: add_path_info_def enc16_bytes split: prod.splits)
  have nh: "snd (cap_bytes ?N) = ext_next_hop_info c" "fst (cap_bytes ?N) = 0x05"
    unfolding ext_next_hop_info_def by (simp_all add: comp_def)
  have pars: "parameter RouteRefreshCap = buildBgpCapability 2 2 0x02 0 []"
    "parameter (FourOctetAsCap (localAs c)) = buildBgpCapability 2 6 0x41 4 (enc32 (localAs c))"
    "parameter (RoleCap (localRole c)) = buildBgpCapability 2 3 0x09 1 [word_of_nat (localRole c)]"
    "parameter ?A = buildBgpCapability 2 (length (add_path_info c) + 2) 0x45 (length (add_path_info c)) (add_path_info c)"
    "parameter ?N = buildBgpCapability 2 (length (ext_next_hop_info c) + 2) 0x05 (length (ext_next_hop_info c)) (ext_next_hop_info c)"
    unfolding parameter_def ap nh by (simp_all add: buildBgpCapability_def)
  have one: "concat (map parameter (if P then [cap] else [])) = (if P then parameter cap else [])" for P cap by simp
  have app: "concat (map parameter (if P then xs else [])) = (if P then concat (map parameter xs) else [])" for P xs by simp
  show ?thesis
    unfolding buildOpenMessageOptionalParams_def announced_def mp map_append concat_append one pars length_greater_0_conv
    unfolding app using assms apn by simp
qed


lemma families_ok:
  "list_all cap_ok (map (\<lambda>fam. MultiprotocolCap (fst (getAfiAndSafi fam)) (snd (getAfiAndSafi fam))) fams)"
proof -
  have "fst (getAfiAndSafi fam) < 65536 \<and> snd (getAfiAndSafi fam) < 256" for fam by (cases fam) simp_all
  then show ?thesis by (simp add: list_all_iff)
qed

lemma safis_ok: "list_all (\<lambda>safi. safi < 65536) (ext_next_hop_safis c)" "length (ext_next_hop_safis c) \<le> 5"
proof -
  have s: "snd (getAfiAndSafi fam) < 65536" for fam by (cases fam) simp_all
  show "list_all (\<lambda>safi. safi < 65536) (ext_next_hop_safis c)"
    unfolding ext_next_hop_safis_def list_all_iff using s by auto
  show "length (ext_next_hop_safis c) \<le> 5"
    unfolding ext_next_hop_safis_def length_map by (rule order_trans [OF length_filter_le]) simp
qed

lemma announced_ok:
  assumes c: "config_ok c"
  shows "list_all cap_ok (announced c)"
proof -
  have a: "list_all cap_ok (if P then map (\<lambda>fam. MultiprotocolCap (fst (getAfiAndSafi fam)) (snd (getAfiAndSafi fam))) fams else [])"
    for P fams using families_ok by simp
  have o: "(P \<Longrightarrow> cap_ok cap) \<Longrightarrow> list_all cap_ok (if P then [cap] else [])" for P cap by simp
  show ?thesis
    unfolding announced_def list_all_append
    by (intro conjI a o) (use c safis_ok [of c] in \<open>auto simp: config_ok_def list_all_iff\<close>)
qed

lemma params_length: "config_ok c \<Longrightarrow> length (buildOpenMessageOptionalParams c) \<le> 255"
proof -
  assume c: "config_ok c"
  have n: "length (add_path_info c) \<le> 120"
    using c by (auto simp: add_path_info_def config_ok_def length_concat sum_list_triv comp_def case_prod_unfold)
  have h: "length (ext_next_hop_info c) \<le> 30"
    using safis_ok(2) [of c] by (simp add: ext_next_hop_info_def length_concat comp_def sum_list_triv)
  have v: "length (vpn_capability c fam) \<le> 8" "length (mp_capability c fam) \<le> 8" for fam
    by (simp_all add: vpn_capability_def mp_capability_def buildBgpCapability_def split: prod.splits)
  have "length (concat (map (vpn_capability c) [VPNV4, VPNV6, L2VPN_EVPN]) @
      concat (map (mp_capability c) [IPV4_UNC, IPV4_LABEL_UNICAST, IPV6_UNC, IPV4_MVPN, IPV6_MVPN, IPV4_QP, IPV6_QP])) \<le> 80"
    using v(1) [of VPNV4] v(1) [of VPNV6] v(1) [of L2VPN_EVPN] v(2) [of IPV4_UNC] v(2) [of IPV4_LABEL_UNICAST]
      v(2) [of IPV6_UNC] v(2) [of IPV4_MVPN] v(2) [of IPV6_MVPN] v(2) [of IPV4_QP] v(2) [of IPV6_QP] by simp
  moreover have "length (if P then buildBgpCapability a1 a2 a3 a4 q else []) \<le> 4 + length q" for P a1 a2 a3 a4 q
    by (simp add: buildBgpCapability_def)
  ultimately show ?thesis
    using c n h unfolding buildOpenMessageOptionalParams_def length_append
    by (simp add: config_ok_def buildBgpCapability_def)
qed

lemma be16_Cons: "0 < i \<Longrightarrow> be16 (x # b) i = be16 b (i - 1)"
  by (cases i) (simp_all add: be16_def)

text \<open>The parser gives back what the builder was given.\<close>

lemma open_roundtrip:
  assumes c: "config_ok c" and r: "ipToBytes (routerId c) = Inr rid" "length rid = 4"
  shows "\<exists>b. buildOpenMsg ipToBytes c = Inr b \<and> 29 \<le> length b \<and> be16 b 16 = length b \<and> unat (b ! 18) = 1 \<and>
    parseBgpPacket b = ParsedOpen \<lparr>om_asn = localAs c mod 65536, om_holdTime = holdTime c, om_routerId = rid,
      om_capabilities = announced c\<rparr>"
proof -
  define opt where "opt = buildOpenMessageOptionalParams c"
  define b where "b = replicate 16 0xff @ enc16 (29 + length opt) @ [1] @ [4] @ enc16 (localAs c) @ enc16 (holdTime c) @ rid @
    enc8 (length opt) @ opt"
  have opt: "opt = concat (map parameter (announced c))" "length opt \<le> 255"
    using c params_announced params_length by (simp_all add: opt_def config_ok_def)
  have caps: "parse_parameters False opt = Inr (announced c)"
    unfolding opt(1) by (rule parse_parameters_list [OF announced_ok [OF c]])
  have build: "buildOpenMsg ipToBytes c = Inr b"
    using r opt(2) by (simp add: buildOpenMsg_def opt_def [symmetric] b_def buildBgpMessageHeader_def type_code_def enc8_def
        Let_def add.commute)
  obtain r1 r2 r3 r4 where rid: "rid = [r1, r2, r3, r4]"
    using r(2) by (auto simp: numeral_eq_Suc length_Suc_conv)
  have len: "length b = 29 + length opt" by (simp add: b_def rid)
  have first: "length opt \<noteq> 0 \<Longrightarrow> unat (opt ! 0) = 2"
    unfolding opt(1) by (cases "announced c") (auto simp: parameter_def buildBgpCapability_def)
  have b16: "be16 b 16 = length b"
    unfolding b_def using opt(2) by (simp add: buf_simps rid)
  have nth: "unat (b ! 18) = 1" "unat (b ! 19) = 4" "unat (b ! 28) = length opt" "length opt \<noteq> 0 \<Longrightarrow> b ! 29 = opt ! 0"
    using opt(2) by (simp_all add: b_def rid enc16_bytes enc8_def nth_append)
  have "be16 b 20 = localAs c mod 65536" "be16 b 22 = holdTime c" "subarray b 24 28 = rid" "drop 29 b = opt"
    using c by (simp_all add: b_def rid buf_simps be16_Cons config_ok_def enc8_def subarray_def)
  then have "parseOpenMessage b = Inr \<lparr>om_asn = localAs c mod 65536, om_holdTime = holdTime c, om_routerId = rid,
      om_capabilities = announced c\<rparr>"
    using nth first len caps by (cases "length opt = 0") (simp_all add: parseOpenMessage_def)
  moreover have "take 16 b = replicate 16 0xff" by (simp add: b_def)
  ultimately have "parseBgpPacket b = ParsedOpen \<lparr>om_asn = localAs c mod 65536, om_holdTime = holdTime c, om_routerId = rid,
      om_capabilities = announced c\<rparr>"
    using len b16 nth(1) by (simp add: parseBgpPacket_def packet_type_def MINIMUM_MESSAGE_LENGTHS_def Let_def list_all_iff)
  then show ?thesis using build len b16 nth(1) by auto
qed

end
