(* ===== verification/Bgp_Session.thy ===== *)
theory Bgp_Session
  imports Bgp_Open Stream_Framing
begin

text \<open>
  The BGP session (\<open>bgpSession.js\<close>) with the peer states it drives (\<open>changePeerState\<close> and
  \<open>resetPeer\<close> of \<open>bgpPeer.js\<close> and \<open>bgpInstance.js\<close>).

  State: \<open>bgp_session\<close>, and beside it the bytes of an incomplete packet
  (\<open>packetBuffer\<close>).  \<open>socket\<close> is null, open or destroyed by the system.  An instance
  has the key (VRF, AFI, SAFI) and a map from peer addresses to peer states.

  Every operation returns the new state, what it did (\<open>bgp_out\<close>) and the exception it ended
  with, if any; nothing catches an exception of the receive path.  The receive loop is
  a partial function: \<open>None\<close> is a loop that never ends, which a length field of zero
  causes.  Log calls are left out, and with them the re-parsing of sent packets.
\<close>

section \<open>State\<close>

datatype peer_state = IDLE | CONNECT | ACTIVE | OPEN_SENT | OPEN_CONFIRM | ESTABLISHED | NO_NEG

datatype peer_type = PEER_TYPE_INVALID | PEER_TYPE_IBGP | PEER_TYPE_EBGP

datatype bgp_socket = NoSocket | LiveSocket | DestroyedSocket

type_synonym instance_key = "nat \<times> nat \<times> nat"

record bgp_session =
  localConfig :: bgp_config
  vrfIndex :: nat
  peerIp :: string
  socket :: bgp_socket
  peerCapFlags :: flags
  peerAddrFamilyFlags :: flags
  peerRole :: nat
  peerType :: peer_type
  addressFamilyOptions :: "(nat \<times> bool) list"
  peerAddPathMap :: "((nat \<times> nat) \<times> nat) list"
  peerExtendedNextHopFamilies :: "(nat \<times> nat \<times> nat) list"
  sessState :: peer_state
  holdTimer :: bool
  instanceMap :: "(instance_key \<times> (string \<times> peer_state) list) list"

datatype bgp_out =
    BgpWrite buffer
  | PeerEvent instance_key string peer_state
  | SendRoutes instance_key string
  | SocketDestroyed

type_synonym bgp_did = "bgp_session \<times> bgp_out list \<times> js_error option"

definition then_do :: "bgp_did \<Rightarrow> (bgp_session \<Rightarrow> bgp_did) \<Rightarrow> bgp_did" where
  "then_do r f = (case r of (s, o1, Some e) \<Rightarrow> (s, o1, Some e)
     | (s, o1, None) \<Rightarrow> (case f s of (s2, o2, e2) \<Rightarrow> (s2, o1 @ o2, e2)))"

section \<open>Peer states\<close>

text \<open>\<open>BgpPeer.changePeerState\<close>: a family that was not negotiated stays so until the session
  is idle.\<close>

definition peer_changes :: "peer_state \<Rightarrow> peer_state \<Rightarrow> bool" where
  "peer_changes new old = (new = IDLE \<or> old \<noteq> NO_NEG)"

definition changePeerState :: "instance_key \<Rightarrow> peer_state \<Rightarrow> bgp_session \<Rightarrow> bgp_session \<times> bgp_out list" where
  "changePeerState k st s = (case map_of (instanceMap s) k of
      None \<Rightarrow> (s, [])
    | Some peers \<Rightarrow> (case map_of peers (peerIp s) of
          None \<Rightarrow> (s, [])
        | Some old \<Rightarrow>
            if peer_changes st old
            then (s\<lparr>instanceMap := AList.update k (AList.update (peerIp s) st peers) (instanceMap s)\<rparr>,
                  [PeerEvent k (peerIp s) st])
            else (s, [])))"

fun change_all :: "instance_key list \<Rightarrow> peer_state \<Rightarrow> bgp_session \<Rightarrow> bgp_session \<times> bgp_out list" where
  "change_all [] st s = (s, [])"
| "change_all (k # ks) st s =
     (let (s1, o1) = changePeerState k st s; (s2, o2) = change_all ks st s1 in (s2, o1 @ o2))"

definition changeSessionFsmState :: "peer_state \<Rightarrow> bgp_session \<Rightarrow> bgp_did" where
  "changeSessionFsmState st s =
     (let (s1, o1) = change_all (map fst (instanceMap s)) st s in (s1\<lparr>sessState := st\<rparr>, o1, None))"

text \<open>\<open>BgpPeer.resetPeer\<close> sets the state and reports it in any case; as \<open>IDLE\<close> is always
  accepted, that is a change to \<open>IDLE\<close>.\<close>

definition resetPeer :: "bgp_session \<Rightarrow> bgp_did" where
  "resetPeer s = (let (s1, o1) = change_all (map fst (instanceMap s)) IDLE s in (s1, o1, None))"

definition sendRoute :: "instance_key \<Rightarrow> string \<Rightarrow> peer_state \<Rightarrow> bgp_out list" where
  "sendRoute k ip st = (if st = ESTABLISHED then [SendRoutes k ip] else [])"

section \<open>Timers and messages\<close>

definition startHoldTimer :: "bgp_session \<Rightarrow> bgp_session" where
  "startHoldTimer s = s\<lparr>holdTimer := socket s = LiveSocket \<and> holdTime (localConfig s) > 0\<rparr>"

definition clearHoldTimer :: "bgp_session \<Rightarrow> bgp_session" where
  "clearHoldTimer s = s\<lparr>holdTimer := False\<rparr>"

text \<open>A call of \<open>this.socket.write\<close>: without a socket it throws, on a destroyed socket the bytes are lost.\<close>

definition socket_write :: "buffer \<Rightarrow> bgp_session \<Rightarrow> bgp_did" where
  "socket_write b s = (case socket s of
      NoSocket \<Rightarrow> (s, [], Some TypeError)
    | LiveSocket \<Rightarrow> (s, [BgpWrite b], None)
    | DestroyedSocket \<Rightarrow> (s, [], None))"

definition sendKeepAliveMsg :: "bgp_session \<Rightarrow> bgp_did" where
  "sendKeepAliveMsg s = socket_write buildKeepAliveMsg s"

definition sendNotification :: "nat \<Rightarrow> nat \<Rightarrow> bgp_session \<Rightarrow> bgp_did" where
  "sendNotification code subcode s =
     (if socket s = LiveSocket then socket_write (buildNotificationMsg code subcode) s else (s, [], None))"

definition sendOpenMsg :: "(string \<Rightarrow> js_error + buffer) \<Rightarrow> bgp_session \<Rightarrow> bgp_did" where
  "sendOpenMsg ipToBytes s = (case buildOpenMsg ipToBytes (localConfig s) of
      Inl e \<Rightarrow> (s, [], Some e)
    | Inr b \<Rightarrow> socket_write b s)"

definition destroySocket :: "bgp_session \<Rightarrow> bgp_did" where
  "destroySocket s = (s\<lparr>socket := NoSocket\<rparr>, if socket s = LiveSocket then [SocketDestroyed] else [], None)"

definition forget_peer :: "bgp_session \<Rightarrow> bgp_session" where
  "forget_peer s = s\<lparr>peerCapFlags := 0, peerAddrFamilyFlags := 0, peerAddPathMap := [],
     peerExtendedNextHopFamilies := [], peerRole := 255\<rparr>"

definition tcpConnectSuccess :: "(string \<Rightarrow> js_error + buffer) \<Rightarrow> bgp_session \<Rightarrow> bgp_did" where
  "tcpConnectSuccess ipToBytes s =
     then_do (changeSessionFsmState CONNECT (forget_peer (s\<lparr>socket := LiveSocket\<rparr>))) (\<lambda>s1.
     then_do (sendOpenMsg ipToBytes s1) (\<lambda>s2.
     then_do (changeSessionFsmState OPEN_SENT s2) (\<lambda>s3. (startHoldTimer s3, [], None))))"

definition clearSession :: "bgp_session \<Rightarrow> bgp_session" where
  "clearSession s = (forget_peer (clearHoldTimer s))\<lparr>localConfig := (localConfig s)\<lparr>openCapCustom := [],
     localCapFlags := 0, localAddrFamilyFlags := 0, localRole := 255, localAddPathMap := []\<rparr>,
     addressFamilyOptions := []\<rparr>"

definition resetSession :: "bgp_session \<Rightarrow> bgp_did" where
  "resetSession s =
     (let s1 = clearHoldTimer s in
      if socket s1 = NoSocket then (s1, [], None)
      else then_do (changeSessionFsmState IDLE s1) (\<lambda>s2.
           then_do (sendNotification 6 7 s2) destroySocket))"

definition handleHoldTimerExpired :: "bgp_session \<Rightarrow> bgp_did" where
  "handleHoldTimerExpired s =
     (let s1 = clearHoldTimer s in
      if socket s1 \<noteq> LiveSocket then (s1, [], None)
      else then_do (changeSessionFsmState IDLE s1) (\<lambda>s2.
           then_do (sendNotification 4 0 s2) destroySocket))"

text \<open>\<open>handleSocketClosed\<close>, called with the session's own socket or with another.\<close>

definition handleSocketClosed :: "bool \<Rightarrow> bgp_session \<Rightarrow> bgp_did" where
  "handleSocketClosed own s =
     (if \<not> own then (s, [], None) else changeSessionFsmState IDLE ((clearHoldTimer s)\<lparr>socket := NoSocket\<rparr>))"

section \<open>Negotiated options\<close>

definition setAddressFamilyOptions :: "nat \<Rightarrow> bool \<Rightarrow> bgp_session \<Rightarrow> bgp_session" where
  "setAddressFamilyOptions fam sendSrv6PrefixSid s =
     s\<lparr>addressFamilyOptions := AList.update fam sendSrv6PrefixSid (addressFamilyOptions s)\<rparr>"

definition getAddressFamilyOptions :: "nat \<Rightarrow> bgp_session \<Rightarrow> bool option" where
  "getAddressFamilyOptions fam s = map_of (addressFamilyOptions s) fam"

definition setLocalAddPath :: "nat \<Rightarrow> nat \<Rightarrow> nat \<Rightarrow> bgp_session \<Rightarrow> bgp_session" where
  "setLocalAddPath afi safi mode s = s\<lparr>localConfig := (localConfig s)\<lparr>localAddPathMap :=
     AList.update (afi, safi) mode (localAddPathMap (localConfig s))\<rparr>\<rparr>"

definition setPeerAddPath :: "nat \<Rightarrow> nat \<Rightarrow> nat \<Rightarrow> bgp_session \<Rightarrow> bgp_session" where
  "setPeerAddPath afi safi mode s = s\<lparr>peerAddPathMap := AList.update (afi, safi) mode (peerAddPathMap s)\<rparr>"

definition isExtendedNextHopEnabled :: "nat \<Rightarrow> nat \<Rightarrow> nat \<Rightarrow> bgp_session \<Rightarrow> bool" where
  "isExtendedNextHopEnabled afi safi nextHopAfi s =
     (BIT_TEST (localCapFlags (localConfig s)) EXTENDED_NEXT_HOP_ENCODING \<and>
      (afi, safi, nextHopAfi) \<in> set (peerExtendedNextHopFamilies s))"

definition canSendAddPath :: "nat option \<Rightarrow> bool" where
  "canSendAddPath mode = (mode = Some 2 \<or> mode = Some 3)"

definition canReceiveAddPath :: "nat option \<Rightarrow> bool" where
  "canReceiveAddPath mode = (mode = Some 1 \<or> mode = Some 3)"

definition isAddPathSendEnabled :: "nat \<Rightarrow> nat \<Rightarrow> bgp_session \<Rightarrow> bool" where
  "isAddPathSendEnabled afi safi s =
     (canSendAddPath (map_of (localAddPathMap (localConfig s)) (afi, safi)) \<and>
      canReceiveAddPath (map_of (peerAddPathMap s) (afi, safi)))"

definition isAddPathReceiveEnabled :: "nat \<Rightarrow> nat \<Rightarrow> bgp_session \<Rightarrow> bool" where
  "isAddPathReceiveEnabled afi safi s =
     (canSendAddPath (map_of (peerAddPathMap s) (afi, safi)) \<and>
      canReceiveAddPath (map_of (localAddPathMap (localConfig s)) (afi, safi)))"

section \<open>Received packets\<close>

fun apply_capability :: "capability \<Rightarrow> bgp_session \<Rightarrow> bgp_session" where
  "apply_capability (MultiprotocolCap afi safi) s =
     s\<lparr>peerCapFlags := BIT_SET (peerCapFlags s) MULTIPROTOCOL_EXTENSIONS,
       peerAddrFamilyFlags := BIT_SET (peerAddrFamilyFlags s)
         (case getAddrFamilyType afi safi of None \<Rightarrow> 0 | Some fam \<Rightarrow> getAddressFamilyFlag fam)\<rparr>"
| "apply_capability RouteRefreshCap s = s\<lparr>peerCapFlags := BIT_SET (peerCapFlags s) ROUTE_REFRESH_CAP\<rparr>"
| "apply_capability (FourOctetAsCap n) s = s\<lparr>peerCapFlags := BIT_SET (peerCapFlags s) FOUR_OCTET_AS\<rparr>"
| "apply_capability (RoleCap r) s = s\<lparr>peerCapFlags := BIT_SET (peerCapFlags s) BGP_ROLE, peerRole := r\<rparr>"
| "apply_capability (ExtendedNextHopCap ts) s =
     s\<lparr>peerCapFlags := BIT_SET (peerCapFlags s) EXTENDED_NEXT_HOP_ENCODING,
       peerExtendedNextHopFamilies := fold List.insert ts (peerExtendedNextHopFamilies s)\<rparr>"
| "apply_capability (AddPathCap ps) s =
     s\<lparr>peerCapFlags := BIT_SET (peerCapFlags s) ADD_PATH,
       peerAddPathMap := fold (\<lambda>(afi, safi, mode). AList.update (afi, safi) mode) ps (peerAddPathMap s)\<rparr>"
| "apply_capability (OtherCap n) s = s"

definition checked_families :: "nat \<Rightarrow> (nat \<times> addr_family) list" where
  "checked_families vrf =
     map (\<lambda>f. (0, f)) [IPV4_UNC, IPV6_UNC, IPV4_MVPN, IPV4_LABEL_UNICAST, IPV6_MVPN, IPV4_QP, IPV6_QP] @
     map (\<lambda>f. (vrf, f)) [VPNV4, VPNV6, L2VPN_EVPN]"

fun mark_not_negotiated :: "(nat \<times> addr_family) list \<Rightarrow> bgp_session \<Rightarrow> bgp_session \<times> bgp_out list" where
  "mark_not_negotiated [] s = (s, [])"
| "mark_not_negotiated ((vrf, fam) # fs) s =
     (let (s1, o1) = (if BIT_TEST (peerAddrFamilyFlags s) (getAddressFamilyFlag fam) then (s, [])
                      else changePeerState (vrf, fst (getAfiAndSafi fam), snd (getAfiAndSafi fam)) NO_NEG s);
          (s2, o2) = mark_not_negotiated fs s1
      in (s2, o1 @ o2))"

definition peer_type_of :: "open_message \<Rightarrow> bgp_session \<Rightarrow> peer_type" where
  "peer_type_of m s = (if localAs (localConfig s) = om_asn m then PEER_TYPE_IBGP else PEER_TYPE_EBGP)"

definition handle_open :: "parsed \<Rightarrow> bgp_session \<Rightarrow> bgp_did" where
  "handle_open p s = (case p of
      ParsedOpen m \<Rightarrow>
        let s1 = fold apply_capability (om_capabilities m) s;
            (s2, o2) = mark_not_negotiated (checked_families (vrfIndex s1)) s1
        in then_do (s2, o2, None) (\<lambda>s3.
           then_do (sendKeepAliveMsg s3) (\<lambda>s4.
           then_do (changeSessionFsmState OPEN_CONFIRM s4) (\<lambda>s5. (s5\<lparr>peerType := peer_type_of m s5\<rparr>, [], None))))
    | _ \<Rightarrow> (s, [], Some TypeError))"

text \<open>\<open>same\<close> compares two peer addresses by their session keys.\<close>

definition established_routes :: "(string \<Rightarrow> string \<Rightarrow> bool) \<Rightarrow> bgp_session \<Rightarrow> bgp_out list" where
  "established_routes same s =
     concat (map (\<lambda>(k, peers). concat (map (\<lambda>(ip, st). if same ip (peerIp s) then sendRoute k ip st else []) peers))
       (instanceMap s))"

definition handle_keepalive :: "(string \<Rightarrow> string \<Rightarrow> bool) \<Rightarrow> bgp_session \<Rightarrow> bgp_did" where
  "handle_keepalive same s =
     then_do (sendKeepAliveMsg s) (\<lambda>s1.
       if sessState s1 = OPEN_CONFIRM
       then then_do (changeSessionFsmState ESTABLISHED s1) (\<lambda>s2. (s2, established_routes same s2, None))
       else (s1, [], None))"

definition handle_notification :: "bgp_session \<Rightarrow> bgp_did" where
  "handle_notification s = then_do (resetPeer (clearHoldTimer s)) destroySocket"

definition handle_route_refresh :: "parsed \<Rightarrow> bgp_session \<Rightarrow> bgp_did" where
  "handle_route_refresh p s = (case p of
      ParsedRouteRefresh afi _ safi \<Rightarrow>
        (s, (case map_of (instanceMap s) (0, afi, safi) of
               None \<Rightarrow> []
             | Some peers \<Rightarrow> (case map_of peers (peerIp s) of
                   None \<Rightarrow> []
                 | Some st \<Rightarrow> sendRoute (0, afi, safi) (peerIp s) st)), None)
    | _ \<Rightarrow> (s, [], None))"

text \<open>One complete packet: the branch is chosen by the type byte, whether the packet parses
  or not.\<close>

definition handle_packet :: "(string \<Rightarrow> string \<Rightarrow> bool) \<Rightarrow> nat \<Rightarrow> buffer \<Rightarrow> bgp_session \<Rightarrow> bgp_did" where
  "handle_packet same t packet s =
     (let p = parseBgpPacket packet; s1 = startHoldTimer s in
      case packet_type t of
        Some OPEN \<Rightarrow> handle_open p s1
      | Some KEEPALIVE \<Rightarrow> handle_keepalive same s1
      | Some NOTIFICATION \<Rightarrow> handle_notification s1
      | Some ROUTE_REFRESH \<Rightarrow> handle_route_refresh p s1
      | _ \<Rightarrow> (s1, [], None))"

partial_function (option) bgp_loop ::
  "(string \<Rightarrow> string \<Rightarrow> bool) \<Rightarrow> buffer \<Rightarrow> bgp_session \<Rightarrow> (buffer \<times> bgp_did) option" where
  "bgp_loop same b s =
     (if length b < 19 then Some (b, s, [], None)
      else if length b < be16 b 16 then Some (b, s, [], None)
      else (case handle_packet same (unat (b ! 18)) (take (be16 b 16) b) s of
              (s1, o1, Some e) \<Rightarrow> Some (b, s1, o1, Some e)
            | (s1, o1, None) \<Rightarrow>
                Option.bind (bgp_loop same (drop (be16 b 16) b) s1)
                  (\<lambda>(b2, s2, o2, e2). Some (b2, s2, o1 @ o2, e2))))"

definition handleBgpPacket :: "(string \<Rightarrow> string \<Rightarrow> bool) \<Rightarrow> buffer \<Rightarrow> buffer \<Rightarrow> bgp_session \<Rightarrow> (buffer \<times> bgp_did) option" where
  "handleBgpPacket same packetBuffer data s = bgp_loop same (packetBuffer @ data) s"

declare bgp_loop.simps [code]

section \<open>The connection over time\<close>

text \<open>The session with its buffer, and the events of a connection.  Every connection starts with
  an empty buffer.  \<open>Broken\<close>: the system destroys the socket.  \<open>Reconfigured\<close>: the worker changes or deletes the
  peer, where it calls \<open>clearSession\<close> and \<open>resetSession\<close> one after the other.\<close>

datatype bgp_event = Connected | Broken | Received buffer | HoldExpired | SocketClosed bool | Reset | Reconfigured

definition run_bgp_event :: "(string \<Rightarrow> js_error + buffer) \<Rightarrow> (string \<Rightarrow> string \<Rightarrow> bool) \<Rightarrow> bgp_event \<Rightarrow> buffer \<Rightarrow> bgp_session
    \<Rightarrow> (buffer \<times> bgp_did) option" where
  "run_bgp_event ipToBytes same ev b s = (case ev of
      Connected \<Rightarrow> Some ([], tcpConnectSuccess ipToBytes s)
    | Received d \<Rightarrow> handleBgpPacket same b d s
    | Broken \<Rightarrow> Some (b, s\<lparr>socket := if socket s = NoSocket then NoSocket else DestroyedSocket\<rparr>, [], None)
    | HoldExpired \<Rightarrow> Some (if holdTimer s then (if socket s = LiveSocket then [] else b, handleHoldTimerExpired s)
        else (b, s, [], None))
    | SocketClosed current \<Rightarrow> (let own = (current \<and> socket s \<noteq> NoSocket) in
        Some (if own then [] else b, handleSocketClosed own s))
    | Reset \<Rightarrow> Some (b, resetSession s)
    | Reconfigured \<Rightarrow> Some ([], resetSession (clearSession s)))"

section \<open>Framing\<close>

text \<open>One round of the loop.  The type byte is read at offset 18 of the buffer, which for a length below
  19 lies behind the packet.  A packet of length zero is never taken off the buffer; the
  step reports it as a failure.\<close>

definition bgp_frame :: "unit \<Rightarrow> buffer \<Rightarrow> (unit, nat \<times> buffer, unit) verdict" where
  "bgp_frame u b =
     (if length b < 19 then More
      else if length b < be16 b 16 then More
      else if be16 b 16 = 0 then Fail ()
      else Advance (Some (unat (b ! 18), take (be16 b 16) b)) () (drop (be16 b 16) b))"

interpretation bgp: deframer bgp_frame "\<lambda>_. True"
  by unfold_locales
     (auto simp: bgp_frame_def be16_append1 nth_append split: if_splits)

section \<open>The receive loop\<close>

text \<open>Handling a list of complete messages, with their type bytes, until one throws.\<close>

fun handle_packets :: "(string \<Rightarrow> string \<Rightarrow> bool) \<Rightarrow> (nat \<times> buffer) list \<Rightarrow> bgp_session \<Rightarrow> bgp_did" where
  "handle_packets same [] s = (s, [], None)"
| "handle_packets same ((t, p) # ms) s = then_do (handle_packet same t p s) (handle_packets same ms)"

text \<open>A stream that arrives in pieces, one \<open>data\<close> event for each; an exception ends the worker.\<close>

fun receive_all :: "(string \<Rightarrow> string \<Rightarrow> bool) \<Rightarrow> buffer \<Rightarrow> buffer list \<Rightarrow> bgp_session \<Rightarrow> (buffer \<times> bgp_did) option" where
  "receive_all same b [] s = Some (b, s, [], None)"
| "receive_all same b (c # cs) s =
     Option.bind (handleBgpPacket same b c s) (\<lambda>(b1, s1, o1, e).
       case e of Some x \<Rightarrow> Some (b1, s1, o1, Some x)
       | None \<Rightarrow> map_option (\<lambda>(b2, s2, o2, e2). (b2, s2, o1 @ o2, e2)) (receive_all same b1 cs s1))"

lemma then_do_simps [simp]:
  "then_do (s, o1, None) f = (fst (f s), o1 @ fst (snd (f s)), snd (snd (f s)))"
  "then_do (s, o1, Some e) f = (s, o1, Some e)"
  by (simp_all add: then_do_def split: prod.splits)

lemma handle_packets_append:
  "handle_packets same (ms @ ns) s = then_do (handle_packets same ms s) (handle_packets same ns)"
proof (induction ms arbitrary: s)
  case (Cons m ms)
  obtain t p where m: "m = (t, p)" by (cases m)
  obtain s1 o1 e where h: "handle_packet same t p s = (s1, o1, e)" by (cases "handle_packet same t p s")
  obtain s2 o2 e2 where h2: "handle_packets same ms s1 = (s2, o2, e2)" by (cases "handle_packets same ms s1")
  show ?case using Cons.IH [of s1] m h h2 by (cases e; cases e2) simp_all
qed simp

lemma bgp_loop_More: "bgp_frame () b = More \<Longrightarrow> bgp_loop same b s = Some (b, s, [], None)"
  by (subst bgp_loop.simps) (simp add: bgp_frame_def split: if_splits)

lemma bgp_loop_Advance:
  assumes "bgp_frame () b = Advance mo u r"
  shows "\<exists>t p. mo = Some (t, p) \<and> bgp_loop same b s = (case handle_packet same t p s of
      (s1, o1, Some e) \<Rightarrow> Some (b, s1, o1, Some e)
    | (s1, o1, None) \<Rightarrow> Option.bind (bgp_loop same r s1) (\<lambda>(b2, s2, o2, e2). Some (b2, s2, o1 @ o2, e2)))"
  using assms by (subst bgp_loop.simps) (auto simp: bgp_frame_def split: if_splits)

lemma bgp_loop_frames:
  assumes "drive bgp_frame None () b [] = Some (u, rest, ms, None)"
  shows "\<exists>b'. bgp_loop same b s = Some (b', handle_packets same ms s) \<and>
    (snd (snd (handle_packets same ms s)) = None \<longrightarrow> b' = rest)"
  using assms
proof (induction "length b" arbitrary: b s ms rule: less_induct)
  case less
  show ?case
  proof (cases "bgp_frame () b")
    case More
    then show ?thesis using less.prems by (simp add: drive_More bgp_loop_More)
  next
    case (Fail e)
    then show ?thesis using less.prems by (simp add: drive_Fail)
  next
    case (Advance mo v r)
    obtain t p where mo: "mo = Some (t, p)" and
      l: "bgp_loop same b s = (case handle_packet same t p s of
          (s1, o1, Some e) \<Rightarrow> Some (b, s1, o1, Some e)
        | (s1, o1, None) \<Rightarrow> Option.bind (bgp_loop same r s1) (\<lambda>(b2, s2, o2, e2). Some (b2, s2, o1 @ o2, e2)))"
      using bgp_loop_Advance [OF Advance] by blast
    obtain ns where ns: "drive bgp_frame None () r [] = Some (u, rest, ns, None)" "ms = (t, p) # ns"
      using less.prems Advance mo bgp.drive_acc [of "()" r "[(t, p)]"] by (auto simp: drive_Advance)
    obtain s1 o1 e where h: "handle_packet same t p s = (s1, o1, e)" by (cases "handle_packet same t p s")
    show ?thesis
    proof (cases e)
      case None
      obtain b' where "bgp_loop same r s1 = Some (b', handle_packets same ns s1)"
        "snd (snd (handle_packets same ns s1)) = None \<longrightarrow> b' = rest"
        using less.hyps [OF bgp.advance_shrinks [OF TrueI Advance] ns(1)] by blast
      then show ?thesis using None h l ns(2) by (simp add: case_prod_unfold)
    next
      case (Some x)
      then show ?thesis using h l ns(2) by simp
    qed
  qed
qed

lemma receive_all_frames:
  assumes "bgp_frame () b = More" "drive bgp_frame None () (b @ concat cs) [] = Some (u, rest, ms, None)"
  shows "\<exists>b'. receive_all same b cs s = Some (b', handle_packets same ms s) \<and>
    (snd (snd (handle_packets same ms s)) = None \<longrightarrow> b' = rest)"
  using assms
proof (induction cs arbitrary: b s ms)
  case Nil
  then show ?case by (simp add: drive_More)
next
  case (Cons c cs)
  obtain v b1 ms1 e where d: "drive bgp_frame None () (b @ c) [] = Some (v, b1, ms1, e)"
    using bgp.drive_returns [where s = "()" and lim = None and b = "b @ c" and acc = "[]"] by blast
  have a: "drive bgp_frame None () (b @ c @ concat cs) [] = (case e of Some x \<Rightarrow> Some (v, b1 @ concat cs, ms1, Some x)
      | None \<Rightarrow> drive bgp_frame None () (b1 @ concat cs) ms1)"
    using bgp.drive_append [of "()" "b @ c" "concat cs" "[]"] d by (simp split: option.splits)
  with Cons.prems(2) have e: "e = None" by (cases e) simp_all
  obtain ms2 where ms2: "drive bgp_frame None () (b1 @ concat cs) [] = Some (u, rest, ms2, None)" "ms = ms1 @ ms2"
    using a e Cons.prems(2) bgp.drive_acc [of "()" "b1 @ concat cs" ms1] by auto
  have q: "bgp_frame () b1 = More" using bgp.drive_quiescent [of "()"] d e by simp
  obtain b' where l: "bgp_loop same (b @ c) s = Some (b', handle_packets same ms1 s)"
    "snd (snd (handle_packets same ms1 s)) = None \<longrightarrow> b' = b1"
    using bgp_loop_frames [OF d [unfolded e]] by blast
  obtain s1 o1 e1 where h: "handle_packets same ms1 s = (s1, o1, e1)" by (cases "handle_packets same ms1 s")
  show ?case
  proof (cases e1)
    case None
    obtain b2 where "receive_all same b1 cs s1 = Some (b2, handle_packets same ms2 s1)"
      "snd (snd (handle_packets same ms2 s1)) = None \<longrightarrow> b2 = rest"
      using Cons.IH [OF q ms2(1)] by blast
    then show ?thesis using None h l ms2(2) by (simp add: handleBgpPacket_def handle_packets_append case_prod_unfold)
  next
    case (Some x)
    then show ?thesis using h l ms2(2) by (simp add: handleBgpPacket_def handle_packets_append)
  qed
qed

lemma handle_packet_empty:
  "handle_packet same t [] s = (case packet_type t of
      Some OPEN \<Rightarrow> (startHoldTimer s, [], Some TypeError)
    | Some KEEPALIVE \<Rightarrow> handle_keepalive same (startHoldTimer s)
    | Some NOTIFICATION \<Rightarrow> handle_notification (startHoldTimer s)
    | _ \<Rightarrow> (startHoldTimer s, [], None))"
  by (simp add: handle_packet_def parseBgpPacket_def handle_open_def handle_route_refresh_def split: option.splits bgp_type.splits)

lemma change_all_socket: "socket (fst (change_all ks st s)) = socket s"
  by (induction ks arbitrary: s)
    (auto simp: Let_def changePeerState_def case_prod_unfold split: option.splits)

lemma keepalive_socket:
  "socket s \<noteq> NoSocket \<Longrightarrow> socket (fst (handle_keepalive same s)) = socket s \<and> snd (snd (handle_keepalive same s)) = None"
  "socket s = NoSocket \<Longrightarrow> snd (snd (handle_keepalive same s)) = Some TypeError"
  by (cases "socket s"; simp add: handle_keepalive_def sendKeepAliveMsg_def socket_write_def changeSessionFsmState_def
      case_prod_unfold Let_def change_all_socket)+

definition spins :: "buffer \<Rightarrow> bgp_session \<Rightarrow> bool" where
  "spins b s = (19 \<le> length b \<and> be16 b 16 = 0 \<and> unat (b ! 18) \<noteq> 1 \<and> (unat (b ! 18) = 4 \<longrightarrow> socket s \<noteq> NoSocket))"

lemma spins_step:
  assumes "spins b s"
  shows "\<exists>s1 o1. handle_packet same (unat (b ! 18)) [] s = (s1, o1, None) \<and> spins b s1"
proof (cases "unat (b ! 18) = 4")
  case True
  then have "socket (startHoldTimer s) \<noteq> NoSocket" using assms by (simp add: spins_def startHoldTimer_def)
  from keepalive_socket(1) [OF this, of same] show ?thesis
    using True assms by (cases "handle_keepalive same (startHoldTimer s)")
      (simp add: handle_packet_empty packet_type_def spins_def startHoldTimer_def)
next
  case False
  have "\<exists>s1 o1. handle_packet same (unat (b ! 18)) [] s = (s1, o1, None)"
    using False assms
    by (auto simp: handle_packet_empty packet_type_def spins_def handle_notification_def resetPeer_def destroySocket_def
        case_prod_unfold Let_def)
  then show ?thesis using False assms by (auto simp: spins_def)
qed

lemma spins_forever:
  assumes "spins b s"
  shows "bgp_loop same b s = None"
proof (rule ccontr)
  assume "bgp_loop same b s \<noteq> None"
  then obtain r where r: "bgp_loop same b s = Some r" by blast
  have "\<not> spins b s"
  proof (rule bgp_loop.raw_induct [where P = "\<lambda>same b s r. \<not> spins b s", OF _ r])
    fix f same b s r
    assume IH: "\<And>same b s r. f same b s = Some r \<Longrightarrow> \<not> spins b s"
      and eq: "(if length b < 19 then Some (b, s, [], None)
       else if length b < be16 b 16 then Some (b, s, [], None)
       else (case handle_packet same (unat (b ! 18)) (take (be16 b 16) b) s of
              (s1, o1, Some e) \<Rightarrow> Some (b, s1, o1, Some e)
            | (s1, o1, None) \<Rightarrow>
                Option.bind (f same (drop (be16 b 16) b) s1)
                  (\<lambda>(b2, s2, o2, e2). Some (b2, s2, o1 @ o2, e2)))) = Some r"
    show "\<not> spins b s"
    proof
      assume sp: "spins b s"
      obtain s1 o1 where h: "handle_packet same (unat (b ! 18)) [] s = (s1, o1, None)" "spins b s1"
        using spins_step [OF sp] by blast
      with eq sp have "\<exists>q. f same b s1 = Some q" by (auto simp: spins_def Option.bind_eq_Some_conv)
      with IH h(2) show False by blast
    qed
  qed
  with assms show False by simp
qed

text \<open>C39. A header with the length field 0 freezes the worker.  When such a header is at the front of the buffer, the
  receive loop never ends, except for the type OPEN, and for a KEEPALIVE on a session that has lost its socket: these
  two throw a TypeError.  The bytes can come from any peer at any time and in any pieces.\<close>

theorem bgp_zero_length_hangs:
  assumes "19 \<le> length (packetBuffer @ data)" "be16 (packetBuffer @ data) 16 = 0"
  shows "handleBgpPacket same packetBuffer data s =
    (let t = unat ((packetBuffer @ data) ! 18) in
     if t = 1 \<or> t = 4 \<and> socket s = NoSocket then Some (packetBuffer @ data, startHoldTimer s, [], Some TypeError) else None)"
proof -
  define b where "b = packetBuffer @ data"
  have "bgp_loop same b s = (if unat (b ! 18) = 1 \<or> unat (b ! 18) = 4 \<and> socket s = NoSocket
      then Some (b, startHoldTimer s, [], Some TypeError) else None)"
  proof (cases "spins b s")
    case True
    then show ?thesis using spins_forever [OF True, of same] by (auto simp: spins_def)
  next
    case False
    have "handle_packet same (unat (b ! 18)) [] s = (startHoldTimer s, [], Some TypeError)"
      using False assms
      by (auto simp: spins_def b_def handle_packet_empty packet_type_def handle_keepalive_def sendKeepAliveMsg_def
          socket_write_def startHoldTimer_def)
    then show ?thesis using False assms by (subst bgp_loop.simps) (auto simp: spins_def b_def)
  qed
  then show ?thesis by (simp add: handleBgpPacket_def b_def Let_def)
qed

section \<open>Peer states\<close>

definition peer_state_of :: "instance_key \<Rightarrow> bgp_session \<Rightarrow> peer_state option" where
  "peer_state_of k s = Option.bind (map_of (instanceMap s) k) (\<lambda>peers. map_of peers (peerIp s))"

text \<open>The state a peer has after a change was offered to it.\<close>

definition offered :: "peer_state \<Rightarrow> peer_state \<Rightarrow> peer_state" where
  "offered new old = (if peer_changes new old then new else old)"

text \<open>What a session never changes: the configured peers, the states of the peers of other sessions, and
  its own address.\<close>

definition others :: "bgp_session \<Rightarrow> instance_key \<Rightarrow> string \<Rightarrow> peer_state option" where
  "others s k ip = (if ip = peerIp s then None else Option.bind (map_of (instanceMap s) k) (\<lambda>peers. map_of peers ip))"

definition configured :: "bgp_session \<Rightarrow> (instance_key \<times> string list) list" where
  "configured s = map (\<lambda>(k, peers). (k, map fst peers)) (instanceMap s)"

definition frame :: "bgp_session \<Rightarrow> (instance_key \<times> string list) list \<times> (instance_key \<Rightarrow> string \<Rightarrow> peer_state option) \<times> nat \<times> string" where
  "frame s = (configured s, others s, vrfIndex s, peerIp s)"

lemma update_known_keys:
  "map_of xs k = Some v \<Longrightarrow> g w = g v \<Longrightarrow> map (\<lambda>(k, v). (k, g v)) (AList.update k w xs) = map (\<lambda>(k, v). (k, g v)) xs"
  by (induction xs) auto

lemma update_known_fst: "map_of xs k = Some v \<Longrightarrow> map fst (AList.update k w xs) = map fst xs"
  by (induction xs) auto

text \<open>The sessions that differ in the peer states only.\<close>

lemma changePeerState_eq:
  "fst (changePeerState k st s) = s\<lparr>instanceMap := instanceMap (fst (changePeerState k st s))\<rparr>"
  by (simp add: changePeerState_def split: option.splits)

lemma changePeerState_state:
  "peer_state_of k' (fst (changePeerState k st s)) =
     (if k' = k then map_option (offered st) (peer_state_of k s) else peer_state_of k' s)"
  by (auto simp: changePeerState_def peer_state_of_def offered_def update_conv split: option.splits)

lemma changePeerState_frame: "frame (fst (changePeerState k st s)) = frame s"
proof (cases "Option.bind (map_of (instanceMap s) k) (\<lambda>peers. map_of peers (peerIp s))")
  case None
  then show ?thesis by (auto simp: changePeerState_def bind_eq_None_conv split: option.splits)
next
  case (Some old)
  then obtain peers where p: "map_of (instanceMap s) k = Some peers" "map_of peers (peerIp s) = Some old"
    by (auto simp: bind_eq_Some_conv)
  let ?s = "s\<lparr>instanceMap := AList.update k (AList.update (peerIp s) st peers) (instanceMap s)\<rparr>"
  have "configured ?s = configured s"
    unfolding configured_def using update_known_keys [OF p(1), of "map fst"] update_known_fst [OF p(2)] by simp
  moreover have "others ?s = others s"
    using p(1) by (auto simp: others_def update_conv fun_eq_iff)
  ultimately have "frame ?s = frame s" by (simp add: frame_def)
  then show ?thesis using p by (simp add: changePeerState_def)
qed

text \<open>An update of any other field.\<close>

lemma peer_state_of_cong: "instanceMap s' = instanceMap s \<Longrightarrow> peerIp s' = peerIp s \<Longrightarrow> peer_state_of k s' = peer_state_of k s"
  by (simp add: peer_state_of_def)

lemma frame_cong:
  "instanceMap s' = instanceMap s \<Longrightarrow> peerIp s' = peerIp s \<Longrightarrow> vrfIndex s' = vrfIndex s \<Longrightarrow> frame s' = frame s"
  by (simp add: frame_def configured_def others_def fun_eq_iff)

lemma offered_twice: "offered st (offered st old) = offered st old"
  by (simp add: offered_def peer_changes_def)

lemma change_all_eq:
  "fst (change_all ks st s) = s\<lparr>instanceMap := instanceMap (fst (change_all ks st s))\<rparr>"
proof (induction ks arbitrary: s)
  case (Cons k ks)
  show ?case
    by (simp add: Let_def case_prod_unfold)
      (metis (no_types, lifting) Cons changePeerState_eq bgp_session.update_convs(14) bgp_session.surjective)
qed simp

lemma change_all_frame: "frame (fst (change_all ks st s)) = frame s"
  by (induction ks arbitrary: s) (simp_all add: Let_def case_prod_unfold changePeerState_frame)

lemma change_all_state:
  "peer_state_of k (fst (change_all ks st s)) =
     (if k \<in> set ks then map_option (offered st) (peer_state_of k s) else peer_state_of k s)"
  by (induction ks arbitrary: s)
    (simp_all add: Let_def case_prod_unfold changePeerState_state option.map_comp comp_def offered_twice)

lemma peer_state_of_known: "k \<notin> set (map fst (instanceMap s)) \<Longrightarrow> peer_state_of k s = None"
  by (simp add: peer_state_of_def map_of_eq_None_iff [symmetric] del: map_of_eq_None_iff)

section \<open>Invariants\<close>

definition family_key :: "nat \<times> addr_family \<Rightarrow> instance_key" where
  "family_key vf = (fst vf, fst (getAfiAndSafi (snd vf)), snd (getAfiAndSafi (snd vf)))"

definition hold_ok :: "bgp_session \<Rightarrow> bool" where
  "hold_ok s = (holdTimer s \<longrightarrow> socket s \<noteq> NoSocket \<and> holdTime (localConfig s) > 0)"

definition live_state :: "peer_state \<Rightarrow> bool" where
  "live_state st = (st \<noteq> ACTIVE \<and> st \<noteq> NO_NEG)"

definition peers_ok :: "bgp_session \<Rightarrow> bool" where
  "peers_ok s = (\<forall>k st. peer_state_of k s = Some st \<longrightarrow>
     st = NO_NEG \<or> st = (if socket s = NoSocket then IDLE else sessState s))"

definition covered :: "bgp_session \<Rightarrow> bool" where
  "covered s = (\<forall>vf\<in>set (checked_families (vrfIndex s)). \<forall>st. peer_state_of (family_key vf) s = Some st \<longrightarrow> st \<noteq> NO_NEG \<longrightarrow>
     BIT_TEST (peerAddrFamilyFlags s) (getAddressFamilyFlag (snd vf)))"

definition session_ok :: "bgp_session \<Rightarrow> bool" where
  "session_ok s = (hold_ok s \<and> live_state (sessState s) \<and> peers_ok s \<and>
     (socket s \<noteq> NoSocket \<longrightarrow> sessState s \<in> {OPEN_CONFIRM, ESTABLISHED} \<longrightarrow> covered s))"

lemma fsm_session:
  "fst (changeSessionFsmState st s) = s\<lparr>instanceMap := instanceMap (fst (changeSessionFsmState st s)), sessState := st\<rparr>"
  "snd (snd (changeSessionFsmState st s)) = None"
proof -
  let ?t = "fst (change_all (map fst (instanceMap s)) st s)"
  have t: "?t = s\<lparr>instanceMap := instanceMap ?t\<rparr>" by (rule change_all_eq)
  have "?t\<lparr>sessState := st\<rparr> = s\<lparr>instanceMap := instanceMap ?t, sessState := st\<rparr>"
    by (subst t) simp
  then show "fst (changeSessionFsmState st s) = s\<lparr>instanceMap := instanceMap (fst (changeSessionFsmState st s)), sessState := st\<rparr>"
    by (simp add: changeSessionFsmState_def Let_def case_prod_unfold)
  show "snd (snd (changeSessionFsmState st s)) = None"
    by (simp add: changeSessionFsmState_def Let_def case_prod_unfold)
qed

lemma reset_all_state:
  "peer_state_of k (fst (change_all (map fst (instanceMap s)) st s)) = map_option (offered st) (peer_state_of k s)"
  using peer_state_of_known [of k s] by (auto simp: change_all_state)

lemma fsm_state: "peer_state_of k (fst (changeSessionFsmState st s)) = map_option (offered st) (peer_state_of k s)"
proof -
  have "peer_state_of k (fst (changeSessionFsmState st s)) = peer_state_of k (fst (change_all (map fst (instanceMap s)) st s))"
    by (rule peer_state_of_cong) (simp_all add: changeSessionFsmState_def Let_def case_prod_unfold)
  then show ?thesis by (simp add: reset_all_state)
qed

lemma fsm_frame: "frame (fst (changeSessionFsmState st s)) = frame s"
proof -
  have "frame (fst (changeSessionFsmState st s)) = frame (fst (change_all (map fst (instanceMap s)) st s))"
    by (rule frame_cong) (simp_all add: changeSessionFsmState_def Let_def case_prod_unfold)
  then show ?thesis by (simp add: change_all_frame)
qed

text \<open>The fields that a change of state keeps.\<close>

lemma fsm_fields [simp]:
  "socket (fst (changeSessionFsmState st s)) = socket s" "sessState (fst (changeSessionFsmState st s)) = st"
  "holdTimer (fst (changeSessionFsmState st s)) = holdTimer s" "localConfig (fst (changeSessionFsmState st s)) = localConfig s"
  "peerAddrFamilyFlags (fst (changeSessionFsmState st s)) = peerAddrFamilyFlags s"
  "peerCapFlags (fst (changeSessionFsmState st s)) = peerCapFlags s"
  "peerAddPathMap (fst (changeSessionFsmState st s)) = peerAddPathMap s"
  "peerExtendedNextHopFamilies (fst (changeSessionFsmState st s)) = peerExtendedNextHopFamilies s"
  "peerRole (fst (changeSessionFsmState st s)) = peerRole s"
  "vrfIndex (fst (changeSessionFsmState st s)) = vrfIndex s" "peerIp (fst (changeSessionFsmState st s)) = peerIp s"
  by (subst fsm_session(1), simp)+

lemma offered_cases: "offered st old = st \<or> (offered st old = NO_NEG \<and> old = NO_NEG \<and> st \<noteq> IDLE)"
  by (auto simp: offered_def peer_changes_def)

lemma fsm_ok:
  assumes "hold_ok s" "live_state st" "socket s = NoSocket \<longrightarrow> st = IDLE" "st \<in> {OPEN_CONFIRM, ESTABLISHED} \<longrightarrow> covered s"
  shows "session_ok (fst (changeSessionFsmState st s))"
proof -
  let ?t = "fst (changeSessionFsmState st s)"
  have "peers_ok ?t"
    unfolding peers_ok_def using assms(3) offered_cases by (auto simp: fsm_state)
  moreover have "covered ?t" if c: "covered s" "st \<noteq> IDLE"
    unfolding covered_def
  proof (intro ballI allI impI)
    fix vf st' assume vf: "vf \<in> set (checked_families (vrfIndex ?t))" and p: "peer_state_of (family_key vf) ?t = Some st'" "st' \<noteq> NO_NEG"
    then obtain old where "peer_state_of (family_key vf) s = Some old" "st' = offered st old" by (auto simp: fsm_state)
    moreover from this p(2) c(2) have "old \<noteq> NO_NEG" by (auto simp: offered_def peer_changes_def)
    ultimately show "BIT_TEST (peerAddrFamilyFlags ?t) (getAddressFamilyFlag (snd vf))"
      using c(1) vf by (simp add: covered_def)
  qed
  ultimately show ?thesis using assms by (auto simp: session_ok_def hold_ok_def)
qed


lemma session_ok_cong:
  assumes "session_ok s" "instanceMap s' = instanceMap s" "peerIp s' = peerIp s" "vrfIndex s' = vrfIndex s" "socket s' = socket s"
    "sessState s' = sessState s" "hold_ok s'" "\<And>g. BIT_TEST (peerAddrFamilyFlags s) g \<Longrightarrow> BIT_TEST (peerAddrFamilyFlags s') g"
  shows "session_ok s'"
proof -
  have p: "peer_state_of k s' = peer_state_of k s" for k using peer_state_of_cong assms(2,3) by blast
  have "peers_ok s' = peers_ok s" unfolding peers_ok_def p assms(5,6) ..
  moreover have "covered s'" if "covered s" using that assms(4,8) unfolding covered_def p by simp
  ultimately show ?thesis using assms(1,5,6,7) by (auto simp: session_ok_def)
qed

lemma destroySocket_ok:
  assumes "\<not> holdTimer s" "live_state (sessState s)" "\<And>k st. peer_state_of k s = Some st \<Longrightarrow> st = IDLE \<or> st = NO_NEG"
  shows "session_ok (fst (destroySocket s))"
proof -
  have p: "peer_state_of k (fst (destroySocket s)) = peer_state_of k s" for k
    by (rule peer_state_of_cong) (simp_all add: destroySocket_def)
  have n: "socket (fst (destroySocket s)) = NoSocket" by (simp add: destroySocket_def)
  have "peers_ok (fst (destroySocket s))" unfolding peers_ok_def p using assms(3) n by metis
  then show ?thesis using assms(1,2) by (simp add: session_ok_def hold_ok_def destroySocket_def)
qed

lemma destroySocket_frame: "frame (fst (destroySocket s)) = frame s"
  by (rule frame_cong) (simp_all add: destroySocket_def)

lemma socket_write_session [simp]: "fst (socket_write b s) = s"
  by (simp add: socket_write_def split: bgp_socket.splits)

lemma sends_session [simp]:
  "fst (sendNotification c d s) = s" "fst (sendKeepAliveMsg s) = s" "fst (sendOpenMsg ipToBytes s) = s"
  "snd (snd (sendNotification c d s)) = None"
  by (simp_all add: sendNotification_def sendKeepAliveMsg_def sendOpenMsg_def socket_write_def split: sum.splits bgp_socket.splits)

text \<open>A sequence of operations keeps what each of them keeps.\<close>

lemma then_do_keeps:
  assumes "P (fst r)" "\<And>s. P s \<Longrightarrow> s = fst r \<Longrightarrow> snd (snd r) = None \<Longrightarrow> P (fst (f s))"
  shows "P (fst (then_do r f))"
proof -
  obtain s o1 e where r: "r = (s, o1, e)" by (cases r)
  then show ?thesis using assms by (cases e) simp_all
qed

lemma then_do_last:
  assumes "snd (snd r) = None"
  shows "fst (then_do r f) = fst (f (fst r))" "snd (snd (then_do r f)) = snd (snd (f (fst r)))"
    "fst (snd (then_do r f)) = fst (snd r) @ fst (snd (f (fst r)))"
proof -
  obtain s o1 e where r: "r = (s, o1, e)" by (cases r)
  then show "fst (then_do r f) = fst (f (fst r))" "snd (snd (then_do r f)) = snd (snd (f (fst r)))"
    "fst (snd (then_do r f)) = fst (snd r) @ fst (snd (f (fst r)))"
    using assms by simp_all
qed

text \<open>Going idle and closing.\<close>

lemma close_ok:
  assumes "\<not> holdTimer s"
  shows "session_ok (fst (then_do (changeSessionFsmState IDLE s) (\<lambda>s2. then_do (sendNotification c d s2) destroySocket)))"
    "frame (fst (then_do (changeSessionFsmState IDLE s) (\<lambda>s2. then_do (sendNotification c d s2) destroySocket))) = frame s"
proof -
  let ?t = "fst (changeSessionFsmState IDLE s)"
  have "peer_state_of k ?t = Some st \<Longrightarrow> st = IDLE \<or> st = NO_NEG" for k st
    using offered_cases [of IDLE] by (auto simp: fsm_state)
  then have "session_ok (fst (destroySocket ?t))"
    using assms by (intro destroySocket_ok) (auto simp: live_state_def)
  then show "session_ok (fst (then_do (changeSessionFsmState IDLE s) (\<lambda>s2. then_do (sendNotification c d s2) destroySocket)))"
    "frame (fst (then_do (changeSessionFsmState IDLE s) (\<lambda>s2. then_do (sendNotification c d s2) destroySocket))) = frame s"
    by (simp_all add: then_do_last fsm_session(2) destroySocket_frame fsm_frame)
qed

definition kept :: "bgp_session \<Rightarrow> bgp_session \<Rightarrow> bool" where
  "kept s t = (session_ok t \<and> frame t = frame s)"

lemma kept_trans: "kept s t \<Longrightarrow> kept t u \<Longrightarrow> kept s u"
  by (simp add: kept_def)

lemma reset_kept:
  assumes "session_ok s"
  shows "kept s (fst (resetSession s))" "kept s (fst (handleHoldTimerExpired s))"
proof -
  have f: "frame (clearHoldTimer s) = frame s" by (rule frame_cong) (simp_all add: clearHoldTimer_def)
  have c: "session_ok (clearHoldTimer s)"
    by (rule session_ok_cong [OF assms]) (simp_all add: clearHoldTimer_def hold_ok_def)
  have t: "\<not> holdTimer (clearHoldTimer s)" by (simp add: clearHoldTimer_def)
  show "kept s (fst (resetSession s))"
    using close_ok [OF t] c f by (simp add: resetSession_def kept_def Let_def)
  show "kept s (fst (handleHoldTimerExpired s))"
    using close_ok [OF t] c f by (simp add: handleHoldTimerExpired_def kept_def Let_def)
qed

lemma reconfigured_kept:
  assumes "session_ok s"
  shows "kept s (fst (resetSession (clearSession s)))"
proof -
  let ?s = "clearHoldTimer (clearSession s)"
  have f: "frame ?s = frame s"
    by (rule frame_cong) (simp_all add: clearHoldTimer_def clearSession_def forget_peer_def)
  have t: "\<not> holdTimer ?s" by (simp add: clearHoldTimer_def)
  show ?thesis
  proof (cases "socket s = NoSocket")
    case True
    have p: "peer_state_of k ?s = peer_state_of k s" for k
      by (rule peer_state_of_cong) (simp_all add: clearHoldTimer_def clearSession_def forget_peer_def)
    have fields: "socket ?s = NoSocket" "sessState ?s = sessState s"
      using True by (simp_all add: clearHoldTimer_def clearSession_def forget_peer_def)
    have "peers_ok ?s"
      using assms True fields unfolding session_ok_def peers_ok_def p by simp
    then have "session_ok ?s"
      using assms t fields by (simp add: session_ok_def hold_ok_def)
    then show ?thesis using f fields by (simp add: resetSession_def kept_def Let_def)
  next
    case False
    then have "socket ?s \<noteq> NoSocket" by (simp add: clearHoldTimer_def clearSession_def forget_peer_def)
    then show ?thesis using close_ok [OF t] f by (simp add: resetSession_def kept_def Let_def)
  qed
qed

lemma closed_kept:
  assumes "session_ok s"
  shows "kept s (fst (handleSocketClosed own s))"
proof -
  let ?s = "(clearHoldTimer s)\<lparr>socket := NoSocket\<rparr>"
  have "frame ?s = frame s" by (rule frame_cong) (simp_all add: clearHoldTimer_def)
  moreover have "session_ok (fst (changeSessionFsmState IDLE ?s))"
    by (rule fsm_ok) (simp_all add: hold_ok_def clearHoldTimer_def live_state_def)
  ultimately show ?thesis using assms by (simp add: handleSocketClosed_def kept_def fsm_frame)
qed

lemma broken_kept:
  assumes "session_ok s"
  shows "kept s (s\<lparr>socket := if socket s = NoSocket then NoSocket else DestroyedSocket\<rparr>)"
proof -
  let ?s = "s\<lparr>socket := if socket s = NoSocket then NoSocket else DestroyedSocket\<rparr>"
  have p: "peer_state_of k ?s = peer_state_of k s" for k by (rule peer_state_of_cong) simp_all
  have "frame ?s = frame s" by (rule frame_cong) simp_all
  moreover have "peers_ok ?s = peers_ok s" "covered ?s = covered s" "hold_ok ?s = hold_ok s"
    unfolding peers_ok_def covered_def hold_ok_def p by simp_all
  ultimately show ?thesis using assms by (auto simp: kept_def session_ok_def)
qed

lemma hold_timer_kept:
  assumes "session_ok s"
  shows "kept s (startHoldTimer s)"
proof -
  have "frame (startHoldTimer s) = frame s" by (rule frame_cong) (simp_all add: startHoldTimer_def)
  moreover have "session_ok (startHoldTimer s)"
    by (rule session_ok_cong [OF assms]) (simp_all add: startHoldTimer_def hold_ok_def)
  ultimately show ?thesis by (simp add: kept_def)
qed

lemma connected_kept:
  assumes "session_ok s"
  shows "kept s (fst (tcpConnectSuccess ipToBytes s))"
proof -
  let ?s = "forget_peer (s\<lparr>socket := LiveSocket\<rparr>)"
  let ?t = "fst (changeSessionFsmState CONNECT ?s)"
  have live: "socket ?s = LiveSocket" by (simp add: forget_peer_def)
  have h: "hold_ok ?s" using assms by (simp add: forget_peer_def hold_ok_def session_ok_def)
  have f: "frame ?s = frame s" by (rule frame_cong) (simp_all add: forget_peer_def)
  have t: "kept s ?t"
    using fsm_ok [OF h, of CONNECT] live f by (simp add: kept_def fsm_frame live_state_def)
  have u: "kept s (fst (changeSessionFsmState OPEN_SENT ?t))"
    using fsm_ok [of ?t OPEN_SENT] h live f by (simp add: kept_def fsm_frame live_state_def hold_ok_def)
  have "kept s (fst (then_do (changeSessionFsmState OPEN_SENT ?t) (\<lambda>s3. (startHoldTimer s3, [], None))))"
    using kept_trans [OF u hold_timer_kept] u by (simp add: then_do_last fsm_session(2) kept_def)
  then have "kept s (fst (then_do (sendOpenMsg ipToBytes ?t) (\<lambda>s2. then_do (changeSessionFsmState OPEN_SENT s2)
      (\<lambda>s3. (startHoldTimer s3, [], None)))))"
    using t by - (rule then_do_keeps [where P = "kept s"], simp_all only: sends_session)
  then show ?thesis by (simp add: tcpConnectSuccess_def then_do_last fsm_session(2))
qed

lemma BIT_SET_mono: "BIT_TEST f g \<Longrightarrow> BIT_TEST (BIT_SET f h) g"
proof -
  assume "BIT_TEST f g"
  then have "f AND g \<noteq> 0" by (simp add: BIT_TEST_def)
  then obtain n where "bit (f AND g) n" by (auto simp: bit_eq_iff)
  then have "bit ((f OR h) AND g) n" by (simp add: bit_simps)
  then show ?thesis by (auto simp: BIT_TEST_def BIT_SET_def)
qed

lemma peer_add_paths:
  "fold (\<lambda>(afi, safi, mode). setPeerAddPath afi safi mode) ps s =
     s\<lparr>peerAddPathMap := fold (\<lambda>(afi, safi, mode). AList.update (afi, safi) mode) ps (peerAddPathMap s)\<rparr>"
  by (induction ps arbitrary: s) (auto simp: setPeerAddPath_def)

lemma apply_capability_fields:
  "instanceMap (apply_capability cap s) = instanceMap s" "peerIp (apply_capability cap s) = peerIp s"
  "vrfIndex (apply_capability cap s) = vrfIndex s" "socket (apply_capability cap s) = socket s"
  "sessState (apply_capability cap s) = sessState s" "holdTimer (apply_capability cap s) = holdTimer s"
  "localConfig (apply_capability cap s) = localConfig s"
  "BIT_TEST (peerAddrFamilyFlags s) g \<Longrightarrow> BIT_TEST (peerAddrFamilyFlags (apply_capability cap s)) g"
  by (cases cap; simp add: peer_add_paths BIT_SET_mono)+

lemma apply_all_fields:
  "instanceMap (fold apply_capability caps s) = instanceMap s" "peerIp (fold apply_capability caps s) = peerIp s"
  "vrfIndex (fold apply_capability caps s) = vrfIndex s" "socket (fold apply_capability caps s) = socket s"
  "sessState (fold apply_capability caps s) = sessState s" "holdTimer (fold apply_capability caps s) = holdTimer s"
  "localConfig (fold apply_capability caps s) = localConfig s"
  "BIT_TEST (peerAddrFamilyFlags s) g \<Longrightarrow> BIT_TEST (peerAddrFamilyFlags (fold apply_capability caps s)) g"
  by (induction caps arbitrary: s) (simp_all add: apply_capability_fields)

lemma mark_session:
  "fst (mark_not_negotiated vfs s) = s\<lparr>instanceMap := instanceMap (fst (mark_not_negotiated vfs s))\<rparr>"
proof (induction vfs arbitrary: s)
  case (Cons vf vfs)
  obtain vrf fam where vf: "vf = (vrf, fam)" by (cases vf)
  let ?k = "(vrf, fst (getAfiAndSafi fam), snd (getAfiAndSafi fam))"
  define t where "t = (if BIT_TEST (peerAddrFamilyFlags s) (getAddressFamilyFlag fam) then s else fst (changePeerState ?k NO_NEG s))"
  have t: "t = s\<lparr>instanceMap := instanceMap t\<rparr>" unfolding t_def using changePeerState_eq [of ?k NO_NEG s] by simp
  have m: "fst (mark_not_negotiated (vf # vfs) s) = fst (mark_not_negotiated vfs t)"
    by (simp add: vf t_def Let_def case_prod_unfold)
  have "fst (mark_not_negotiated vfs t) = (s\<lparr>instanceMap := instanceMap t\<rparr>)\<lparr>instanceMap := instanceMap (fst (mark_not_negotiated vfs t))\<rparr>"
    using Cons.IH [of t] t by metis
  then show ?case unfolding m by simp
qed simp

lemma mark_fields [simp]:
  "socket (fst (mark_not_negotiated vfs s)) = socket s" "sessState (fst (mark_not_negotiated vfs s)) = sessState s"
  "holdTimer (fst (mark_not_negotiated vfs s)) = holdTimer s" "localConfig (fst (mark_not_negotiated vfs s)) = localConfig s"
  "peerAddrFamilyFlags (fst (mark_not_negotiated vfs s)) = peerAddrFamilyFlags s"
  "peerCapFlags (fst (mark_not_negotiated vfs s)) = peerCapFlags s"
  "peerAddPathMap (fst (mark_not_negotiated vfs s)) = peerAddPathMap s"
  "peerExtendedNextHopFamilies (fst (mark_not_negotiated vfs s)) = peerExtendedNextHopFamilies s"
  "peerRole (fst (mark_not_negotiated vfs s)) = peerRole s"
  "vrfIndex (fst (mark_not_negotiated vfs s)) = vrfIndex s" "peerIp (fst (mark_not_negotiated vfs s)) = peerIp s"
  by (subst mark_session, simp)+

lemma mark_frame: "frame (fst (mark_not_negotiated vfs s)) = frame s"
proof (induction vfs arbitrary: s)
  case (Cons vf vfs)
  then show ?case by (cases vf) (simp add: Let_def case_prod_unfold changePeerState_frame)
qed simp

text \<open>A family that was not announced is marked; the others are left alone.\<close>

lemma mark_state:
  "peer_state_of k (fst (mark_not_negotiated vfs s)) =
     (if \<exists>vf\<in>set vfs. family_key vf = k \<and> \<not> BIT_TEST (peerAddrFamilyFlags s) (getAddressFamilyFlag (snd vf))
      then map_option (\<lambda>_. NO_NEG) (peer_state_of k s) else peer_state_of k s)"
proof (induction vfs arbitrary: s)
  case (Cons vf vfs)
  obtain vrf fam where vf: "vf = (vrf, fam)" by (cases vf)
  define t where "t = (if BIT_TEST (peerAddrFamilyFlags s) (getAddressFamilyFlag fam) then s else fst (changePeerState (family_key vf) NO_NEG s))"
  have m: "fst (mark_not_negotiated (vf # vfs) s) = fst (mark_not_negotiated vfs t)"
    by (simp add: vf t_def Let_def case_prod_unfold family_key_def)
  have fl: "peerAddrFamilyFlags t = peerAddrFamilyFlags s"
    unfolding t_def by (subst changePeerState_eq) simp
  have o: "offered NO_NEG = (\<lambda>_. NO_NEG)" by (auto simp: offered_def peer_changes_def)
  have st: "peer_state_of k t = (if k = family_key vf \<and> \<not> BIT_TEST (peerAddrFamilyFlags s) (getAddressFamilyFlag fam)
      then map_option (\<lambda>_. NO_NEG) (peer_state_of k s) else peer_state_of k s)"
    unfolding t_def by (simp add: changePeerState_state o)
  show ?case
    unfolding m Cons.IH fl st using vf by (auto simp: option.map_comp comp_def)
qed simp

lemma open_kept:
  assumes "session_ok s"
  shows "kept s (fst (handle_open p s))"
proof (cases p)
  case (ParsedOpen m)
  define s1 where "s1 = fold apply_capability (om_capabilities m) s"
  define s2 where "s2 = fst (mark_not_negotiated (checked_families (vrfIndex s1)) s1)"
  have f1: "frame s1 = frame s" unfolding s1_def by (rule frame_cong) (simp_all add: apply_all_fields)
  have ok1: "session_ok s1"
    unfolding s1_def
    by (rule session_ok_cong [OF assms])
      (use assms in \<open>simp_all add: apply_all_fields session_ok_def hold_ok_def\<close>)
  have covered: "covered s2"
    unfolding covered_def s2_def mark_fields mark_state by (auto split: if_splits)
  have "peers_ok s2"
    unfolding peers_ok_def
  proof (intro allI impI)
    fix k st assume p: "peer_state_of k s2 = Some st"
    then have "st = NO_NEG \<or> peer_state_of k s1 = Some st" by (auto simp: s2_def mark_state split: if_splits)
    moreover have "socket s2 = socket s1" "sessState s2 = sessState s1" by (simp_all add: s2_def)
    moreover have "peers_ok s1" using ok1 by (simp add: session_ok_def)
    ultimately show "st = NO_NEG \<or> st = (if socket s2 = NoSocket then IDLE else sessState s2)"
      unfolding peers_ok_def by metis
  qed
  moreover have fields: "socket s2 = socket s1" "sessState s2 = sessState s1" "holdTimer s2 = holdTimer s1"
    "localConfig s2 = localConfig s1" "frame s2 = frame s1"
    unfolding s2_def by (simp_all only: mark_fields mark_frame)
  ultimately have k2: "kept s s2"
    using ok1 f1 covered fields unfolding kept_def session_ok_def hold_ok_def by simp
  have k3: "kept s (fst (changeSessionFsmState OPEN_CONFIRM s2))" if "socket s2 \<noteq> NoSocket"
  proof -
    have "hold_ok s2" using k2 by (simp add: kept_def session_ok_def)
    then have "session_ok (fst (changeSessionFsmState OPEN_CONFIRM s2))"
      using that covered by (intro fsm_ok) (simp_all add: live_state_def)
    then show ?thesis using k2 by (simp add: kept_def fsm_frame)
  qed
  have k4: "kept s (t\<lparr>peerType := x\<rparr>)" if "kept s t" for t x
  proof -
    have "session_ok (t\<lparr>peerType := x\<rparr>)"
      by (rule session_ok_cong [of t]) (use that in \<open>simp_all add: kept_def session_ok_def hold_ok_def\<close>)
    moreover have "frame (t\<lparr>peerType := x\<rparr>) = frame t" by (rule frame_cong) simp_all
    ultimately show ?thesis using that by (simp add: kept_def)
  qed
  have "kept s (fst (then_do (changeSessionFsmState OPEN_CONFIRM s2) (\<lambda>s5. (s5\<lparr>peerType := peer_type_of m s5\<rparr>, [], None))))"
    if "socket s2 \<noteq> NoSocket"
    using k4 [OF k3 [OF that]] by (simp add: then_do_last fsm_session(2))
  then have "kept s (fst (then_do (sendKeepAliveMsg s2) (\<lambda>s4. then_do (changeSessionFsmState OPEN_CONFIRM s4)
      (\<lambda>s5. (s5\<lparr>peerType := peer_type_of m s5\<rparr>, [], None)))))"
    using k2 by (cases "socket s2") (simp_all add: sendKeepAliveMsg_def socket_write_def)
  moreover have "handle_open p s = then_do (s2, snd (mark_not_negotiated (checked_families (vrfIndex s1)) s1), None)
      (\<lambda>s3. then_do (sendKeepAliveMsg s3) (\<lambda>s4. then_do (changeSessionFsmState OPEN_CONFIRM s4)
        (\<lambda>s5. (s5\<lparr>peerType := peer_type_of m s5\<rparr>, [], None))))"
    unfolding handle_open_def ParsedOpen s1_def s2_def Let_def case_prod_unfold by simp
  ultimately show ?thesis by simp
qed (use assms in \<open>simp_all add: handle_open_def kept_def\<close>)

lemma keepalive_kept:
  assumes "session_ok s"
  shows "kept s (fst (handle_keepalive same s))"
proof -
  have "kept s (fst (changeSessionFsmState ESTABLISHED s))" if "socket s \<noteq> NoSocket" "sessState s = OPEN_CONFIRM"
  proof -
    have "hold_ok s" "covered s" using assms that by (simp_all add: session_ok_def)
    then have "session_ok (fst (changeSessionFsmState ESTABLISHED s))"
      using that by (intro fsm_ok) (simp_all add: live_state_def)
    then show ?thesis by (simp add: kept_def fsm_frame)
  qed
  then show ?thesis using assms
    by (cases "socket s") (simp_all add: handle_keepalive_def sendKeepAliveMsg_def socket_write_def kept_def then_do_last fsm_session(2))
qed

lemma notification_kept:
  assumes "session_ok s"
  shows "kept s (fst (handle_notification s))"
proof -
  let ?s = "clearHoldTimer s"
  let ?t = "fst (change_all (map fst (instanceMap ?s)) IDLE ?s)"
  have e: "?t = ?s\<lparr>instanceMap := instanceMap ?t\<rparr>" by (rule change_all_eq)
  have "frame ?s = frame s" by (rule frame_cong) (simp_all add: clearHoldTimer_def)
  moreover have "session_ok (fst (destroySocket ?t))"
  proof (rule destroySocket_ok)
    show "\<not> holdTimer ?t" by (subst e) (simp add: clearHoldTimer_def)
    show "live_state (sessState ?t)" using assms by (subst e) (simp add: clearHoldTimer_def session_ok_def)
    show "st = IDLE \<or> st = NO_NEG" if "peer_state_of k ?t = Some st" for k st
      using that offered_cases [of IDLE] by (auto simp: reset_all_state)
  qed
  ultimately show ?thesis
    by (simp add: handle_notification_def resetPeer_def Let_def case_prod_unfold kept_def destroySocket_frame change_all_frame)
qed

lemma packet_kept:
  assumes "session_ok s"
  shows "kept s (fst (handle_packet same t packet s))"
proof -
  have k: "kept s (startHoldTimer s)" by (rule hold_timer_kept [OF assms])
  then have ok: "session_ok (startHoldTimer s)" by (simp add: kept_def)
  have "kept (startHoldTimer s) (fst (handle_packet same t packet s))"
    using open_kept [OF ok] keepalive_kept [OF ok] notification_kept [OF ok] ok
    by (simp add: handle_packet_def Let_def handle_route_refresh_def kept_def split: option.splits bgp_type.splits parsed.splits)
  then show ?thesis by (rule kept_trans [OF k])
qed

lemma loop_kept:
  assumes ret: "bgp_loop same b s = Some r"
  shows "session_ok s \<longrightarrow> kept s (fst (snd r))"
proof (rule bgp_loop.raw_induct [where P = "\<lambda>same b s r. session_ok s \<longrightarrow> kept s (fst (snd r))", OF _ ret])
  fix f same b s r
  assume IH: "\<And>same b s r. f same b s = Some r \<Longrightarrow> session_ok s \<longrightarrow> kept s (fst (snd r))"
    and eq: "(if length b < 19 then Some (b, s, [], None)
     else if length b < be16 b 16 then Some (b, s, [], None)
     else (case handle_packet same (unat (b ! 18)) (take (be16 b 16) b) s of
            (s1, o1, Some e) \<Rightarrow> Some (b, s1, o1, Some e)
          | (s1, o1, None) \<Rightarrow>
              Option.bind (f same (drop (be16 b 16) b) s1)
                (\<lambda>(b2, s2, o2, e2). Some (b2, s2, o1 @ o2, e2)))) = Some r"
  show "session_ok s \<longrightarrow> kept s (fst (snd r))"
  proof
    assume ok: "session_ok s"
    obtain s1 o1 e where h: "handle_packet same (unat (b ! 18)) (take (be16 b 16) b) s = (s1, o1, e)"
      by (cases "handle_packet same (unat (b ! 18)) (take (be16 b 16) b) s")
    have k: "kept s s1" using packet_kept [OF ok, of same "unat (b ! 18)" "take (be16 b 16) b"] h by simp
    then have ok1: "session_ok s1" by (simp add: kept_def)
    have "kept s s" using ok by (simp add: kept_def)
    then show "kept s (fst (snd r))"
      using eq h k kept_trans [OF k] IH ok1
      by (cases e) (auto simp: bind_eq_Some_conv split: if_splits)
  qed
qed

section \<open>Reachable sessions\<close>

text \<open>The constructor, with the local fields that the worker sets right after it.\<close>

definition new_BgpSession :: "bgp_config \<Rightarrow> nat \<Rightarrow> string \<Rightarrow> (instance_key \<times> (string \<times> peer_state) list) list \<Rightarrow> bgp_session" where
  "new_BgpSession c vrf ip im =
     \<lparr>localConfig = c, vrfIndex = vrf, peerIp = ip, socket = NoSocket, peerCapFlags = 0, peerAddrFamilyFlags = 0,
      peerRole = 255, peerType = PEER_TYPE_INVALID, addressFamilyOptions = [], peerAddPathMap = [],
      peerExtendedNextHopFamilies = [], sessState = IDLE, holdTimer = False, instanceMap = im\<rparr>"

text \<open>The worker creates a session with the peers of its address idle.\<close>

definition all_idle :: "string \<Rightarrow> (instance_key \<times> (string \<times> peer_state) list) list \<Rightarrow> bool" where
  "all_idle ip im = list_all (\<lambda>(k, peers). list_all (\<lambda>(a, st). a = ip \<longrightarrow> st = IDLE) peers) im"

inductive bgp_reach :: "(string \<Rightarrow> js_error + buffer) \<Rightarrow> (string \<Rightarrow> string \<Rightarrow> bool) \<Rightarrow> bgp_session \<Rightarrow> buffer \<Rightarrow> bgp_session \<Rightarrow> bool"
  for ipToBytes same s0 where
  start: "bgp_reach ipToBytes same s0 [] s0"
| event: "bgp_reach ipToBytes same s0 b s \<Longrightarrow> run_bgp_event ipToBytes same ev b s = Some (b', s', outs, e) \<Longrightarrow>
    bgp_reach ipToBytes same s0 b' s'"

lemma event_kept:
  assumes "session_ok s" "run_bgp_event ipToBytes same ev b s = Some (b', s', outs, e)"
  shows "kept s s'"
proof (cases ev)
  case (Received d)
  then show ?thesis
    using assms loop_kept [of same "b @ d" s "(b', s', outs, e)"] by (simp add: run_bgp_event_def handleBgpPacket_def)
next
  case Connected
  then show ?thesis using assms connected_kept [of s ipToBytes] by (simp add: run_bgp_event_def)
next
  case Broken
  then show ?thesis using assms(2) broken_kept [OF assms(1)] by (auto simp: run_bgp_event_def)
next
  case HoldExpired
  then show ?thesis using assms reset_kept(2) [of s] by (auto simp: run_bgp_event_def kept_def split: if_splits)
next
  case (SocketClosed own)
  then show ?thesis using assms(2) closed_kept [OF assms(1), of "own \<and> socket s \<noteq> NoSocket"]
    by (simp add: run_bgp_event_def Let_def)
next
  case Reset
  then show ?thesis using assms reset_kept(1) [of s] by (simp add: run_bgp_event_def)
next
  case Reconfigured
  then show ?thesis using assms reconfigured_kept [of s] by (simp add: run_bgp_event_def)
qed

lemma new_session_ok:
  assumes "all_idle ip im"
  shows "session_ok (new_BgpSession c vrf ip im)"
proof -
  let ?s = "new_BgpSession c vrf ip im"
  have "st = IDLE" if p: "peer_state_of k ?s = Some st" for k st
  proof -
    obtain peers where "map_of im k = Some peers" "map_of peers ip = Some st"
      using p by (auto simp: peer_state_of_def new_BgpSession_def bind_eq_Some_conv)
    then have "(k, peers) \<in> set im" "(ip, st) \<in> set peers" by (simp_all add: map_of_SomeD)
    then show ?thesis using assms unfolding all_idle_def list_all_iff by fastforce
  qed
  then have "peers_ok ?s" unfolding peers_ok_def by (simp add: new_BgpSession_def)
  then show ?thesis by (simp add: session_ok_def hold_ok_def live_state_def new_BgpSession_def)
qed

lemma reach_kept:
  assumes "bgp_reach ipToBytes same s0 b s" "session_ok s0"
  shows "kept s0 s"
  using assms
proof (induction rule: bgp_reach.induct)
  case start
  then show ?case by (simp add: kept_def)
next
  case (event b s ev b' s' outs e)
  then have k: "kept s0 s" by simp
  then have "session_ok s" by (simp add: kept_def)
  from event_kept [OF this event.hyps(2)] show ?case by (rule kept_trans [OF k])
qed

text \<open>C37. The shape of a session's state.  Whatever arrives and whatever happens to the connection, a session keeps the
  configured peers and the states of the peers of other sessions as they are, its own state is one of the five of its
  state machine, the hold timer only runs with a socket and a positive hold time, and every one of its
  peers is either marked as not negotiated or in the session's state, or idle when there is no socket.\<close>

theorem bgp_session_typed:
  assumes "all_idle ip im" "bgp_reach ipToBytes same (new_BgpSession c vrf ip im) b s"
  shows "configured s = map (\<lambda>(k, peers). (k, map fst peers)) im \<and> peerIp s = ip \<and> vrfIndex s = vrf \<and>
    (\<forall>k a. a \<noteq> ip \<longrightarrow> Option.bind (map_of (instanceMap s) k) (\<lambda>peers. map_of peers a) =
       Option.bind (map_of im k) (\<lambda>peers. map_of peers a)) \<and>
    sessState s \<in> {IDLE, CONNECT, OPEN_SENT, OPEN_CONFIRM, ESTABLISHED} \<and>
    (holdTimer s \<longrightarrow> socket s \<noteq> NoSocket \<and> holdTime (localConfig s) > 0) \<and>
    (\<forall>k st. peer_state_of k s = Some st \<longrightarrow> st = NO_NEG \<or> st = (if socket s = NoSocket then IDLE else sessState s))"
proof -
  have k: "kept (new_BgpSession c vrf ip im) s" by (rule reach_kept [OF assms(2) new_session_ok [OF assms(1)]])
  then have f: "frame s = frame (new_BgpSession c vrf ip im)" and ok: "session_ok s" by (simp_all add: kept_def)
  have o: "others s k a = others (new_BgpSession c vrf ip im) k a" for k a using f by (simp add: frame_def)
  have sh: "configured s = map (\<lambda>(k, peers). (k, map fst peers)) im" "peerIp s = ip" "vrfIndex s = vrf"
    using f by (simp_all add: frame_def configured_def new_BgpSession_def)
  moreover have "Option.bind (map_of (instanceMap s) k) (\<lambda>peers. map_of peers a) =
       Option.bind (map_of im k) (\<lambda>peers. map_of peers a)" if "a \<noteq> ip" for k a
    using o [of k a] that sh(2) by (simp add: others_def new_BgpSession_def)
  moreover have "sessState s \<in> {IDLE, CONNECT, OPEN_SENT, OPEN_CONFIRM, ESTABLISHED}"
    using ok by (cases "sessState s") (simp_all add: session_ok_def live_state_def)
  ultimately show ?thesis using ok unfolding session_ok_def hold_ok_def peers_ok_def by blast
qed

text \<open>A session with two peers: its own in two instances, and one of another session.\<close>

definition demo_ipToBytes :: "string \<Rightarrow> js_error + buffer" where
  "demo_ipToBytes s = Inr [10, 0, 0, 7]"

definition demo_bgp_config :: bgp_config where
  "demo_bgp_config = \<lparr>localAs = 700, holdTime = 180, routerId = ''10.0.0.7'', localCapFlags = 0x27, localAddrFamilyFlags = 3,
     localRole = 3, localAddPathMap = [((7, 7), 3)], openCapCustom = []\<rparr>"

definition demo_instances :: "(instance_key \<times> (string \<times> peer_state) list) list" where
  "demo_instances = [((0, getAfiAndSafi IPV4_UNC), [(''10.0.0.2'', IDLE), (''10.0.0.3'', ESTABLISHED)]),
     ((0, getAfiAndSafi IPV4_MVPN), [(''10.0.0.2'', IDLE)])]"

definition demo_bgp :: bgp_session where
  "demo_bgp = new_BgpSession demo_bgp_config 0 ''10.0.0.2'' demo_instances"

lemma demo_idle: "all_idle ''10.0.0.2'' demo_instances"
  by (simp add: all_idle_def demo_instances_def)

lemma demo_connects:
  "bgp_reach demo_ipToBytes (=) demo_bgp [] (fst (tcpConnectSuccess demo_ipToBytes demo_bgp))"
  using bgp_reach.event [OF bgp_reach.start, of demo_ipToBytes "(=)" Connected demo_bgp]
  by (cases "tcpConnectSuccess demo_ipToBytes demo_bgp") (simp add: run_bgp_event_def)

theorem bgp_session_typed_witness:
  "configured (fst (tcpConnectSuccess demo_ipToBytes demo_bgp)) =
     [((0, getAfiAndSafi IPV4_UNC), [''10.0.0.2'', ''10.0.0.3'']), ((0, getAfiAndSafi IPV4_MVPN), [''10.0.0.2''])] \<and>
   Option.bind (map_of (instanceMap (fst (tcpConnectSuccess demo_ipToBytes demo_bgp))) (0, getAfiAndSafi IPV4_UNC))
     (\<lambda>peers. map_of peers ''10.0.0.3'') = Some ESTABLISHED"
  using bgp_session_typed [OF demo_idle demo_connects [unfolded demo_bgp_def], folded demo_bgp_def]
  by (simp add: demo_instances_def)

theorem bgp_zero_length_hangs_witness:
  "handleBgpPacket (=) (replicate 16 0xff @ [0]) [0, 2] demo_bgp = None"
  using bgp_zero_length_hangs [of "replicate 16 0xff @ [0]" "[0, 2]" "(=)" demo_bgp]
  by (simp add: be16_def nth_append)

end
