(* ===== verification/Bgp_Negotiation.thy ===== *)
theory Bgp_Negotiation
  imports Bgp_Session
begin

text \<open>
  What two BGP sessions agree on.  A session that receives the OPEN message of a configuration knows the families, the
  role and the options the configuration announces; the sessions of both sides agree on the use of path identifiers; and
  OPEN and KEEPALIVE together lead from a new connection to an established session whose peers are exactly the ones with
  an announced family.
\<close>

section \<open>What the receiver learns from an OPEN message\<close>

text \<open>Flags with a single bit.\<close>

lemma single_bit:
  fixes x :: "32 word"
  shows "(if x AND 2 ^ n \<noteq> 0 then 2 ^ n else 0) = x AND 2 ^ n"
proof -
  have "x AND 2 ^ n = (if bit x n then 2 ^ n else 0)" by (rule bit_word_eqI) (auto simp: bit_simps)
  then show ?thesis by simp
qed

lemma family_flag_bit: "\<exists>n. getAddressFamilyFlag fam = 2 ^ n \<or> getAddressFamilyFlag fam = 0"
proof -
  have "\<exists>n. (k :: 32 word) = 2 ^ n \<or> k = 0" if "k \<in> {1, 2, 4, 8, 0x10, 0x20, 0x40, 0x80, 0x100, 0x200, 0x400, 0}" for k
  proof -
    have "(1 :: 32 word) = 2 ^ 0" "(2 :: 32 word) = 2 ^ 1" "(4 :: 32 word) = 2 ^ 2" "(8 :: 32 word) = 2 ^ 3"
      "(0x10 :: 32 word) = 2 ^ 4" "(0x20 :: 32 word) = 2 ^ 5" "(0x40 :: 32 word) = 2 ^ 6" "(0x80 :: 32 word) = 2 ^ 7"
      "(0x100 :: 32 word) = 2 ^ 8" "(0x200 :: 32 word) = 2 ^ 9" "(0x400 :: 32 word) = 2 ^ 10" by simp_all
    then show ?thesis using that by blast
  qed
  moreover have "getAddressFamilyFlag fam \<in> {1, 2, 4, 8, 0x10, 0x20, 0x40, 0x80, 0x100, 0x200, 0x400, 0}"
    by (cases fam) simp_all
  ultimately show ?thesis by blast
qed

lemma local_family_flag:
  "(if local_family c fam then getAddressFamilyFlag fam else 0) = localAddrFamilyFlags c AND getAddressFamilyFlag fam"
proof -
  obtain n where "getAddressFamilyFlag fam = 2 ^ n \<or> getAddressFamilyFlag fam = 0" using family_flag_bit by blast
  then show ?thesis
    using single_bit [of "localAddrFamilyFlags c" n] by (auto simp: local_family_def BIT_TEST_def simp del: if_split)
qed

fun flags_of :: "addr_family list \<Rightarrow> flags" where
  "flags_of [] = 0"
| "flags_of (fam # fams) = getAddressFamilyFlag fam OR flags_of fams"

lemma flags_of_filter: "flags_of (filter (local_family c) fams) = localAddrFamilyFlags c AND flags_of fams"
proof (induction fams)
  case (Cons fam fams)
  have "flags_of (filter (local_family c) (fam # fams)) =
      (if local_family c fam then getAddressFamilyFlag fam else 0) OR flags_of (filter (local_family c) fams)" by simp
  then show ?case unfolding local_family_flag Cons.IH by (simp add: bit.conj_disj_distrib)
qed simp

lemma family_of_key: "getAddrFamilyType (fst (getAfiAndSafi fam)) (snd (getAfiAndSafi fam)) = Some fam"
  by (cases fam) (simp_all add: getAddrFamilyType_def)

lemma apply_families:
  "peerAddrFamilyFlags (fold apply_capability
     (map (\<lambda>fam. MultiprotocolCap (fst (getAfiAndSafi fam)) (snd (getAfiAndSafi fam))) fams) s) =
   peerAddrFamilyFlags s OR flags_of fams"
  by (induction fams arbitrary: s) (simp_all add: family_of_key BIT_SET_def or.assoc)

text \<open>Capabilities that leave a field alone.\<close>

lemma unrelated_capability:
  "fst (cap_bytes cap) \<noteq> 0x01 \<Longrightarrow> peerAddrFamilyFlags (apply_capability cap s) = peerAddrFamilyFlags s"
  "fst (cap_bytes cap) \<noteq> 0x09 \<Longrightarrow> peerRole (apply_capability cap s) = peerRole s"
  "fst (cap_bytes cap) \<noteq> 0x45 \<Longrightarrow> peerAddPathMap (apply_capability cap s) = peerAddPathMap s"
  "fst (cap_bytes cap) \<noteq> 0x05 \<Longrightarrow> peerExtendedNextHopFamilies (apply_capability cap s) = peerExtendedNextHopFamilies s"
  by (cases cap; simp add: peer_add_paths)+

lemma unrelated_families:
  "list_all (\<lambda>cap. fst (cap_bytes cap) \<noteq> 0x01) caps \<Longrightarrow>
     peerAddrFamilyFlags (fold apply_capability caps s) = peerAddrFamilyFlags s"
  by (induction caps arbitrary: s) (simp_all add: unrelated_capability)

lemma unrelated_role:
  "list_all (\<lambda>cap. fst (cap_bytes cap) \<noteq> 0x09) caps \<Longrightarrow> peerRole (fold apply_capability caps s) = peerRole s"
  by (induction caps arbitrary: s) (simp_all add: unrelated_capability)

lemma unrelated_add_path:
  "list_all (\<lambda>cap. fst (cap_bytes cap) \<noteq> 0x45) caps \<Longrightarrow> peerAddPathMap (fold apply_capability caps s) = peerAddPathMap s"
  by (induction caps arbitrary: s) (simp_all add: unrelated_capability)

lemma unrelated_next_hop:
  "list_all (\<lambda>cap. fst (cap_bytes cap) \<noteq> 0x05) caps \<Longrightarrow>
     peerExtendedNextHopFamilies (fold apply_capability caps s) = peerExtendedNextHopFamilies s"
  by (induction caps arbitrary: s) (simp_all add: unrelated_capability)


definition announced_families :: "bgp_config \<Rightarrow> flags" where
  "announced_families c = (if BIT_TEST (localCapFlags c) MULTIPROTOCOL_EXTENSIONS then localAddrFamilyFlags c AND 0x77f else 0)"

definition announced_role :: "bgp_config \<Rightarrow> nat \<Rightarrow> nat" where
  "announced_role c r = (if BIT_TEST (localCapFlags c) BGP_ROLE then localRole c else r)"

definition announced_add_path :: "bgp_config \<Rightarrow> nat \<times> nat \<Rightarrow> nat option" where
  "announced_add_path c k = (if BIT_TEST (localCapFlags c) ADD_PATH then map_of (localAddPathMap c) k else None)"

definition announced_next_hops :: "bgp_config \<Rightarrow> (nat \<times> nat \<times> nat) set" where
  "announced_next_hops c = (if BIT_TEST (localCapFlags c) EXTENDED_NEXT_HOP_ENCODING
     then {(1, safi, 2) | safi. safi \<in> set (ext_next_hop_safis c)} else {})"

lemma list_all_if: "list_all P (if b then xs else []) \<longleftrightarrow> (b \<longrightarrow> list_all P xs)"
  by simp

lemma learned_families:
  "peerAddrFamilyFlags (fold apply_capability (announced c) s) = peerAddrFamilyFlags s OR announced_families c"
proof -
  define fams where "fams = [VPNV4, VPNV6, L2VPN_EVPN, IPV4_UNC, IPV4_LABEL_UNICAST, IPV6_UNC, IPV4_MVPN, IPV6_MVPN, IPV4_QP, IPV6_QP]"
  have fl: "flags_of fams = 0x77f" by (simp add: fams_def)
  obtain post where a: "announced c = (if BIT_TEST (localCapFlags c) MULTIPROTOCOL_EXTENSIONS
      then map (\<lambda>fam. MultiprotocolCap (fst (getAfiAndSafi fam)) (snd (getAfiAndSafi fam))) (filter (local_family c) fams)
      else []) @ post" and post: "list_all (\<lambda>cap. fst (cap_bytes cap) \<noteq> 0x01) post"
  proof
    show "announced c = (if BIT_TEST (localCapFlags c) MULTIPROTOCOL_EXTENSIONS
      then map (\<lambda>fam. MultiprotocolCap (fst (getAfiAndSafi fam)) (snd (getAfiAndSafi fam))) (filter (local_family c) fams)
      else []) @
     (if BIT_TEST (localCapFlags c) ROUTE_REFRESH_CAP then [RouteRefreshCap] else []) @
     (if BIT_TEST (localCapFlags c) FOUR_OCTET_AS then [FourOctetAsCap (localAs c)] else []) @
     (if BIT_TEST (localCapFlags c) BGP_ROLE then [RoleCap (localRole c)] else []) @
     (if BIT_TEST (localCapFlags c) ADD_PATH \<and> localAddPathMap c \<noteq> []
      then [AddPathCap (map (\<lambda>((afi, safi), mode). (afi, safi, mode)) (localAddPathMap c))] else []) @
     (if BIT_TEST (localCapFlags c) EXTENDED_NEXT_HOP_ENCODING \<and> ext_next_hop_safis c \<noteq> []
      then [ExtendedNextHopCap (map (\<lambda>safi. (1, safi, 2)) (ext_next_hop_safis c))] else [])"
      unfolding announced_def fams_def ..
  qed (simp add: list_all_if)
  show ?thesis
    unfolding a fold_append comp_apply unrelated_families [OF post]
    by (simp add: apply_families flags_of_filter fl announced_families_def)
qed


lemma families_code:
  "list_all (\<lambda>cap. fst (cap_bytes cap) = 0x01)
     (map (\<lambda>fam. MultiprotocolCap (fst (getAfiAndSafi fam)) (snd (getAfiAndSafi fam))) fams)"
  by (simp add: list_all_iff)

lemma learned_role: "peerRole (fold apply_capability (announced c) s) = announced_role c (peerRole s)"
proof -
  have one: "peerRole (fold apply_capability (if b then [RoleCap r] else []) s) = (if b then r else peerRole s)" for b r s by simp
  have fams: "list_all (\<lambda>cap. fst (cap_bytes cap) \<noteq> 0x09)
     (map (\<lambda>fam. MultiprotocolCap (fst (getAfiAndSafi fam)) (snd (getAfiAndSafi fam))) fams)" for fams
    using families_code [of fams] by (auto simp: list_all_iff)
  show ?thesis
    unfolding announced_def fold_append comp_apply
    by (simp add: unrelated_role list_all_if fams one announced_role_def del: filter.simps split del: if_split cong: if_cong)
qed

lemma update_all:
  "distinct (map fst xs) \<Longrightarrow> map_of (fold (\<lambda>(afi, safi, mode). AList.update (afi, safi) mode)
     (map (\<lambda>((afi, safi), mode). (afi, safi, mode)) xs) m) = map_of m ++ map_of xs"
proof (induction xs arbitrary: m)
  case (Cons x xs)
  obtain afi safi mode where x: "x = ((afi, safi), mode)" by (cases x) auto
  then have "map_of xs (afi, safi) = None" using Cons.prems by (simp add: map_of_eq_None_iff)
  then have "(map_of m)((afi, safi) \<mapsto> mode) ++ map_of xs = map_of m ++ map_of (x # xs)"
    unfolding x by (auto simp: fun_eq_iff map_add_def split: option.splits)
  moreover have "map_of (fold (\<lambda>(afi, safi, mode). AList.update (afi, safi) mode)
     (map (\<lambda>((afi, safi), mode). (afi, safi, mode)) (x # xs)) m) = map_of (AList.update (afi, safi) mode m) ++ map_of xs"
    using Cons x by simp
  ultimately show ?case by (simp only: update_conv')
qed simp

lemma learned_add_path:
  assumes "distinct (map fst (localAddPathMap c))" "peerAddPathMap s = []"
  shows "map_of (peerAddPathMap (fold apply_capability (announced c) s)) = announced_add_path c"
proof -
  let ?ps = "map (\<lambda>((afi, safi), mode). (afi, safi, mode)) (localAddPathMap c)"
  have one: "peerAddPathMap (fold apply_capability (if b then [AddPathCap qs] else []) s) =
      (if b then fold (\<lambda>(afi, safi, mode). AList.update (afi, safi) mode) qs (peerAddPathMap s) else peerAddPathMap s)" for b qs s
    by (simp add: peer_add_paths)
  have fams: "list_all (\<lambda>cap. fst (cap_bytes cap) \<noteq> 0x45)
     (map (\<lambda>fam. MultiprotocolCap (fst (getAfiAndSafi fam)) (snd (getAfiAndSafi fam))) fams)" for fams
    using families_code [of fams] by (auto simp: list_all_iff)
  have "peerAddPathMap (fold apply_capability (announced c) s) = (if BIT_TEST (localCapFlags c) ADD_PATH \<and> localAddPathMap c \<noteq> []
      then fold (\<lambda>(afi, safi, mode). AList.update (afi, safi) mode) ?ps [] else [])"
    unfolding announced_def fold_append comp_apply
    by (simp add: unrelated_add_path list_all_if fams one assms(2) del: filter.simps split del: if_split cong: if_cong)
  then show ?thesis using update_all [OF assms(1), of "[]"] by (auto simp: announced_add_path_def fun_eq_iff)
qed

lemma learned_next_hops:
  assumes "peerExtendedNextHopFamilies s = []"
  shows "set (peerExtendedNextHopFamilies (fold apply_capability (announced c) s)) = announced_next_hops c"
proof -
  let ?ts = "map (\<lambda>safi. (1, safi, 2)) (ext_next_hop_safis c)"
  have one: "peerExtendedNextHopFamilies (fold apply_capability (if b then [ExtendedNextHopCap ts] else []) s) =
      (if b then fold List.insert ts (peerExtendedNextHopFamilies s) else peerExtendedNextHopFamilies s)" for b ts s
    by simp
  have fams: "list_all (\<lambda>cap. fst (cap_bytes cap) \<noteq> 0x05)
     (map (\<lambda>fam. MultiprotocolCap (fst (getAfiAndSafi fam)) (snd (getAfiAndSafi fam))) fams)" for fams
    using families_code [of fams] by (auto simp: list_all_iff)
  have "peerExtendedNextHopFamilies (fold apply_capability (announced c) s) =
      (if BIT_TEST (localCapFlags c) EXTENDED_NEXT_HOP_ENCODING \<and> ext_next_hop_safis c \<noteq> [] then fold List.insert ?ts [] else [])"
    unfolding announced_def fold_append comp_apply
    by (simp add: unrelated_next_hop list_all_if fams one assms del: filter.simps split del: if_split cong: if_cong)
  moreover have "set (fold List.insert ts us) = set ts \<union> set us" for ts us :: "(nat \<times> nat \<times> nat) list"
    by (induction ts arbitrary: us) auto
  ultimately show ?thesis by (auto simp: announced_next_hops_def)
qed

section \<open>Receiving an OPEN message and a KEEPALIVE\<close>

lemma open_handled:
  assumes "socket s \<noteq> NoSocket"
  shows "\<exists>s' outs. handle_open (ParsedOpen m) s = (s', outs, None) \<and> sessState s' = OPEN_CONFIRM \<and> socket s' = socket s \<and>
    localConfig s' = localConfig s \<and> peerIp s' = peerIp s \<and> vrfIndex s' = vrfIndex s \<and> peerType s' = peer_type_of m s \<and>
    (let s1 = fold apply_capability (om_capabilities m) s in
     peerAddrFamilyFlags s' = peerAddrFamilyFlags s1 \<and> peerRole s' = peerRole s1 \<and> peerAddPathMap s' = peerAddPathMap s1 \<and>
     peerExtendedNextHopFamilies s' = peerExtendedNextHopFamilies s1 \<and>
     (\<forall>k. peer_state_of k s' = map_option (offered OPEN_CONFIRM)
       (if \<exists>vf\<in>set (checked_families (vrfIndex s)). family_key vf = k \<and> \<not> BIT_TEST (peerAddrFamilyFlags s1) (getAddressFamilyFlag (snd vf))
        then map_option (\<lambda>_. NO_NEG) (peer_state_of k s) else peer_state_of k s)))"
proof -
  define s1 where "s1 = fold apply_capability (om_capabilities m) s"
  define s2 where "s2 = fst (mark_not_negotiated (checked_families (vrfIndex s1)) s1)"
  define o2 where "o2 = snd (mark_not_negotiated (checked_families (vrfIndex s1)) s1)"
  define s3 where "s3 = fst (changeSessionFsmState OPEN_CONFIRM s2)"
  have v: "vrfIndex s1 = vrfIndex s" by (simp add: s1_def apply_all_fields)
  have sock: "socket s2 = socket s" by (simp add: s2_def s1_def apply_all_fields)
  have ka: "snd (snd (sendKeepAliveMsg s2)) = None"
    using assms sock by (simp add: sendKeepAliveMsg_def socket_write_def split: bgp_socket.splits)
  let ?r = "then_do (s2, o2, None) (\<lambda>s3. then_do (sendKeepAliveMsg s3) (\<lambda>s4. then_do (changeSessionFsmState OPEN_CONFIRM s4)
      (\<lambda>s5. (s5\<lparr>peerType := peer_type_of m s5\<rparr>, [], None))))"
  have r: "handle_open (ParsedOpen m) s = ?r"
    unfolding handle_open_def s1_def s2_def o2_def Let_def case_prod_unfold by simp
  have "fst ?r = s3\<lparr>peerType := peer_type_of m s3\<rparr>" "snd (snd ?r) = None"
    by (simp_all add: then_do_last ka fsm_session(2) s3_def)
  then have h: "handle_open (ParsedOpen m) s = (s3\<lparr>peerType := peer_type_of m s3\<rparr>, fst (snd ?r), None)"
    unfolding r by (simp add: prod_eq_iff)
  have p1: "peer_state_of k s1 = peer_state_of k s" for k
    unfolding s1_def by (rule peer_state_of_cong) (simp_all add: apply_all_fields)
  have p3: "peer_state_of k (s3\<lparr>peerType := x\<rparr>) = peer_state_of k s3" for k x by (rule peer_state_of_cong) simp_all
  have p: "peer_state_of k (s3\<lparr>peerType := x\<rparr>) = map_option (offered OPEN_CONFIRM)
       (if \<exists>vf\<in>set (checked_families (vrfIndex s)). family_key vf = k \<and> \<not> BIT_TEST (peerAddrFamilyFlags s1) (getAddressFamilyFlag (snd vf))
        then map_option (\<lambda>_. NO_NEG) (peer_state_of k s) else peer_state_of k s)" for k x
    unfolding p3 unfolding s3_def fsm_state s2_def mark_state p1 v ..
  have pt: "peerType (s3\<lparr>peerType := peer_type_of m s3\<rparr>) = peer_type_of m s"
    by (simp add: peer_type_of_def s3_def s2_def s1_def apply_all_fields)
  have f: "sessState (s3\<lparr>peerType := x\<rparr>) = OPEN_CONFIRM" "socket (s3\<lparr>peerType := x\<rparr>) = socket s"
    "localConfig (s3\<lparr>peerType := x\<rparr>) = localConfig s" "peerIp (s3\<lparr>peerType := x\<rparr>) = peerIp s"
    "vrfIndex (s3\<lparr>peerType := x\<rparr>) = vrfIndex s" "peerAddrFamilyFlags (s3\<lparr>peerType := x\<rparr>) = peerAddrFamilyFlags s1"
    "peerRole (s3\<lparr>peerType := x\<rparr>) = peerRole s1" "peerAddPathMap (s3\<lparr>peerType := x\<rparr>) = peerAddPathMap s1"
    "peerExtendedNextHopFamilies (s3\<lparr>peerType := x\<rparr>) = peerExtendedNextHopFamilies s1" for x
    using sock v by (simp_all add: s3_def s2_def s1_def apply_all_fields)
  show ?thesis
    unfolding h Let_def s1_def [symmetric] by (intro exI conjI allI) (rule refl f pt p)+
qed

lemma keepalive_handled:
  assumes "socket s \<noteq> NoSocket" "sessState s = OPEN_CONFIRM"
  shows "\<exists>s' outs. handle_keepalive same s = (s', outs, None) \<and> s' = fst (changeSessionFsmState ESTABLISHED s) \<and>
    set (established_routes same s') \<subseteq> set outs"
proof -
  have ka: "snd (snd (sendKeepAliveMsg s)) = None"
    using assms by (simp add: sendKeepAliveMsg_def socket_write_def split: bgp_socket.splits)
  have "fst (handle_keepalive same s) = fst (changeSessionFsmState ESTABLISHED s)" "snd (snd (handle_keepalive same s)) = None"
    "set (established_routes same (fst (changeSessionFsmState ESTABLISHED s))) \<subseteq> set (fst (snd (handle_keepalive same s)))"
    using assms by (auto simp: handle_keepalive_def then_do_last ka fsm_session(2))
  then show ?thesis by (cases "handle_keepalive same s") auto
qed

lemma established_sent:
  assumes "peer_state_of k s = Some ESTABLISHED" "same (peerIp s) (peerIp s)"
  shows "SendRoutes k (peerIp s) \<in> set (established_routes same s)"
proof -
  obtain peers where "map_of (instanceMap s) k = Some peers" "map_of peers (peerIp s) = Some ESTABLISHED"
    using assms(1) by (auto simp: peer_state_of_def bind_eq_Some_conv)
  then have m: "(k, peers) \<in> set (instanceMap s)" "(peerIp s, ESTABLISHED) \<in> set peers" by (simp_all add: map_of_SomeD)
  let ?row = "\<lambda>(k, peers). concat (map (\<lambda>(ip, st). if same ip (peerIp s) then sendRoute k ip st else []) peers)"
  have "SendRoutes k (peerIp s) \<in> set (?row (k, peers))"
    using assms(2) by (simp, intro bexI [OF _ m(2)]) (simp add: sendRoute_def)
  then show ?thesis unfolding established_routes_def set_concat set_map using m(1) by blast
qed

text \<open>Messages whose length field is right are framed as they are.\<close>

definition framed :: "buffer \<Rightarrow> bool" where
  "framed b = (19 \<le> length b \<and> be16 b 16 = length b)"

lemma drive_framed:
  "list_all framed ps \<Longrightarrow> drive bgp_frame None () (concat ps) acc = Some ((), [], acc @ map (\<lambda>p. (unat (p ! 18), p)) ps, None)"
proof (induction ps arbitrary: acc)
  case Nil
  then show ?case by (simp add: drive_More bgp_frame_def)
next
  case (Cons p ps)
  then have "bgp_frame () (concat (p # ps)) = Advance (Some (unat (p ! 18), p)) () (concat ps)"
    by (auto simp: bgp_frame_def framed_def be16_append1 nth_append)
  then show ?case using Cons by (simp add: drive_Advance)
qed

lemma receive_framed:
  assumes "list_all framed ps" "concat cs = concat ps"
  shows "\<exists>b'. receive_all same [] cs s = Some (b', handle_packets same (map (\<lambda>p. (unat (p ! 18), p)) ps) s) \<and>
    (snd (snd (handle_packets same (map (\<lambda>p. (unat (p ! 18), p)) ps) s)) = None \<longrightarrow> b' = [])"
  using receive_all_frames [of "[]" cs "()" "[]" "map (\<lambda>p. (unat (p ! 18), p)) ps" same s]
    drive_framed [OF assms(1), of "[]"] assms(2) by (simp add: bgp_frame_def)

text \<open>A session right after \<open>tcpConnectSuccess\<close>: it knows nothing of the other side.\<close>

definition connected :: "bgp_config \<Rightarrow> bgp_session \<Rightarrow> bool" where
  "connected c s = (localConfig s = c \<and> socket s = LiveSocket \<and> peerCapFlags s = 0 \<and> peerAddrFamilyFlags s = 0 \<and>
     peerAddPathMap s = [] \<and> peerExtendedNextHopFamilies s = [] \<and> peerRole s = 255)"

definition learned :: "bgp_config \<Rightarrow> bgp_session \<Rightarrow> bool" where
  "learned c s = (peerAddrFamilyFlags s = announced_families c \<and> peerRole s = announced_role c 255 \<and>
     map_of (peerAddPathMap s) = announced_add_path c \<and> set (peerExtendedNextHopFamilies s) = announced_next_hops c)"

lemma open_received:
  assumes c: "config_ok c" "distinct (map fst (localAddPathMap c))" and r: "ipToBytes (routerId c) = Inr rid" "length rid = 4"
    and s: "connected d s" and b: "buildOpenMsg ipToBytes c = Inr b"
  shows "framed b \<and> unat (b ! 18) = 1 \<and> (\<exists>s' outs. handle_packet same 1 b s = (s', outs, None) \<and> learned c s' \<and>
    sessState s' = OPEN_CONFIRM \<and> socket s' = LiveSocket \<and> localConfig s' = d \<and> peerIp s' = peerIp s \<and> vrfIndex s' = vrfIndex s \<and>
    peerType s' = (if localAs d = localAs c mod 65536 then PEER_TYPE_IBGP else PEER_TYPE_EBGP) \<and>
    (\<forall>k. peer_state_of k s' = map_option (offered OPEN_CONFIRM)
       (if \<exists>vf\<in>set (checked_families (vrfIndex s)). family_key vf = k \<and> \<not> BIT_TEST (announced_families c) (getAddressFamilyFlag (snd vf))
        then map_option (\<lambda>_. NO_NEG) (peer_state_of k s) else peer_state_of k s)))"
proof -
  obtain m where p: "29 \<le> length b" "be16 b 16 = length b" "unat (b ! 18) = 1" "parseBgpPacket b = ParsedOpen m"
    "om_capabilities m = announced c" "om_asn m = localAs c mod 65536"
    using open_roundtrip [OF c(1), of ipToBytes, OF r] b by auto
  let ?s = "startHoldTimer s" and ?t = "fold apply_capability (announced c) (startHoldTimer s)"
  have h: "handle_packet same 1 b s = handle_open (ParsedOpen m) ?s"
    using p(4) by (simp add: handle_packet_def packet_type_def Let_def)
  have s': "connected d ?s" using s by (simp add: connected_def startHoldTimer_def)
  have st: "peer_state_of k ?s = peer_state_of k s" for k by (rule peer_state_of_cong) (simp_all add: startHoldTimer_def)
  have f: "vrfIndex ?s = vrfIndex s" "peerIp ?s = peerIp s" "localConfig ?s = d" "socket ?s = LiveSocket"
    using s by (simp_all add: startHoldTimer_def connected_def)
  have l: "peerAddrFamilyFlags ?t = announced_families c" "peerRole ?t = announced_role c 255"
    "map_of (peerAddPathMap ?t) = announced_add_path c" "set (peerExtendedNextHopFamilies ?t) = announced_next_hops c"
    using s' learned_families learned_role learned_add_path [OF c(2)] learned_next_hops by (simp_all add: connected_def)
  have "socket ?s \<noteq> NoSocket" using f by simp
  from open_handled [OF this, of m] obtain s2 outs where
    "handle_open (ParsedOpen m) ?s = (s2, outs, None)" "sessState s2 = OPEN_CONFIRM" "socket s2 = LiveSocket"
    "localConfig s2 = d" "peerIp s2 = peerIp s" "vrfIndex s2 = vrfIndex s" "learned c s2"
    "peerType s2 = (if localAs d = localAs c mod 65536 then PEER_TYPE_IBGP else PEER_TYPE_EBGP)"
    "\<forall>k. peer_state_of k s2 = map_option (offered OPEN_CONFIRM)
       (if \<exists>vf\<in>set (checked_families (vrfIndex s)). family_key vf = k \<and> \<not> BIT_TEST (announced_families c) (getAddressFamilyFlag (snd vf))
        then map_option (\<lambda>_. NO_NEG) (peer_state_of k s) else peer_state_of k s)"
    unfolding Let_def p(5) l(1) f st learned_def peer_type_of_def p(6) using l(2,3,4) by auto
  then show ?thesis using h p(1,2,3) unfolding framed_def by auto
qed

text \<open>C8. Two sessions that exchange their OPEN messages understand each other.  Each of two
  connected sessions receives the OPEN message that the other builds, cut by the network in any way.  Then both wait for a
  KEEPALIVE; each knows exactly the families, the role and the next hop encodings the other announces; and for every family, one
  side sends path identifiers exactly when the other side expects them.  The type of the peer comes from the two-byte AS field: a
  session with a local AS number above 65535 never takes the other side for an internal peer.\<close>

theorem bgp_open_exchange:
  assumes "config_ok ca" "distinct (map fst (localAddPathMap ca))" "localAddPathMap ca \<noteq> [] \<longrightarrow> BIT_TEST (localCapFlags ca) ADD_PATH"
    and "config_ok cb" "distinct (map fst (localAddPathMap cb))" "localAddPathMap cb \<noteq> [] \<longrightarrow> BIT_TEST (localCapFlags cb) ADD_PATH"
    and "ipToBytes (routerId ca) = Inr ra" "length ra = 4" "ipToBytes (routerId cb) = Inr rb" "length rb = 4"
    and "connected ca sa" "connected cb sb"
    and "buildOpenMsg ipToBytes ca = Inr oa" "concat piecesa = oa" "buildOpenMsg ipToBytes cb = Inr ob" "concat piecesb = ob"
  shows "\<exists>sa' sb' outsa outsb. receive_all same [] piecesb sa = Some ([], sa', outsa, None) \<and>
    receive_all same [] piecesa sb = Some ([], sb', outsb, None) \<and>
    sessState sa' = OPEN_CONFIRM \<and> sessState sb' = OPEN_CONFIRM \<and> learned cb sa' \<and> learned ca sb' \<and>
    peerType sa' = (if localAs ca = localAs cb mod 65536 then PEER_TYPE_IBGP else PEER_TYPE_EBGP) \<and>
    peerType sb' = (if localAs cb = localAs ca mod 65536 then PEER_TYPE_IBGP else PEER_TYPE_EBGP) \<and>
    (\<forall>afi safi. isAddPathSendEnabled afi safi sa' = isAddPathReceiveEnabled afi safi sb' \<and>
       isAddPathReceiveEnabled afi safi sa' = isAddPathSendEnabled afi safi sb')"
proof -
  have one: "\<exists>s' outs. receive_all same [] pieces s = Some ([], s', outs, None) \<and> learned c s' \<and> sessState s' = OPEN_CONFIRM \<and>
      localConfig s' = d \<and> peerType s' = (if localAs d = localAs c mod 65536 then PEER_TYPE_IBGP else PEER_TYPE_EBGP)"
    if "config_ok c" "distinct (map fst (localAddPathMap c))" "ipToBytes (routerId c) = Inr rid" "length rid = 4" "connected d s"
      "buildOpenMsg ipToBytes c = Inr b" "concat pieces = b" for c d s b rid pieces
  proof -
    from open_received [OF that(1-6), of same] obtain s' outs where
      h: "framed b" "unat (b ! 18) = 1" "handle_packet same 1 b s = (s', outs, None)" "learned c s'" "sessState s' = OPEN_CONFIRM"
        "localConfig s' = d" "peerType s' = (if localAs d = localAs c mod 65536 then PEER_TYPE_IBGP else PEER_TYPE_EBGP)" by blast
    then have "handle_packets same (map (\<lambda>p. (unat (p ! 18), p)) [b]) s = (s', outs, None)" by simp
    then show ?thesis using receive_framed [of "[b]" pieces same s] that(7) h by auto
  qed
  obtain sa' outsa where a: "receive_all same [] piecesb sa = Some ([], sa', outsa, None)" "learned cb sa'" "sessState sa' = OPEN_CONFIRM"
    "localConfig sa' = ca" "peerType sa' = (if localAs ca = localAs cb mod 65536 then PEER_TYPE_IBGP else PEER_TYPE_EBGP)"
    using one [OF assms(4,5,9,10,11,15,16)] by blast
  obtain sb' outsb where b: "receive_all same [] piecesa sb = Some ([], sb', outsb, None)" "learned ca sb'" "sessState sb' = OPEN_CONFIRM"
    "localConfig sb' = cb" "peerType sb' = (if localAs cb = localAs ca mod 65536 then PEER_TYPE_IBGP else PEER_TYPE_EBGP)"
    using one [OF assms(1,2,7,8,12,13,14)] by blast
  have "announced_add_path ca k = map_of (localAddPathMap ca) k" "announced_add_path cb k = map_of (localAddPathMap cb) k" for k
    using assms(3,6) by (auto simp: announced_add_path_def)
  then have "isAddPathSendEnabled afi safi sa' = isAddPathReceiveEnabled afi safi sb' \<and>
       isAddPathReceiveEnabled afi safi sa' = isAddPathSendEnabled afi safi sb'" for afi safi
    using a(2,4) b(2,4) by (auto simp: isAddPathSendEnabled_def isAddPathReceiveEnabled_def learned_def)
  then show ?thesis using a b by blast
qed

lemma keepalive_framed: "framed buildKeepAliveMsg" "unat (buildKeepAliveMsg ! 18) = 4"
proof -
  have e: "buildKeepAliveMsg = replicate 16 0xff @ [0, 19, 4]"
    by (simp add: buildKeepAliveMsg_def buildBgpMessageHeader_def enc16_bytes enc8_def type_code_def)
  show "framed buildKeepAliveMsg" "unat (buildKeepAliveMsg ! 18) = 4"
    unfolding e by (simp_all add: framed_def be16_def nth_append)
qed

lemma connect_handled:
  assumes "config_ok (localConfig s)" "ipToBytes (routerId (localConfig s)) = Inr rid" "length rid = 4"
  shows "\<exists>s' outs b. tcpConnectSuccess ipToBytes s = (s', outs, None) \<and> buildOpenMsg ipToBytes (localConfig s) = Inr b \<and>
    BgpWrite b \<in> set outs \<and> connected (localConfig s) s' \<and> sessState s' = OPEN_SENT \<and> vrfIndex s' = vrfIndex s \<and> peerIp s' = peerIp s \<and>
    (\<forall>k. peer_state_of k s' = map_option (offered OPEN_SENT) (map_option (offered CONNECT) (peer_state_of k s)))"
proof -
  obtain b where b: "buildOpenMsg ipToBytes (localConfig s) = Inr b" using open_roundtrip [OF assms(1), of ipToBytes, OF assms(2,3)] by blast
  define s0 where "s0 = forget_peer (s\<lparr>socket := LiveSocket\<rparr>)"
  define s1 where "s1 = fst (changeSessionFsmState CONNECT s0)"
  define s2 where "s2 = fst (changeSessionFsmState OPEN_SENT s1)"
  have c0: "connected (localConfig s) s0" "vrfIndex s0 = vrfIndex s" "peerIp s0 = peerIp s"
    by (simp_all add: s0_def forget_peer_def connected_def)
  then have c2: "connected (localConfig s) s2" by (simp add: s1_def s2_def connected_def)
  have send: "sendOpenMsg ipToBytes s1 = (s1, [BgpWrite b], None)"
    using b c0 by (simp add: sendOpenMsg_def socket_write_def s1_def connected_def)
  have p0: "peer_state_of k s0 = peer_state_of k s" for k by (rule peer_state_of_cong) (simp_all add: s0_def forget_peer_def)
  have p3: "peer_state_of k (startHoldTimer s2) = peer_state_of k s2" for k by (rule peer_state_of_cong) (simp_all add: startHoldTimer_def)
  have p: "peer_state_of k (startHoldTimer s2) = map_option (offered OPEN_SENT) (map_option (offered CONNECT) (peer_state_of k s))" for k
    unfolding p3 unfolding s2_def s1_def fsm_state p0 ..
  have r: "fst (tcpConnectSuccess ipToBytes s) = startHoldTimer s2" "snd (snd (tcpConnectSuccess ipToBytes s)) = None"
    "BgpWrite b \<in> set (fst (snd (tcpConnectSuccess ipToBytes s)))"
    unfolding tcpConnectSuccess_def s0_def [symmetric]
    by (simp_all add: then_do_last fsm_session(2) send flip: s1_def s2_def)
  have f: "connected (localConfig s) (startHoldTimer s2)" "sessState (startHoldTimer s2) = OPEN_SENT"
    "vrfIndex (startHoldTimer s2) = vrfIndex s" "peerIp (startHoldTimer s2) = peerIp s"
    using c2 c0 by (simp_all add: startHoldTimer_def connected_def s2_def s1_def)
  show ?thesis
    using r p f b by (cases "tcpConnectSuccess ipToBytes s") auto
qed

lemma establish:
  assumes "config_ok (localConfig s)" "ipToBytes (routerId (localConfig s)) = Inr ra" "length ra = 4"
    and "config_ok c" "distinct (map fst (localAddPathMap c))" "ipToBytes (routerId c) = Inr rb" "length rb = 4"
    and "buildOpenMsg ipToBytes c = Inr ob" "concat pieces = ob @ buildKeepAliveMsg" "\<forall>ip. same ip ip"
  shows "\<exists>s1 outs1 oa s2 outs2. tcpConnectSuccess ipToBytes s = (s1, outs1, None) \<and>
    buildOpenMsg ipToBytes (localConfig s) = Inr oa \<and> BgpWrite oa \<in> set outs1 \<and>
    receive_all same [] pieces s1 = Some ([], s2, outs2, None) \<and> sessState s2 = ESTABLISHED \<and> learned c s2 \<and>
    (\<forall>k st. peer_state_of k s = Some st \<and> st \<noteq> NO_NEG \<longrightarrow>
       (if \<exists>vf\<in>set (checked_families (vrfIndex s)). family_key vf = k \<and> \<not> BIT_TEST (announced_families c) (getAddressFamilyFlag (snd vf))
        then peer_state_of k s2 = Some NO_NEG
        else peer_state_of k s2 = Some ESTABLISHED \<and> SendRoutes k (peerIp s) \<in> set outs2)) \<and>
    (\<forall>k. peer_state_of k s = Some NO_NEG \<longrightarrow> peer_state_of k s2 = Some NO_NEG)"
proof -
  obtain s1 outs1 oa where s1: "tcpConnectSuccess ipToBytes s = (s1, outs1, None)" "buildOpenMsg ipToBytes (localConfig s) = Inr oa"
    "BgpWrite oa \<in> set outs1" "connected (localConfig s) s1" "vrfIndex s1 = vrfIndex s" "peerIp s1 = peerIp s"
    "\<And>k. peer_state_of k s1 = map_option (offered OPEN_SENT) (map_option (offered CONNECT) (peer_state_of k s))"
    using connect_handled [OF assms(1), of ipToBytes, OF assms(2,3)] by blast
  obtain t outs2 where t: "framed ob" "unat (ob ! 18) = 1" "handle_packet same 1 ob s1 = (t, outs2, None)" "learned c t"
    "sessState t = OPEN_CONFIRM" "socket t = LiveSocket" "peerIp t = peerIp s" "vrfIndex t = vrfIndex s"
    "\<And>k. peer_state_of k t = map_option (offered OPEN_CONFIRM)
       (if \<exists>vf\<in>set (checked_families (vrfIndex s)). family_key vf = k \<and> \<not> BIT_TEST (announced_families c) (getAddressFamilyFlag (snd vf))
        then map_option (\<lambda>_. NO_NEG) (peer_state_of k s1) else peer_state_of k s1)"
    using open_received [OF assms(4,5), of ipToBytes, OF assms(6,7) s1(4) assms(8), of same, unfolded s1(5,6)] by blast
  let ?t = "startHoldTimer t"
  have st: "peer_state_of k ?t = peer_state_of k t" for k by (rule peer_state_of_cong) (simp_all add: startHoldTimer_def)
  have "socket ?t \<noteq> NoSocket" "sessState ?t = OPEN_CONFIRM" using t by (simp_all add: startHoldTimer_def)
  then obtain s2 outs3 where s2: "handle_keepalive same ?t = (s2, outs3, None)" "s2 = fst (changeSessionFsmState ESTABLISHED ?t)"
    "set (established_routes same s2) \<subseteq> set outs3" using keepalive_handled by blast
  have ka: "handle_packet same 4 buildKeepAliveMsg t = (s2, outs3, None)"
    using s2(1) by (simp add: handle_packet_def packet_type_def Let_def)
  have "handle_packets same (map (\<lambda>p. (unat (p ! 18), p)) [ob, buildKeepAliveMsg]) s1 = (s2, outs2 @ outs3, None)"
    by (simp add: t(2,3) keepalive_framed ka del: One_nat_def)
  then have rec: "receive_all same [] pieces s1 = Some ([], s2, outs2 @ outs3, None)"
    using receive_framed [of "[ob, buildKeepAliveMsg]" pieces same s1] t(1) keepalive_framed assms(9) by auto
  have f2: "sessState s2 = ESTABLISHED" "learned c s2" "peerIp s2 = peerIp s"
    using t(4,7) by (simp_all add: s2(2) learned_def startHoldTimer_def)
  have p2: "peer_state_of k s2 = map_option (offered ESTABLISHED) (peer_state_of k t)" for k
    unfolding s2(2) fsm_state st ..
  have peers: "if \<exists>vf\<in>set (checked_families (vrfIndex s)). family_key vf = k \<and> \<not> BIT_TEST (announced_families c) (getAddressFamilyFlag (snd vf))
        then peer_state_of k s2 = Some NO_NEG
        else peer_state_of k s2 = Some ESTABLISHED \<and> SendRoutes k (peerIp s) \<in> set (outs2 @ outs3)"
    if "peer_state_of k s = Some st \<and> st \<noteq> NO_NEG" for k st
  proof -
    have e: "peer_state_of k s2 = Some (if \<exists>vf\<in>set (checked_families (vrfIndex s)). family_key vf = k \<and> \<not> BIT_TEST (announced_families c) (getAddressFamilyFlag (snd vf))
        then NO_NEG else ESTABLISHED)"
      using that unfolding p2 t(9) s1(7) by (simp add: offered_def peer_changes_def)
    show ?thesis
    proof (cases "\<exists>vf\<in>set (checked_families (vrfIndex s)). family_key vf = k \<and> \<not> BIT_TEST (announced_families c) (getAddressFamilyFlag (snd vf))")
      case False
      with e have "peer_state_of k s2 = Some ESTABLISHED" by simp
      with established_sent [of k s2 same] have "SendRoutes k (peerIp s) \<in> set outs3" using assms(10) s2(3) f2(3) by auto
      with False e show ?thesis by simp
    qed (use e in simp)
  qed
  have "peer_state_of k s2 = Some NO_NEG" if "peer_state_of k s = Some NO_NEG" for k
    using that unfolding p2 t(9) s1(7) by (simp add: offered_def peer_changes_def)
  then show ?thesis using s1(1,2,3) rec f2(1,2) peers by blast
qed


text \<open>C4. Routes go to negotiated families only.  In every reachable session, a peer that is established, for one of the
  families the session checks, has a socket, belongs to an established session, and the OPEN
  message of the other side announced its family.\<close>

theorem bgp_established_negotiated:
  assumes "all_idle ip im" "bgp_reach ipToBytes same (new_BgpSession c vrf ip im) b s"
    and "vf \<in> set (checked_families vrf)" "peer_state_of (family_key vf) s = Some ESTABLISHED"
  shows "socket s \<noteq> NoSocket \<and> sessState s = ESTABLISHED \<and>
    BIT_TEST (peerAddrFamilyFlags s) (getAddressFamilyFlag (snd vf))"
proof -
  have "kept (new_BgpSession c vrf ip im) s" by (rule reach_kept [OF assms(2) new_session_ok [OF assms(1)]])
  then have ok: "session_ok s" and v: "vrfIndex s = vrf" by (simp_all add: kept_def frame_def new_BgpSession_def)
  have "ESTABLISHED = (if socket s = NoSocket then IDLE else sessState s)"
    using ok assms(4) unfolding session_ok_def peers_ok_def by blast
  then have s: "socket s \<noteq> NoSocket" "sessState s = ESTABLISHED" by (simp_all split: if_splits)
  with ok have "covered s" by (simp add: session_ok_def)
  with s v assms(3,4) show ?thesis by (auto simp: covered_def)
qed

lemma demo_config_ok: "config_ok demo_bgp_config" "distinct (map fst (localAddPathMap demo_bgp_config))"
  "demo_ipToBytes (routerId demo_bgp_config) = Inr [10, 0, 0, 7]" "localConfig demo_bgp = demo_bgp_config"
  by (simp_all add: config_ok_def demo_bgp_config_def demo_ipToBytes_def demo_bgp_def new_BgpSession_def)

lemma demo_families: "announced_families demo_bgp_config = 3"
  by (simp add: announced_families_def demo_bgp_config_def BIT_TEST_def MULTIPROTOCOL_EXTENSIONS_def)

lemma demo_open: "\<exists>ob. buildOpenMsg demo_ipToBytes demo_bgp_config = Inr ob"
  using open_roundtrip [OF demo_config_ok(1), of demo_ipToBytes, OF demo_config_ok(3)] by auto


lemma demo_connected:
  "\<exists>s outs. tcpConnectSuccess demo_ipToBytes demo_bgp = (s, outs, None) \<and> connected demo_bgp_config s"
  using connect_handled [where s = demo_bgp and ipToBytes = demo_ipToBytes, unfolded demo_config_ok(4), OF demo_config_ok(1,3)] by auto

theorem bgp_open_exchange_witness:
  "\<exists>s ob outs s' outs'. tcpConnectSuccess demo_ipToBytes demo_bgp = (s, outs, None) \<and>
    buildOpenMsg demo_ipToBytes demo_bgp_config = Inr ob \<and>
    receive_all (=) [] [take 7 ob, drop 7 ob] s = Some ([], s', outs', None) \<and>
    peerAddrFamilyFlags s' = 3 \<and> isAddPathSendEnabled 7 7 s' = isAddPathReceiveEnabled 7 7 s'"
proof -
  obtain ob where ob: "buildOpenMsg demo_ipToBytes demo_bgp_config = Inr ob" using demo_open by blast
  obtain s outs where s: "tcpConnectSuccess demo_ipToBytes demo_bgp = (s, outs, None)" "connected demo_bgp_config s"
    using demo_connected by blast
  have f: "localAddPathMap demo_bgp_config \<noteq> [] \<longrightarrow> BIT_TEST (localCapFlags demo_bgp_config) ADD_PATH"
    by (simp add: demo_bgp_config_def BIT_TEST_def ADD_PATH_def)
  have p: "concat [take 7 ob, drop 7 ob] = ob" by simp
  have l: "length [10, 0, 0, 7 :: byte] = 4" by simp
  obtain s' s'' outs' outs'' where r: "receive_all (=) [] [take 7 ob, drop 7 ob] s = Some ([], s', outs', None)"
    "receive_all (=) [] [take 7 ob, drop 7 ob] s = Some ([], s'', outs'', None)" "learned demo_bgp_config s'"
    "isAddPathSendEnabled 7 7 s' = isAddPathReceiveEnabled 7 7 s''"
    using bgp_open_exchange [where ipToBytes = demo_ipToBytes and same = "(=)", OF demo_config_ok(1,2) f demo_config_ok(1,2) f
        demo_config_ok(3) l demo_config_ok(3) l s(2) s(2) ob p ob p] by blast
  from r(1,2) have "s'' = s'" by simp
  with r(3,4) have "peerAddrFamilyFlags s' = 3" "isAddPathSendEnabled 7 7 s' = isAddPathReceiveEnabled 7 7 s'"
    by (simp_all add: learned_def demo_families)
  then show ?thesis using s(1) ob r(1) by blast
qed

text \<open>C38. Only the bytes matter, not how the network cuts them.  For a stream without a length field of zero, the
  loop returns for every piece, and the pieces together have the effect of handling, in order, the messages that
  the length fields of the whole stream delimit, up to the first exception.  Without one, the bytes behind the last complete
  message are kept.\<close>

theorem bgp_receive:
  assumes "drive bgp_frame None () (concat pieces) [] = Some ((), rest, messages, None)"
  shows "\<exists>b'. receive_all same [] pieces s = Some (b', handle_packets same messages s) \<and>
    (snd (snd (handle_packets same messages s)) = None \<longrightarrow> b' = rest)"
  using receive_all_frames [of "[]" pieces "()" rest messages same s] assms by (simp add: bgp_frame_def)

theorem bgp_receive_witness:
  "\<exists>b'. receive_all (=) [] [take 7 buildKeepAliveMsg, drop 7 buildKeepAliveMsg @ take 7 buildKeepAliveMsg] demo_bgp =
    Some (b', handle_packets (=) [(4, buildKeepAliveMsg)] demo_bgp)"
proof -
  let ?k = "take 7 buildKeepAliveMsg"
  let ?pieces = "[?k, drop 7 buildKeepAliveMsg @ ?k]"
  have c: "concat ?pieces = buildKeepAliveMsg @ ?k" using append_take_drop_id [of 7 buildKeepAliveMsg] by (simp flip: append_assoc)
  have "bgp_frame () (concat ?pieces) = Advance (Some (4, buildKeepAliveMsg)) () ?k"
    unfolding c using keepalive_framed by (auto simp: bgp_frame_def framed_def be16_append1 nth_append)
  moreover have "bgp_frame () ?k = More" by (simp add: bgp_frame_def min_def)
  ultimately have "drive bgp_frame None () (concat ?pieces) [] = Some ((), ?k, [(4, buildKeepAliveMsg)], None)"
    by (simp add: drive_Advance drive_More)
  from bgp_receive [OF this, of "(=)" demo_bgp] show ?thesis by blast
qed

theorem bgp_established_negotiated_witness:
  "\<exists>b s. bgp_reach demo_ipToBytes (=) demo_bgp b s \<and> peer_state_of (family_key (0, IPV4_UNC)) s = Some ESTABLISHED \<and>
    sessState s = ESTABLISHED \<and> BIT_TEST (peerAddrFamilyFlags s) (getAddressFamilyFlag IPV4_UNC)"
proof -
  obtain ob where ob: "buildOpenMsg demo_ipToBytes demo_bgp_config = Inr ob" using demo_open by blast
  have e: "concat [ob @ buildKeepAliveMsg] = ob @ buildKeepAliveMsg" by simp
  have l: "length [10, 0, 0, 7 :: byte] = 4" by simp
  let ?k = "family_key (0, IPV4_UNC)"
  have m: "\<not> (\<exists>vf\<in>set (checked_families (vrfIndex demo_bgp)). family_key vf = ?k \<and>
      \<not> BIT_TEST (announced_families demo_bgp_config) (getAddressFamilyFlag (snd vf)))"
    by (simp add: demo_families checked_families_def family_key_def BIT_TEST_def)
  have p: "peer_state_of ?k demo_bgp = Some IDLE \<and> IDLE \<noteq> NO_NEG"
    by (simp add: peer_state_of_def demo_bgp_def new_BgpSession_def demo_instances_def family_key_def)
  obtain s1 outs1 s2 outs2 where r: "tcpConnectSuccess demo_ipToBytes demo_bgp = (s1, outs1, None)"
    "receive_all (=) [] [ob @ buildKeepAliveMsg] s1 = Some ([], s2, outs2, None)" "peer_state_of ?k s2 = Some ESTABLISHED"
    using establish [where s = demo_bgp and ipToBytes = demo_ipToBytes and same = "(=)", unfolded demo_config_ok(4),
        OF demo_config_ok(1,3) l demo_config_ok(1,2,3) l ob e] p m by (metis (no_types, lifting))
  have "bgp_reach demo_ipToBytes (=) demo_bgp [] s1" using demo_connects r(1) by simp
  moreover have "\<exists>e. run_bgp_event demo_ipToBytes (=) (Received (ob @ buildKeepAliveMsg)) [] s1 = Some ([], s2, outs2, e)"
    using r(2) by (auto simp: run_bgp_event_def bind_eq_Some_conv split: option.splits)
  ultimately have "bgp_reach demo_ipToBytes (=) demo_bgp [] s2" using bgp_reach.event by blast
  then show ?thesis
    using bgp_established_negotiated [OF demo_idle, of demo_ipToBytes "(=)" demo_bgp_config 0 "[]" s2 "(0, IPV4_UNC)", folded demo_bgp_def] r(3)
    by (auto simp: checked_families_def)
qed

end
