(* ===== verification/Bgp_Raw.thy ===== *)
theory Bgp_Raw
  imports Bgp_Negotiation
begin

text \<open>
  Raw BGP messages (\<open>bgpRawPacket.js\<close>, and \<open>sendRawPacket\<close> of \<open>bgpSession.js\<close>): the user
  gives messages in hexadecimal, the parser checks their framing, and the session writes the bytes.  The
  lemmas show that the parser accepts the bytes of well-formed messages, and that the bytes it accepts are cut by the receiver into exactly
  the messages it counted.

  The checks of the Node.js socket beside \<open>destroyed\<close> are one argument (\<open>writable\<close>); the wait for the
  completion of the write is not modelled.
\<close>

definition BGP_MAX_PKT_SIZE :: nat where "BGP_MAX_PKT_SIZE = 4096"

definition MIN_PACKET_LENGTH :: "nat \<Rightarrow> nat option" where
  "MIN_PACKET_LENGTH t = map_option (\<lambda>ty. case ty of OPEN \<Rightarrow> 29 | UPDATE_T \<Rightarrow> 23 | NOTIFICATION \<Rightarrow> 21 | KEEPALIVE \<Rightarrow> 19
     | ROUTE_REFRESH \<Rightarrow> 23) (packet_type t)"

record raw_result =
  raw_buffer :: buffer
  raw_packets :: "(nat \<times> nat \<times> nat) list"
  raw_byteLength :: nat
  raw_packetCount :: nat

text \<open>The loop over the messages, from an offset on; a message is its offset, length and type.\<close>

function raw_packets_from :: "buffer \<Rightarrow> nat \<Rightarrow> js_error + (nat \<times> nat \<times> nat) list" where
  "raw_packets_from b off =
     (if length b \<le> off then Inr []
      else if length b - off < 19 then Inl JsError
      else if \<not> list_all (\<lambda>i. b ! (off + i) = 0xff) [0..<16] then Inl JsError
      else let len = be16 b (off + 16); t = unat (b ! (off + 18)) in
        if len < 19 \<or> len > BGP_MAX_PKT_SIZE then Inl JsError
        else case MIN_PACKET_LENGTH t of
            None \<Rightarrow> Inl JsError
          | Some n \<Rightarrow>
              if len < n then Inl JsError
              else if t = 4 \<and> len \<noteq> 19 then Inl JsError
              else if len > length b - off then Inl JsError
              else bindE (raw_packets_from b (off + len)) (\<lambda>ps. Inr ((off, len, t) # ps)))"
  by pat_completeness auto
termination by (relation "measure (\<lambda>(b, off). length b - off)") auto

declare raw_packets_from.simps [simp del]

definition parseBgpRawPacket :: "string \<Rightarrow> js_error + raw_result" where
  "parseBgpRawPacket packetHex =
     (if list_all js_space packetHex then Inl JsError
      else if \<not> list_all (\<lambda>c. hex_val c \<noteq> None \<or> js_space c) packetHex then Inl JsError
      else let hx = filter (\<lambda>c. \<not> js_space c) packetHex in
        if odd (length hx) then Inl JsError
        else let b = unhex hx in
          bindE (raw_packets_from b 0) (\<lambda>ps.
            Inr \<lparr>raw_buffer = b, raw_packets = ps, raw_byteLength = length b, raw_packetCount = length ps\<rparr>))"

definition assertRawPacketSocket :: "bool \<Rightarrow> bgp_session \<Rightarrow> js_error option" where
  "assertRawPacketSocket writable s =
     (if sessState s \<noteq> ESTABLISHED then Some JsError
      else if socket s \<noteq> LiveSocket \<or> \<not> writable then Some JsError
      else None)"

definition sendRawPacket :: "bool \<Rightarrow> string \<Rightarrow> bgp_session \<Rightarrow> bgp_did" where
  "sendRawPacket writable packetHex s = (case assertRawPacketSocket writable s of
      Some e \<Rightarrow> (s, [], Some e)
    | None \<Rightarrow> (case parseBgpRawPacket packetHex of
          Inl e \<Rightarrow> (s, [], Some e)
        | Inr r \<Rightarrow> socket_write (raw_buffer r) s))"

section \<open>What is accepted\<close>

text \<open>A message whose header is right.\<close>

definition raw_ok :: "buffer \<Rightarrow> bool" where
  "raw_ok p = (framed p \<and> take 16 p = replicate 16 0xff \<and> length p \<le> BGP_MAX_PKT_SIZE \<and>
     (\<exists>n. MIN_PACKET_LENGTH (unat (p ! 18)) = Some n \<and> n \<le> length p) \<and> (unat (p ! 18) = 4 \<longrightarrow> length p = 19))"

fun raw_offsets :: "nat \<Rightarrow> buffer list \<Rightarrow> (nat \<times> nat \<times> nat) list" where
  "raw_offsets off [] = []"
| "raw_offsets off (p # ps) = (off, length p, unat (p ! 18)) # raw_offsets (off + length p) ps"

lemma length_raw_offsets [simp]: "length (raw_offsets off ps) = length ps"
  by (induction ps arbitrary: off) simp_all

lemma marker_check:
  "off + 16 \<le> length b \<Longrightarrow> list_all (\<lambda>i. b ! (off + i) = 0xff) [0..<16] \<longleftrightarrow> take 16 (drop off b) = replicate 16 0xff"
  by (auto simp: list_all_iff list_eq_iff_nth_eq)

lemma be16_drop: "off + i + 2 \<le> length b \<Longrightarrow> be16 b (off + i) = be16 (drop off b) i"
  by (simp add: be16_def add.assoc)

text \<open>Well-formed messages are accepted.\<close>

lemma raw_accepts:
  assumes "list_all raw_ok ps"
  shows "raw_packets_from (pre @ concat ps) (length pre) = Inr (raw_offsets (length pre) ps)"
  using assms
proof (induction ps arbitrary: pre)
  case Nil
  then show ?case by (simp add: raw_packets_from.simps)
next
  case (Cons p ps)
  let ?b = "pre @ concat (p # ps)"
  have p: "19 \<le> length p" "be16 p 16 = length p" "take 16 p = replicate 16 0xff" "length p \<le> BGP_MAX_PKT_SIZE"
    "unat (p ! 18) = 4 \<longrightarrow> length p = 19"
    using Cons.prems by (simp_all add: raw_ok_def framed_def)
  obtain n where n: "MIN_PACKET_LENGTH (unat (p ! 18)) = Some n" "n \<le> length p" using Cons.prems by (auto simp: raw_ok_def)
  have m: "list_all (\<lambda>i. ?b ! (length pre + i) = 0xff) [0..<16]"
    using p(1,3) marker_check [of "length pre" ?b] by simp
  have h: "be16 ?b (length pre + 16) = length p" "?b ! (length pre + 18) = p ! 18"
    using p(1,2) by (simp_all add: be16_append1 be16_append2 nth_append)
  have "raw_packets_from ?b (length pre + length p) = Inr (raw_offsets (length pre + length p) ps)"
    using Cons.IH [of "pre @ p"] Cons.prems by simp
  then show ?case
    using p n m h by (subst raw_packets_from.simps) (cases p; auto simp: Let_def)
qed

lemma raw_sound:
  assumes "raw_packets_from b off = Inr ps" "off \<le> length b"
  shows "\<exists>qs. list_all raw_ok qs \<and> drop off b = concat qs \<and> ps = raw_offsets off qs"
  using assms
proof (induction b off arbitrary: ps rule: raw_packets_from.induct)
  case (1 b off)
  show ?case
  proof (cases "length b \<le> off")
    case True
    then show ?thesis using 1(2) by (intro exI [of _ "[]"]) (simp add: raw_packets_from.simps)
  next
    case False
    define len where "len = be16 b (off + 16)"
    define t where "t = unat (b ! (off + 18))"
    define p where "p = take len (drop off b)"
    obtain n rest where c: "19 \<le> length b - off" "list_all (\<lambda>i. b ! (off + i) = 0xff) [0..<16]" "19 \<le> len" "len \<le> BGP_MAX_PKT_SIZE"
      "MIN_PACKET_LENGTH t = Some n" "n \<le> len" "t = 4 \<longrightarrow> len = 19" "len \<le> length b - off"
      "raw_packets_from b (off + len) = Inr rest" "ps = (off, len, t) # rest"
      using 1(2) False unfolding raw_packets_from.simps [of b off] len_def t_def
      by (auto simp: Let_def bindE_Inr_iff split: if_splits option.splits)
    have le: "off + len \<le> length b" using c(8) False by simp
    obtain qs where qs: "list_all raw_ok qs" "drop (off + len) b = concat qs" "rest = raw_offsets (off + len) qs"
      using 1(1) [OF False _ _ len_def t_def _ c(5) _ _ _ c(9) le] c(1-8) by auto
    have lp: "length p = len" using c(8) by (simp add: p_def)
    have "p ! 18 = b ! (off + 18)" using c(1,3) by (simp add: p_def)
    then have tp: "unat (p ! 18) = t" by (simp add: t_def)
    have "be16 p 16 = len"
    proof -
      have "len = be16 (drop off b) 16" using be16_drop [of off 16 b] c(1) le unfolding len_def by simp
      also have "drop off b = p @ drop len (drop off b)" unfolding p_def by (rule append_take_drop_id [symmetric])
      also have "be16 (p @ drop len (drop off b)) 16 = be16 p 16" using lp c(3) by (intro be16_append1) simp
      finally show ?thesis ..
    qed
    moreover have "take 16 p = replicate 16 0xff"
      using marker_check [of off b] c(1,2,3) by (simp add: p_def min_def)
    ultimately have "raw_ok p" using c lp tp by (simp add: raw_ok_def framed_def)
    moreover have "drop off b = concat (p # qs)"
      using qs(2) by (simp add: p_def) (metis add.commute append_take_drop_id drop_drop)
    ultimately show ?thesis using qs lp tp c(10) by (intro exI [of _ "p # qs"]) simp
  qed
qed


lemma length_unhex_digits: "list_all (\<lambda>c. hex_val c \<noteq> None) s \<Longrightarrow> even (length s) \<Longrightarrow> 2 * length (unhex s) = length s"
  by (induction s rule: unhex.induct) auto

lemma raw_ok_parses:
  assumes "raw_ok p" "unat (p ! 18) \<noteq> 1"
  shows "parseBgpPacket p \<noteq> Invalid"
proof -
  have p: "19 \<le> length p" "be16 p 16 = length p" "take 16 p = replicate 16 0xff" "unat (p ! 18) = 4 \<longrightarrow> length p = 19"
    using assms by (simp_all add: raw_ok_def framed_def)
  obtain n where n: "MIN_PACKET_LENGTH (unat (p ! 18)) = Some n" "n \<le> length p" using assms by (auto simp: raw_ok_def)
  have min: "MINIMUM_MESSAGE_LENGTHS (unat (p ! 18)) \<le> length p" "packet_type (unat (p ! 18)) \<noteq> None" "packet_type (unat (p ! 18)) \<noteq> Some OPEN"
    using n assms(2) by (auto simp: MIN_PACKET_LENGTH_def MINIMUM_MESSAGE_LENGTHS_def packet_type_def split: if_splits)
  have "list_all (\<lambda>x. x = 0xff) (take 16 p)" unfolding p(3) by (simp add: list_all_iff)
  then show ?thesis
    using p(1,2,4) min by (auto simp: parseBgpPacket_def Let_def split: option.splits bgp_type.splits)
qed

text \<open>A raw message is received as it was checked.  When the parser of raw messages accepts a text, no digit of
  it was dropped, and its bytes are a sequence of as many complete messages as it counts, each with a correct header.  A
  session on the other side that receives these bytes, cut in any way, handles exactly these messages in this order; and its own
  parser rejects none of them, except perhaps for the content of an OPEN or an UPDATE.\<close>

theorem bgp_raw_delivered:
  assumes "parseBgpRawPacket packetHex = Inr r" "concat pieces = raw_buffer r"
  shows "\<exists>ps. concat ps = raw_buffer r \<and> length ps = raw_packetCount r \<and> raw_packets r = raw_offsets 0 ps \<and>
    2 * raw_byteLength r = length (filter (\<lambda>c. \<not> js_space c) packetHex) \<and> raw_byteLength r = length (raw_buffer r) \<and>
    list_all (\<lambda>p. framed p \<and> length p \<le> 4096 \<and> (unat (p ! 18) \<in> {1, 2} \<or> parseBgpPacket p \<noteq> Invalid)) ps \<and>
    (\<exists>b'. receive_all same [] pieces s = Some (b', handle_packets same (map (\<lambda>p. (unat (p ! 18), p)) ps) s) \<and>
       (snd (snd (handle_packets same (map (\<lambda>p. (unat (p ! 18), p)) ps) s)) = None \<longrightarrow> b' = []))"
proof -
  let ?hx = "filter (\<lambda>c. \<not> js_space c) packetHex"
  obtain ps where r: "list_all (\<lambda>c. hex_val c \<noteq> None \<or> js_space c) packetHex" "even (length ?hx)"
    "raw_packets_from (unhex ?hx) 0 = Inr ps"
    "r = \<lparr>raw_buffer = unhex ?hx, raw_packets = ps, raw_byteLength = length (unhex ?hx), raw_packetCount = length ps\<rparr>"
    using assms(1) by (auto simp: parseBgpRawPacket_def Let_def bindE_Inr_iff split: if_splits)
  obtain qs where qs: "list_all raw_ok qs" "unhex ?hx = concat qs" "ps = raw_offsets 0 qs"
    using raw_sound [OF r(3)] by auto
  have "list_all (\<lambda>c. hex_val c \<noteq> None) ?hx" using r(1) by (auto simp: list_all_iff)
  then have len: "2 * length (unhex ?hx) = length ?hx" by (rule length_unhex_digits [OF _ r(2)])
  have f: "list_all framed qs" using qs(1) by (auto simp: list_all_iff raw_ok_def)
  have ok: "list_all (\<lambda>p. framed p \<and> length p \<le> 4096 \<and> (unat (p ! 18) \<in> {1, 2} \<or> parseBgpPacket p \<noteq> Invalid)) qs"
    using qs(1) raw_ok_parses by (auto simp: list_all_iff raw_ok_def BGP_MAX_PKT_SIZE_def)
  have "concat pieces = concat qs" using assms(2) r(4) qs(2) by simp
  from receive_framed [OF f this, of same s] show ?thesis
    using r(4) qs(2,3) len ok by (intro exI [of _ qs]) simp
qed

lemma hex_chars: "c \<in> set (hex b) \<Longrightarrow> hex_val c \<noteq> None \<and> \<not> js_space c"
proof -
  have d: "hex_val (hex_digit n) \<noteq> None \<and> \<not> js_space (hex_digit n)" if "n < 16" for n
  proof -
    have "(of_char (hex_digit n) :: nat) = (if n < 10 then 48 + n else 87 + n)" using that by (simp add: hex_digit_def)
    then show ?thesis using that by (auto simp: js_space_def)
  qed
  assume "c \<in> set (hex b)"
  then obtain w :: byte where "c = hex_digit (unat w div 16) \<or> c = hex_digit (unat w mod 16)" by (auto simp: hex_def)
  moreover have "unat w div 16 < 16" using unat_byte_less [of w] by (simp add: less_mult_imp_div_less)
  ultimately show ?thesis using d by auto
qed

text \<open>The text form of well-formed messages is accepted.\<close>

lemma raw_hex_accepted:
  assumes "list_all raw_ok ps" "ps \<noteq> []"
  shows "parseBgpRawPacket (hex (concat ps)) = Inr \<lparr>raw_buffer = concat ps, raw_packets = raw_offsets 0 ps,
    raw_byteLength = length (concat ps), raw_packetCount = length ps\<rparr>"
proof -
  let ?b = "concat ps"
  have f: "filter (\<lambda>c. \<not> js_space c) (hex ?b) = hex ?b" using hex_chars by (auto simp: filter_id_conv)
  have "?b \<noteq> []" using assms by (cases ps) (auto simp: raw_ok_def framed_def)
  then have "hex ?b \<noteq> []" by simp
  then have "hd (hex ?b) \<in> set (hex ?b)" by (rule hd_in_set)
  then have "\<not> list_all js_space (hex ?b)" using hex_chars unfolding list_all_iff by blast
  moreover have "list_all (\<lambda>c. hex_val c \<noteq> None \<or> js_space c) (hex ?b)" using hex_chars by (auto simp: list_all_iff)
  moreover have "raw_packets_from ?b 0 = Inr (raw_offsets 0 ps)" using raw_accepts [OF assms(1), of "[]"] by simp
  ultimately show ?thesis unfolding parseBgpRawPacket_def f Let_def unhex_hex by simp
qed

lemma keepalive_raw_ok: "raw_ok buildKeepAliveMsg"
proof -
  have "take 16 buildKeepAliveMsg = replicate 16 0xff" "length buildKeepAliveMsg = 19"
    by (simp_all add: buildKeepAliveMsg_def buildBgpMessageHeader_def)
  then show ?thesis
    using keepalive_framed by (simp add: raw_ok_def BGP_MAX_PKT_SIZE_def MIN_PACKET_LENGTH_def packet_type_def)
qed

theorem bgp_raw_delivered_witness:
  "\<exists>b' ps. receive_all (=) [] [take 7 buildKeepAliveMsg, drop 7 buildKeepAliveMsg] demo_bgp =
      Some (b', handle_packets (=) (map (\<lambda>p. (unat (p ! 18), p)) ps) demo_bgp) \<and>
    concat ps = buildKeepAliveMsg \<and> length ps = 1 \<and>
    parseBgpRawPacket (hex buildKeepAliveMsg) = Inr \<lparr>raw_buffer = buildKeepAliveMsg, raw_packets = raw_offsets 0 ps,
      raw_byteLength = length buildKeepAliveMsg, raw_packetCount = 1\<rparr>"
proof -
  let ?r = "\<lparr>raw_buffer = buildKeepAliveMsg, raw_packets = raw_offsets 0 [buildKeepAliveMsg],
      raw_byteLength = length buildKeepAliveMsg, raw_packetCount = 1\<rparr>"
  have p: "parseBgpRawPacket (hex buildKeepAliveMsg) = Inr ?r"
    using raw_hex_accepted [of "[buildKeepAliveMsg]"] keepalive_raw_ok by simp
  have c: "concat [take 7 buildKeepAliveMsg, drop 7 buildKeepAliveMsg] = raw_buffer ?r" by simp
  obtain ps b' where ps: "concat ps = raw_buffer ?r" "length ps = raw_packetCount ?r" "raw_packets ?r = raw_offsets 0 ps"
    "receive_all (=) [] [take 7 buildKeepAliveMsg, drop 7 buildKeepAliveMsg] demo_bgp =
      Some (b', handle_packets (=) (map (\<lambda>p. (unat (p ! 18), p)) ps) demo_bgp)"
    using bgp_raw_delivered [OF p c, of "(=)" demo_bgp] by blast
  show ?thesis
    by (intro exI [of _ b'] exI [of _ ps] conjI) (use ps p in simp_all)
qed

end
