(* ===== verification/Spec2Isabelle.thy ===== *)
theory Spec2Isabelle
  imports Ftp_Worker Ntp_Worker Netconf_Framing Dhcp Dhcp6 Tftp_Worker Rpki_Worker Bgp_Raw
begin

text \<open>
  NetNexus is a desktop tool for network engineers: an Electron application whose protocol engines run in worker processes under
  \<^verbatim>\<open>src/electron/worker\<close>, with packet code under \<^verbatim>\<open>src/electron/utils\<close> and constants under
  \<^verbatim>\<open>src/electron/const\<close>.  This development models the engines that keep protocol state and proves what they promise.

  \<^bold>\<open>Conventions.\<close>  \<open>Js_Prelude\<close> fixes how the language is translated.  A Buffer is a list of bytes, a byte an
  \<open>8 word\<close>; a number is a \<open>nat\<close> or \<open>int\<close>, with the wrap-around of 8, 16 and 32 bit fields written out, and a
  \<open>32 word\<close> where the code works on bits or on serials; a string is a list of characters; a Map is an association list in
  insertion order; an exception is the left side of a sum, or the last component of what a method returns.  An object is a record and a
  method a function that returns the changed record and the list of its outputs (packets, events, calls of the file system).  What a
  callback needs is kept in the output that asked for it, and the callback is a function of its own; a sequence of callbacks is a list of
  events or an inductive reachability predicate.  Clocks, random bytes, results of the file system, of sockets and of third-party
  parsers are arguments.  Log calls are left out.  A definition has the name of the source where that is possible; a name that two
  components share has a prefix.

  \<^bold>\<open>Shared layers.\<close>
  \<^item> \<open>Js_Prelude\<close>: buffers, numbers, text, and the collections \<open>buf_simps\<close> and \<open>text_simps\<close>.
  \<^item> \<open>Stream_Framing\<close>: the receive loop \<open>drive\<close> of the stream protocols and the interface \<open>deframer\<close>: if a step
    does not depend on bytes behind the message it takes, then a stream cut into arbitrary pieces gives the messages of the whole
    stream.  It is interpreted on both NETCONF framings (\<open>delim\<close>, \<open>chunkd\<close>), on RPKI-RTR (\<open>rtr\<close>) and on BGP
    (\<open>bgp\<close>).
  \<^item> \<open>Lease_Table\<close>: the interface \<open>lease_table\<close> of two maps that have to agree (client to lease, address to
    client), interpreted on the DHCPv4 server (\<open>v4\<close>) and on the DHCPv6 server (\<open>v6\<close>).
  \<^item> \<open>Posix_Path\<close>: \<open>resolve\<close>, \<open>relative\<close>, \<open>join\<close> and \<open>dirname\<close> of the module \<open>path\<close>, for the
    TFTP and the FTP server.

  \<^bold>\<open>Components.\<close>
  \<^item> \<open>Netconf_Framing\<close> (\<^verbatim>\<open>utils/netconf/framing.js\<close>): the two framings of RFC 6242.  Encoding and
    pushing in arbitrary pieces is a round trip, \<open>push\<close> ends on every input and respects its bounds, and the change
    from the first framing to the second one loses no byte.
  \<^item> \<open>Dhcp\<close> (\<^verbatim>\<open>worker/dhcp/dhcpWorker.js\<close>, \<^verbatim>\<open>dhcpLease.js\<close>), \<open>Ipv6_Text\<close> and
    \<open>Dhcp6\<close> (\<^verbatim>\<open>dhcp6Worker.js\<close>, \<^verbatim>\<open>dhcp6Lease.js\<close>): parsers, builders, allocation, message
    handlers, expiry.  No two DHCPv4 clients share an address; allocation gives the lowest free address; built messages parse back;
    the DHCPv6 tables agree as long as no client asks for the address of another one, and can be driven apart otherwise.
  \<^item> \<open>Tftp_Session\<close>, \<open>Tftp_Worker\<close> (\<^verbatim>\<open>worker/transfer/tftpSession.js\<close>, \<^verbatim>\<open>tftpWorker.js\<close>): transfers
    in both directions, option negotiation, retransmission, the path check, the transfer log.  Uploads and downloads are complete and in
    order, no path leaves the root directory, silent clients end a session, the log is bounded and consistent; a download of more than
    65535 blocks never ends.
  \<^item> \<open>Ftp_Session\<close>, \<open>Ftp_Worker\<close> (\<^verbatim>\<open>worker/transfer/ftpSession.js\<close>, \<^verbatim>\<open>ftpWorker.js\<close>): the control
    connection with its nineteen commands, the callbacks of the file system and of the data connection, the session map.  Files are only
    touched after a login; the lines that are run do not depend on how the stream is cut; paths stay below the root directory for
    arguments without double dots and reach every file for arguments with them; sessions do not disturb each other; a session that stays in the map
    is handed to the next connection with its login.
  \<^item> \<open>Ntp_Worker\<close> (\<^verbatim>\<open>worker/services/ntpWorker.js\<close>): time formats, replies, the request log.
  \<^item> \<open>Rpki_Pdu\<close>, \<open>Rpki_Session\<close> (\<^verbatim>\<open>worker/rpki/rpkiSession.js\<close>), \<open>Rpki_Store\<close>
    (\<^verbatim>\<open>rpkiSqliteStore.js\<close>), \<open>Rpki_Import\<close> (\<^verbatim>\<open>rpkiImportTask.js\<close>) and \<open>Rpki_Worker\<close>
    (\<^verbatim>\<open>rpkiWorker.js\<close>): the RPKI-RTR cache.  The session parses queries and writes data PDUs; the store is the database as lists
    of rows and refines two finite maps with a change counter (\<open>rpki_store_refines\<close>); the worker keeps the bounded history of
    changes behind incremental answers.  This theory joins the three: a router that follows the answers has the data of the database
    (\<open>rpki_incremental_sync\<close>).
  \<^item> \<open>Bgp_Open\<close>, \<open>Bgp_Session\<close>, \<open>Bgp_Negotiation\<close>, \<open>Bgp_Raw\<close> (\<^verbatim>\<open>worker/bgp/bgpSession.js\<close>, the peer
    states of \<^verbatim>\<open>bgpPeer.js\<close> and \<^verbatim>\<open>bgpInstance.js\<close>, \<^verbatim>\<open>utils/bgp/bgpPacketParser.js\<close>,
    \<^verbatim>\<open>bgpUtils.js\<close>, \<^verbatim>\<open>bgpRawPacket.js\<close>): messages, the session state machine, what two sessions agree on
    after exchanging OPEN messages, establishment, raw messages.

  \<^bold>\<open>Loops.\<close>  Loops that always end are \<open>fun\<close> or \<open>function\<close> with a measure.  Loops that may not end are
  \<open>partial_function (option)\<close>, where \<open>None\<close> is a loop that runs forever: \<open>drive\<close> (shown to end for every
  interpretation), \<open>alloc_loop\<close> of DHCPv6 (ends if the pool does not end at the all-ones address) and \<open>bgp_loop\<close>
  (\<open>bgp_zero_length_hangs\<close> is the case in which it does not).  \<open>trim_loop\<close> of the RPKI history has the value \<open>None\<close> where the
  source would loop on an empty history, which exact counters exclude (\<open>rpki_history_trim\<close>).  No fuel is used.  The bounds of the code are kept as they are:
  message and chunk sizes of the framings, 200 entries of the TFTP and NTP logs, the three limits of the RPKI history and its 16 open
  snapshots, the 16-bit block numbers of TFTP.  The serial of the RPKI cache has 32 bits, hence statements about fewer than
  \<open>2 ^ 32\<close> requests.

  \<^bold>\<open>Not modelled.\<close>  The content of BGP UPDATE messages and the sending of routes, the BGP route database and the BMP collector
  on top of it: far more code than the sessions below them, with tables of attribute formats that have no state.  NETCONF over SSH, YANG, gRPC
  and SNMP: thin layers over third-party libraries and a native binding.  RADIUS and syslog: message digests of the Node.js library and
  locale dependent parsing.  The TCP authentication helpers: a native process and operating system calls.  The streaming JSON parser in front
  of the RPKI import, whose objects are an argument.  The Electron application layer, the user interface, mock devices and build scripts:
  input and output only.  In the modelled workers sockets, timers and file streams appear as events and outputs; the waiting for a full
  socket (drain) is left out, and text on the FTP control connection is ASCII.
\<close>

section \<open>Properties that span components\<close>

text \<open>The RPKI store, worker and session together.\<close>

lemma worker_env_simps:
  "env_serial (worker_env mv w) = cacheSerial w" "env_delta (worker_env mv w) = getDeltaOperationsSince w"
  by (simp_all add: worker_env_def)

lemma snapshot_data:
  assumes "worker_ok w" "rpkiStore w \<noteq> None" "createDataSnapshot w = (w', Inr d)"
  shows "snap_serial d = cacheSerial w \<and> worker_data w = \<lparr>ds_roas = set (snap_roas d),
    ds_keys = set (snap_routerKeys d), ds_aspas = set (snap_aspas d)\<rparr>"
  using assms
  by (cases "rpkiStore w")
    (simp_all add: createDataSnapshot_def worker_ok_def worker_data_def split: if_splits, force)

text \<open>C1. Routers stay in step with the database.  A router holds the data set of an earlier state of the worker
  and sends a Serial Query with that state's serial, after any sequence of storage
  requests.  Then either the session answers Cache Reset at once, or it queues a response with the
  current serial whose changes turn the router's data set into the current one.  And the
  snapshot that a following Reset Query is answered from has exactly the current data set and
  serial.\<close>

theorem rpki_incremental_sync:
  assumes "worker_ok w" "length qs < 2 ^ 32"
    and "canWrite s" "sendQueue s = []" "sessionId s = Some i" "i < 65536" "protocolVersion s = v" "v < 256"
    and "message = pdu v SERIAL_QUERY (enc16 i) (enc32 (unat (cacheSerial w)))"
  shows "\<exists>w'. run_requests n qs w = Some w' \<and>
    (processMessage (worker_env mv w') message s = (s, [Write (cacheResetPdu v)]) \<or>
     (\<exists>ops. processMessage (worker_env mv w') message s =
          (s\<lparr>sendQueue := [SerialResponse ops (cacheSerial w')]\<rparr>, []) \<and>
        fold apply_op ops (worker_data w) = worker_data w')) \<and>
    (\<forall>w'' d. rpkiStore w' \<noteq> None \<and> createDataSnapshot w' = (w'', Inr d) \<longrightarrow>
       snap_serial d = cacheSerial w' \<and>
       worker_data w' = \<lparr>ds_roas = set (snap_roas d), ds_keys = set (snap_routerKeys d), ds_aspas = set (snap_aspas d)\<rparr>)"
proof -
  obtain w' where w': "run_requests n qs w = Some w'" "worker_ok w'"
    and d: "\<And>ops. getDeltaOperationsSince w' (cacheSerial w) = Some ops \<Longrightarrow>
      fold apply_op ops (worker_data w) = worker_data w'"
    using run_requests_delta [OF assms(1,2), of n] by blast
  have p: "processMessage (worker_env mv w') message s = (case getDeltaOperationsSince w' (cacheSerial w) of
      None \<Rightarrow> if cacheSerial w \<noteq> cacheSerial w' then sendCacheReset s
              else sendSerialQueryResponse [] (cacheSerial w') s
    | Some ops \<Rightarrow> sendSerialQueryResponse ops (cacheSerial w') s)"
    using serial_query_processed [OF assms(3,5,6,7,8,9), of "worker_env mv w'"] by (simp only: worker_env_simps)
  have q: "sendSerialQueryResponse ops c s = (s\<lparr>sendQueue := [SerialResponse ops c]\<rparr>, [])" for ops c
    using assms(3,4) canWrite_open [of s] by (simp add: sendSerialQueryResponse_def enqueueSend_def)
  have "processMessage (worker_env mv w') message s = (s, [Write (cacheResetPdu v)]) \<or>
     (\<exists>ops. processMessage (worker_env mv w') message s =
          (s\<lparr>sendQueue := [SerialResponse ops (cacheSerial w')]\<rparr>, []) \<and>
        fold apply_op ops (worker_data w) = worker_data w')"
  proof (cases "getDeltaOperationsSince w' (cacheSerial w)")
    case None
    then have "cacheSerial w \<noteq> cacheSerial w'" by (auto simp: getDeltaOperationsSince_def)
    then show ?thesis using None assms(3,7) by (simp add: p sendCacheReset_def sendMessage_def)
  next
    case (Some ops)
    then show ?thesis using d [OF Some] by (intro disjI2 exI [of _ ops]) (simp add: p q)
  qed
  then show ?thesis using w' snapshot_data by blast
qed

definition sync_session :: rpki_session where
  "sync_session = demo_session\<lparr>sessionId := Some 7\<rparr>"

theorem rpki_incremental_sync_witness:
  "\<exists>w'. run_requests demo_norm [AddRoa (import_demo 7)] demo_worker = Some w' \<and>
    processMessage (worker_env None w') (pdu 0 SERIAL_QUERY (enc16 7) (enc32 (unat (cacheSerial demo_worker)))) sync_session =
      (sync_session\<lparr>sendQueue := [SerialResponse [RoaOp Announce (import_demo 7)] (cacheSerial w')]\<rparr>, []) \<and>
    apply_op (RoaOp Announce (import_demo 7)) (worker_data demo_worker) = worker_data w'"
proof -
  let ?m = "pdu 0 SERIAL_QUERY (enc16 7) (enc32 (unat (cacheSerial demo_worker)))"
  have s: "canWrite sync_session" "sendQueue sync_session = []" "sessionId sync_session = Some 7"
    "protocolVersion sync_session = 0"
    by (simp_all add: sync_session_def demo_session_defs canWrite_def)
  obtain w' where w': "run_requests demo_norm [AddRoa (import_demo 7)] demo_worker = Some w'"
    "processMessage (worker_env None w') ?m sync_session = (sync_session, [Write (cacheResetPdu 0)]) \<or>
     (\<exists>ops. processMessage (worker_env None w') ?m sync_session =
          (sync_session\<lparr>sendQueue := [SerialResponse ops (cacheSerial w')]\<rparr>, []) \<and>
        fold apply_op ops (worker_data demo_worker) = worker_data w')"
    using rpki_incremental_sync [OF demo_worker_ok _ s(1,2,3) _ s(4) _ refl, of "[AddRoa (import_demo 7)]" demo_norm None] by auto
  have "getDeltaOperationsSince w' (cacheSerial demo_worker) = Some [RoaOp Announce (import_demo 7)]"
    using demo_delta w'(1) by (simp add: demo_worker_eq)
  then have p: "processMessage (worker_env None w') ?m sync_session =
      (sync_session\<lparr>sendQueue := [SerialResponse [RoaOp Announce (import_demo 7)] (cacheSerial w')]\<rparr>, [])"
    using serial_query_processed [OF s(1,3) _ s(4) _ refl, of "worker_env None w'" "cacheSerial demo_worker"] s canWrite_open [OF s(1)]
    by (simp add: worker_env_simps sendSerialQueryResponse_def enqueueSend_def)
  then obtain ops where ops: "processMessage (worker_env None w') ?m sync_session =
      (sync_session\<lparr>sendQueue := [SerialResponse ops (cacheSerial w')]\<rparr>, [])"
    "fold apply_op ops (worker_data demo_worker) = worker_data w'"
    using w'(2) by auto
  have "ops = [RoaOp Announce (import_demo 7)]"
    using arg_cong [OF trans [OF p [symmetric] ops(1)], of "sendQueue \<circ> fst"] by simp
  then show ?thesis using w'(1) p ops(2) by (intro exI [of _ w']) simp
qed

end
